(* ===== verification/Prelude.thy ===== *)
theory Prelude
  imports Main "HOL-Library.Char_ord" "HOL-Library.List_Lexorder"
begin

unbundle bit_operations_syntax

text \<open>
  Shared vocabulary of the development: the collections the component proofs use, Python
  exceptions and results as values, and the generic lemmas on lists, results and bit
  strings that several components need.

  \<^item> \<open>py_exc\<close> has one constructor per exception class the generator can raise, with the
    message the source builds; \<open>'a res\<close> is the outcome of a call that may raise.
  \<^item> \<open>res_bind\<close> sequences two calls, \<open>res_map\<close> is a loop (or a list comprehension) whose
    body may raise, \<open>res_for\<close> a loop that is run for its checks only.
\<close>

named_theorems let_names "the names a group of let bindings binds and uses"

section \<open>Exceptions as values\<close>

datatype py_exc =
    UnsupportedRdlError string
  | ValueError string
  | StopIteration
  | IndexError

type_synonym 'a res = "py_exc + 'a"

definition res_bind :: "'a res \<Rightarrow> ('a \<Rightarrow> 'b res) \<Rightarrow> 'b res" where
  "res_bind r f = (case r of Inl e \<Rightarrow> Inl e | Inr a \<Rightarrow> f a)"

fun res_map :: "('a \<Rightarrow> 'b res) \<Rightarrow> 'a list \<Rightarrow> 'b list res" where
  "res_map f [] = Inr []"
| "res_map f (x # xs) = res_bind (f x) (\<lambda>y. res_bind (res_map f xs) (\<lambda>ys. Inr (y # ys)))"

fun res_for :: "('a \<Rightarrow> unit res) \<Rightarrow> 'a list \<Rightarrow> unit res" where
  "res_for f [] = Inr ()"
| "res_for f (x # xs) = res_bind (f x) (\<lambda>_. res_for f xs)"

definition raise_if :: "bool \<Rightarrow> py_exc \<Rightarrow> unit res" where
  "raise_if b e = (if b then Inl e else Inr ())"

lemma res_bind_simps [simp]:
  "res_bind (Inl e) f = Inl e" "res_bind (Inr a) f = f a"
  by (simp_all add: res_bind_def)

lemma res_bind_eq_Inr [simp]: "res_bind r f = Inr b \<longleftrightarrow> (\<exists>a. r = Inr a \<and> f a = Inr b)"
  by (cases r) auto

lemma raise_if_eq_Inr [simp]: "raise_if b e = Inr u \<longleftrightarrow> \<not> b"
  by (simp add: raise_if_def)

lemma raise_if_eq_Inl [simp]: "raise_if b e = Inl x \<longleftrightarrow> b \<and> x = e"
  by (auto simp: raise_if_def)

lemma res_for_eq_Inr [simp]: "res_for f xs = Inr u \<longleftrightarrow> (\<forall>x \<in> set xs. f x = Inr ())"
  by (induction xs) auto

lemma res_map_eq_Inr: "res_map f xs = Inr ys \<Longrightarrow> length ys = length xs \<and> (\<forall>i < length xs. f (xs ! i) = Inr (ys ! i))"
proof (induction xs arbitrary: ys)
  case Nil
  then show ?case by simp
next
  case (Cons x xs)
  then obtain z zs where "ys = z # zs" "f x = Inr z" "res_map f xs = Inr zs" by auto
  with Cons.IH[of zs] show ?case by (auto simp: nth_Cons split: nat.splits)
qed

lemma res_map_total:
  "(\<And>x. x \<in> set xs \<Longrightarrow> f x = Inr (g x)) \<Longrightarrow> res_map f xs = Inr (map g xs)"
  by (induction xs) auto

lemma res_map_all_Inr: "(\<forall>x \<in> set xs. \<exists>y. f x = Inr y) \<longleftrightarrow> (\<exists>ys. res_map f xs = Inr ys)"
  by (induction xs) auto

lemma res_map_post:
  assumes "\<And>x. f x = res_bind (g x) (\<lambda>y. Inr (h y))"
  shows "res_map f xs = res_bind (res_map g xs) (\<lambda>ys. Inr (map h ys))"
proof (induction xs)
  case (Cons x xs)
  then show ?case by (cases "g x"; cases "res_map g xs") (simp_all add: assms)
qed simp

lemma res_map_error:
  assumes "\<And>x. x \<in> set xs \<Longrightarrow> f x = (if P x then Inl e else Inr (g x))"
  shows "res_map f xs = (if \<exists>x \<in> set xs. P x then Inl e else Inr (map g xs))"
  using assms by (induction xs) auto

lemma res_map_memD:
  assumes "res_map f xs = Inr ys" and "y \<in> set ys"
  shows "\<exists>x \<in> set xs. f x = Inr y"
  using assms by (induction xs arbitrary: ys) auto

section \<open>Lists\<close>

lemma find_map_of: "map_of (map (\<lambda>x. (k x, v x)) xs) a = map_option v (find (\<lambda>x. k x = a) xs)"
  by (induction xs) auto

lemma find_Some_set: "find P xs = Some x \<Longrightarrow> x \<in> set xs \<and> P x"
  by (auto simp: find_Some_iff)

lemma find_unique:
  assumes "distinct (map k xs)" and "x \<in> set xs"
  shows "find (\<lambda>y. k y = k x) xs = Some x"
  using assms by (induction xs) auto

lemma concat_map_filter: "concat (map f (filter P xs)) = concat (map (\<lambda>x. if P x then f x else []) xs)"
  by (induction xs) auto

lemma concat_map_concat_map:
  "concat (map f (concat (map g xs))) = concat (map (\<lambda>x. concat (map f (g x))) xs)"
  by (induction xs) auto

lemma concat_map_concat: "concat (map f (concat xss)) = concat (map (\<lambda>xs. concat (map f xs)) xss)"
  by (induction xss) auto

text \<open>Python's \<open>sorted(xs, key=k, reverse=True)\<close>: descending, equal keys in their order.\<close>

definition sort_key_desc :: "('a \<Rightarrow> 'k::linorder) \<Rightarrow> 'a list \<Rightarrow> 'a list" where
  "sort_key_desc k xs = rev (sort_key k (rev xs))"

lemma set_sort_key_desc [simp]: "set (sort_key_desc k xs) = set xs"
  by (simp add: sort_key_desc_def)

lemma sorted_sort_key_desc: "sorted (rev (map k (sort_key_desc k xs)))"
  by (simp add: sort_key_desc_def rev_map [symmetric])

lemma distinct_sort_key_desc [simp]: "distinct (sort_key_desc k xs) \<longleftrightarrow> distinct xs"
  by (simp add: sort_key_desc_def)

lemma length_sort_key_desc [simp]: "length (sort_key_desc k xs) = length xs"
  by (simp add: sort_key_desc_def)

section \<open>Bits of natural numbers\<close>

lemma div_pow_less: "(v::nat) < 2 ^ (a + b) \<Longrightarrow> v div 2 ^ b < 2 ^ a"
  by (simp add: less_mult_imp_div_less power_add)

lemma concat_bits_less: "(a::nat) < 2 ^ m \<Longrightarrow> b < 2 ^ n \<Longrightarrow> a * 2 ^ n + b < 2 ^ (m + n)"
proof -
  assume a: "a < 2 ^ m" and b: "b < 2 ^ n"
  then have "a * 2 ^ n + b < (a + 1) * 2 ^ n" by simp
  also have "\<dots> \<le> 2 ^ m * 2 ^ n" using a by (intro mult_le_mono1) simp
  finally show ?thesis by (simp add: power_add)
qed

lemma and_less_pow: "(a::nat) < 2 ^ w \<Longrightarrow> a AND b < 2 ^ w"
proof -
  assume "a < 2 ^ w"
  then have "a = take_bit w a" by (simp add: take_bit_nat_eq_self)
  then have "a AND b = take_bit w (a AND b)"
    by (metis and.assoc and.commute take_bit_and take_bit_eq_mask)
  then show ?thesis by (metis take_bit_nat_less_exp)
qed

lemma or_less_pow: "(a::nat) < 2 ^ w \<Longrightarrow> b < 2 ^ w \<Longrightarrow> a OR b < 2 ^ w"
  by (metis take_bit_or take_bit_nat_eq_self take_bit_nat_less_exp)

lemma bit_less_pow: "(n::nat) < 2 ^ w \<Longrightarrow> bit n i \<Longrightarrow> i < w"
  by (metis bit_take_bit_iff take_bit_nat_eq_self)

lemma bit_complement:
  assumes "(x::nat) < 2 ^ w"
  shows "bit (2 ^ w - 1 - x) i \<longleftrightarrow> i < w \<and> \<not> bit x i"
proof -
  have t: "take_bit w (int x) = int x" using assms by (simp add: take_bit_int_eq_self)
  have "int (2 ^ w - 1 - x) = mask w - take_bit w (int x)"
    using assms by (simp add: t mask_eq_exp_minus_1 of_nat_diff)
  also have "\<dots> = take_bit w (NOT (int x))" by (simp add: take_bit_not_eq_mask_diff)
  finally have "bit ((2::nat) ^ w - 1 - x) i \<longleftrightarrow> bit (take_bit w (NOT (int x))) i"
    by (metis bit_of_nat_iff_bit)
  then show ?thesis by (simp add: bit_take_bit_iff bit_not_iff bit_of_nat_iff_bit)
qed

lemma bit_prepend:
  assumes "(v::nat) < 2 ^ k"
  shows "bit (of_bool b * 2 ^ k + v) c \<longleftrightarrow> (if c < k then bit v c else c = k \<and> b)"
proof (cases "c < k")
  case True
  have "take_bit k (of_bool b * 2 ^ k + v) = v" using assms by (simp add: take_bit_eq_mod)
  then show ?thesis using True by (metis bit_take_bit_iff)
next
  case False
  have "drop_bit k (of_bool b * 2 ^ k + v) = of_bool b" using assms by (simp add: drop_bit_eq_div)
  then have "bit (of_bool b * 2 ^ k + v) (k + (c - k)) = bit (of_bool b :: nat) (c - k)"
    by (metis bit_drop_bit_eq comp_apply)
  then show ?thesis using False by (auto simp: bit_of_bool_iff)
qed

end
