(* ===== verification/PyStr.thy ===== *)
theory PyStr
  imports Prelude
begin

text \<open>
  The Python string and integer operations the generator uses, on ASCII strings:
  \<^verbatim>\<open>join\<close>, \<^verbatim>\<open>startswith\<close>, \<^verbatim>\<open>endswith\<close>, \<^verbatim>\<open>in\<close>, \<^verbatim>\<open>strip\<close>, \<^verbatim>\<open>split\<close>, \<^verbatim>\<open>int(s, 0)\<close>,
  \<^verbatim>\<open>str(n)\<close>, the format codes \<^verbatim>\<open>:x\<close> and \<^verbatim>\<open>:0nx\<close>, \<^verbatim>\<open>repr\<close> of a string, truthiness of an
  optional string, and \<^verbatim>\<open>sorted\<close> of a set of strings. The lemmas give the round trip between
  printing and reading numbers and the injectivity of decimal numerals inside names.
\<close>

section \<open>Joining, prefixes, splitting\<close>

fun join :: "string \<Rightarrow> string list \<Rightarrow> string" where
  "join sep [] = []"
| "join sep [x] = x"
| "join sep (x # xs) = x @ sep @ join sep xs"

abbreviation newline :: string where
  "newline \<equiv> [CHR 0x0A]"

definition startswith :: "string \<Rightarrow> string \<Rightarrow> bool" where
  "startswith p s \<longleftrightarrow> take (length p) s = p"

definition endswith :: "string \<Rightarrow> string \<Rightarrow> bool" where
  "endswith p s \<longleftrightarrow> length p \<le> length s \<and> drop (length s - length p) s = p"

fun contains :: "string \<Rightarrow> string \<Rightarrow> bool" where
  "contains p [] = (p = [])"
| "contains p (c # s) = (startswith p (c # s) \<or> contains p s)"

definition is_space :: "char \<Rightarrow> bool" where
  "is_space c \<longleftrightarrow> (let n = (of_char c :: nat) in 9 \<le> n \<and> n \<le> 13 \<or> 28 \<le> n \<and> n \<le> 32)"

definition strip :: "string \<Rightarrow> string" where
  "strip s = rev (dropWhile is_space (rev (dropWhile is_space s)))"

fun split_on :: "char \<Rightarrow> string \<Rightarrow> string list" where
  "split_on c [] = [[]]"
| "split_on c (x # xs) =
     (if x = c then [] # split_on c xs
      else (case split_on c xs of [] \<Rightarrow> [[x]] | w # ws \<Rightarrow> (x # w) # ws))"

definition is_digit :: "char \<Rightarrow> bool" where
  "is_digit c \<longleftrightarrow> (let n = (of_char c :: nat) in 48 \<le> n \<and> n \<le> 57)"

definition is_alpha :: "char \<Rightarrow> bool" where
  "is_alpha c \<longleftrightarrow> (let n = (of_char c :: nat) in 65 \<le> n \<and> n \<le> 90 \<or> 97 \<le> n \<and> n \<le> 122)"

definition isalnum :: "string \<Rightarrow> bool" where
  "isalnum s \<longleftrightarrow> s \<noteq> [] \<and> list_all (\<lambda>c. is_alpha c \<or> is_digit c) s"

definition upper_char :: "char \<Rightarrow> char" where
  "upper_char c = (let n = (of_char c :: nat) in if 97 \<le> n \<and> n \<le> 122 then char_of (n - 32) else c)"

text \<open>\<^verbatim>\<open>bool(s)\<close> for an optional string: \<^verbatim>\<open>None\<close> and the empty string are false.\<close>

definition truthy :: "string option \<Rightarrow> bool" where
  "truthy s \<longleftrightarrow> s \<noteq> None \<and> s \<noteq> Some []"

text \<open>\<^verbatim>\<open>s or None\<close>.\<close>

definition or_none :: "string option \<Rightarrow> string option" where
  "or_none s = (if truthy s then s else None)"

text \<open>\<^verbatim>\<open>bool(p or False)\<close> for an optional Boolean property.\<close>

definition flag :: "bool option \<Rightarrow> bool" where
  "flag b \<longleftrightarrow> b = Some True"

text \<open>\<^verbatim>\<open>sorted\<close> of a set comprehension of strings: ascending by code point, no duplicates.\<close>

definition sorted_set :: "string list \<Rightarrow> string list" where
  "sorted_set xs = sort (remdups xs)"

section \<open>Numbers as text\<close>

function nat_digits :: "nat \<Rightarrow> nat \<Rightarrow> nat list" where
  "nat_digits b n = (if n < b \<or> b < 2 then [n] else nat_digits b (n div b) @ [n mod b])"
  by pat_completeness auto
termination
  by (relation "measure (\<lambda>(b, n). n)") auto

declare nat_digits.simps [simp del]

definition digit_chars :: string where
  "digit_chars = ''0123456789abcdef''"

definition digit_char :: "nat \<Rightarrow> char" where
  "digit_char d = digit_chars ! d"

definition nat_dec :: "nat \<Rightarrow> string" where
  "nat_dec n = map digit_char (nat_digits 10 n)"

definition nat_hex :: "nat \<Rightarrow> string" where
  "nat_hex n = map digit_char (nat_digits 16 n)"

definition int_dec :: "int \<Rightarrow> string" where
  "int_dec i = (if i < 0 then ''-'' @ nat_dec (nat (- i)) else nat_dec (nat i))"

definition int_hex :: "int \<Rightarrow> string" where
  "int_hex i = (if i < 0 then ''-'' @ nat_hex (nat (- i)) else nat_hex (nat i))"

text \<open>The format code \<^verbatim>\<open>:0kx\<close> of a non-negative number.\<close>

definition nat_hex_pad :: "nat \<Rightarrow> nat \<Rightarrow> string" where
  "nat_hex_pad k n = replicate (k - length (nat_hex n)) (CHR ''0'') @ nat_hex n"

section \<open>Reading numbers\<close>

definition digit_val :: "char \<Rightarrow> nat option" where
  "digit_val c = (let n = (of_char c :: nat) in
     if 48 \<le> n \<and> n \<le> 57 then Some (n - 48)
     else if 97 \<le> n \<and> n \<le> 122 then Some (n - 87)
     else if 65 \<le> n \<and> n \<le> 90 then Some (n - 55)
     else None)"

text \<open>Digits with single underscores between them; the flag says the last one was an underscore.\<close>

fun read_digits :: "nat \<Rightarrow> nat \<Rightarrow> bool \<Rightarrow> string \<Rightarrow> nat option" where
  "read_digits b acc us [] = (if us then None else Some acc)"
| "read_digits b acc us (c # cs) =
     (if c = CHR ''_'' then (if us then None else read_digits b acc True cs)
      else (case digit_val c of
              None \<Rightarrow> None
            | Some d \<Rightarrow> if d < b then read_digits b (acc * b + d) False cs else None))"

definition read_prefixed :: "nat \<Rightarrow> string \<Rightarrow> nat option" where
  "read_prefixed b s = (if s = [] then None else read_digits b 0 False s)"

text \<open>An unsigned literal of \<^verbatim>\<open>int(s, 0)\<close>: a base prefix, or decimal without a leading zero.\<close>

definition read_unsigned :: "string \<Rightarrow> nat option" where
  "read_unsigned s =
     (if startswith ''0x'' s \<or> startswith ''0X'' s then read_prefixed 16 (drop 2 s)
      else if startswith ''0o'' s \<or> startswith ''0O'' s then read_prefixed 8 (drop 2 s)
      else if startswith ''0b'' s \<or> startswith ''0B'' s then read_prefixed 2 (drop 2 s)
      else (case read_digits 10 0 True s of
              None \<Rightarrow> None
            | Some n \<Rightarrow> if startswith ''0'' s \<and> n \<noteq> 0 then None else Some n))"

text \<open>\<^verbatim>\<open>int(s, 0)\<close>; \<^verbatim>\<open>None\<close> is its \<^verbatim>\<open>ValueError\<close>.\<close>

definition py_int0 :: "string \<Rightarrow> int option" where
  "py_int0 s0 = (let s = strip s0 in
     (case s of
        [] \<Rightarrow> None
      | c # cs \<Rightarrow>
          if c = CHR ''-'' then map_option (\<lambda>n. - int n) (read_unsigned cs)
          else if c = CHR ''+'' then map_option int (read_unsigned cs)
          else map_option int (read_unsigned s)))"

section \<open>repr\<close>

definition hex2 :: "nat \<Rightarrow> string" where
  "hex2 n = nat_hex_pad 2 n"

definition repr_char :: "char \<Rightarrow> char \<Rightarrow> string" where
  "repr_char q c = (let n = (of_char c :: nat) in
     if c = q \<or> c = CHR 0x5C then [CHR 0x5C, c]
     else if n = 9 then [CHR 0x5C, CHR ''t'']
     else if n = 10 then [CHR 0x5C, CHR ''n'']
     else if n = 13 then [CHR 0x5C, CHR ''r'']
     else if n < 32 \<or> n = 127 then [CHR 0x5C, CHR ''x''] @ hex2 n
     else [c])"

definition repr :: "string \<Rightarrow> string" where
  "repr s = (let q = (if CHR 0x27 \<in> set s \<and> CHR 0x22 \<notin> set s then CHR 0x22 else CHR 0x27)
             in [q] @ concat (map (repr_char q) s) @ [q])"

section \<open>Lemmas\<close>

declare join.simps [simp del]

lemma startswith_append [simp]: "startswith p (p @ s)"
  by (simp add: startswith_def)

lemma startswith_iff: "startswith p s \<longleftrightarrow> (\<exists>t. s = p @ t)"
  by (metis append_eq_conv_conj startswith_def append_take_drop_id)

lemma endswith_iff: "endswith p s \<longleftrightarrow> (\<exists>t. s = t @ p)"
proof
  assume "endswith p s"
  then have "s = take (length s - length p) s @ p"
    by (metis append_take_drop_id endswith_def)
  then show "\<exists>t. s = t @ p" ..
qed (auto simp: endswith_def)

lemma contains_append [simp]: "contains p (s @ p @ t)"
proof (induction s)
  case Nil
  then show ?case by (cases "p @ t") (auto simp: startswith_iff intro: sym)
qed simp

lemma contains_set: "contains p s \<Longrightarrow> set p \<subseteq> set s"
proof (induction s)
  case (Cons c s)
  then show ?case
    by (metis Un_iff contains.simps(2) set_append set_subset_Cons startswith_iff subset_iff)
qed simp

lemma set_sorted_set [simp]: "set (sorted_set xs) = set xs"
  by (simp add: sorted_set_def)

lemma distinct_sorted_set [simp]: "distinct (sorted_set xs)"
  by (simp add: sorted_set_def)

lemma truthy_simps [simp]: "\<not> truthy None" "truthy (Some s) \<longleftrightarrow> s \<noteq> []"
  by (simp_all add: truthy_def)

lemma or_none_simps [simp]: "or_none None = None" "or_none (Some s) = (if s = [] then None else Some s)"
  by (simp_all add: or_none_def)

lemma truthy_or_none [simp]: "truthy (or_none s) = truthy s"
  by (cases s) auto

lemma nat_digits_less: "2 \<le> b \<Longrightarrow> d \<in> set (nat_digits b n) \<Longrightarrow> d < b"
proof (induction b n rule: nat_digits.induct)
  case (1 b n)
  then show ?case
    by (subst (asm) (2) nat_digits.simps) (auto split: if_splits)
qed

lemma nat_digits_nonempty [simp]: "nat_digits b n \<noteq> []"
  by (subst nat_digits.simps) simp

lemma nat_digits_value: "2 \<le> b \<Longrightarrow> foldl (\<lambda>a d. a * b + d) 0 (nat_digits b n) = n"
proof (induction b n rule: nat_digits.induct)
  case (1 b n)
  show ?case
  proof (cases "n < b")
    case True
    then show ?thesis by (simp add: nat_digits.simps [of b n])
  next
    case False
    with 1 show ?thesis by (simp add: nat_digits.simps [of b n])
  qed
qed

lemma digit_val_digit_char: "d < 16 \<Longrightarrow> digit_val (digit_char d) = Some d"
proof -
  have "list_all (\<lambda>d. digit_val (digit_char d) = Some d) [0..<16]" by code_simp
  then show "d < 16 \<Longrightarrow> ?thesis" by (auto simp: list_all_iff)
qed

lemma digit_char_not_underscore: "d < 16 \<Longrightarrow> digit_char d \<noteq> CHR ''_''"
proof -
  have "list_all (\<lambda>d. digit_char d \<noteq> CHR ''_'') [0..<16]" by code_simp
  then show "d < 16 \<Longrightarrow> ?thesis" by (auto simp: list_all_iff)
qed

lemma digit_char_inj: "c < 16 \<Longrightarrow> d < 16 \<Longrightarrow> digit_char c = digit_char d \<longleftrightarrow> c = d"
  by (metis digit_val_digit_char option.inject)

lemma read_digits_map:
  "list_all (\<lambda>d. d < b) ds \<Longrightarrow> b \<le> 16 \<Longrightarrow> (ds = [] \<Longrightarrow> \<not> us) \<Longrightarrow>
   read_digits b acc us (map digit_char ds) = Some (foldl (\<lambda>a d. a * b + d) acc ds)"
  by (induction ds arbitrary: acc us)
    (auto simp: digit_val_digit_char digit_char_not_underscore)

lemma nat_digits_bounded: "2 \<le> b \<Longrightarrow> list_all (\<lambda>d. d < b) (nat_digits b n)"
  by (auto simp: list_all_iff dest: nat_digits_less)

lemma read_nat_hex: "read_prefixed 16 (nat_hex n) = Some n"
  using read_digits_map [of 16 "nat_digits 16 n" False 0]
  by (simp add: read_prefixed_def nat_hex_def nat_digits_bounded nat_digits_value)

lemma nat_hex_nonempty [simp]: "nat_hex n \<noteq> []"
  by (simp add: nat_hex_def)

lemma nat_dec_nonempty [simp]: "nat_dec n \<noteq> []"
  by (simp add: nat_dec_def)

lemma read_nat_dec: "read_digits 10 0 True (nat_dec n) = Some n"
  using read_digits_map [of 10 "nat_digits 10 n" True 0]
  by (simp add: nat_dec_def nat_digits_bounded nat_digits_value)

lemma nat_dec_inj [simp]: "nat_dec m = nat_dec n \<longleftrightarrow> m = n"
  by (metis option.inject read_nat_dec)

lemma nat_hex_inj [simp]: "nat_hex m = nat_hex n \<longleftrightarrow> m = n"
  by (metis option.inject read_nat_hex)

lemma nat_dec_not_underscore: "CHR ''_'' \<notin> set (nat_dec n)"
proof -
  have "d < 16" if "d \<in> set (nat_digits 10 n)" for d
    using nat_digits_less [OF _ that] by simp
  then show ?thesis by (metis (no_types, lifting) digit_char_not_underscore imageE list.set_map nat_dec_def)
qed

text \<open>A decimal numeral followed by an underscore is read back uniquely inside a name.\<close>

lemma split_at_marker:
  "c \<notin> set a \<Longrightarrow> c \<notin> set b \<Longrightarrow> a @ c # x = b @ c # y \<longleftrightarrow> a = b \<and> x = y"
proof (induction a arbitrary: b)
  case Nil
  then show ?case by (cases b) auto
next
  case (Cons z a)
  then show ?case by (cases b) auto
qed

lemma nat_dec_underscore_inj [simp]:
  "nat_dec m @ CHR ''_'' # x = nat_dec n @ CHR ''_'' # y \<longleftrightarrow> m = n \<and> x = y"
  by (simp add: split_at_marker nat_dec_not_underscore)

text \<open>The numerals the emitters write literally.\<close>

lemma nat_dec_small [simp]:
  "nat_dec 0 = ''0''"
  "nat_dec 1 = ''1''"
  "nat_dec 2 = ''2''"
  "nat_dec 3 = ''3''"
  "nat_dec 4 = ''4''"
  "nat_dec 5 = ''5''"
  "nat_dec 8 = ''8''"
  "nat_dec 9 = ''9''"
  "nat_dec 10 = ''10''"
  "nat_dec 11 = ''11''"
  "nat_dec 12 = ''12''"
  "nat_dec 31 = ''31''"
  "nat_dec 32 = ''32''"
  "nat_dec 63 = ''63''"
  "nat_dec 64 = ''64''"
  "nat_dec (Suc 0) = ''1''"
  by code_simp+

lemma nat_hex_chars: "c \<in> set (nat_hex n) \<Longrightarrow> c \<in> set ''0123456789abcdef''"
proof -
  assume "c \<in> set (nat_hex n)"
  then obtain d where "d \<in> set (nat_digits 16 n)" and c: "c = digit_char d"
    by (auto simp: nat_hex_def)
  then have "d < 16" by (auto dest: nat_digits_less [rotated])
  then have "digit_chars ! d \<in> set digit_chars" by (intro nth_mem) (simp add: digit_chars_def)
  then show ?thesis by (simp add: c digit_char_def digit_chars_def)
qed

lemma nat_dec_chars: "c \<in> set (nat_dec n) \<Longrightarrow> c \<in> set ''0123456789''"
proof -
  assume "c \<in> set (nat_dec n)"
  then obtain d where "d \<in> set (nat_digits 10 n)" and c: "c = digit_char d"
    by (auto simp: nat_dec_def)
  then have d: "d < 10" by (auto dest: nat_digits_less [rotated])
  have "list_all (\<lambda>d. digit_char d \<in> set ''0123456789'') [0..<10]" by code_simp
  with d show ?thesis by (auto simp: c list_all_iff)
qed

end
