(* ===== verification/Warl.thy ===== *)
theory Warl
  imports PyStr
begin

text \<open>
  The SystemRDL user-defined properties (\<^verbatim>\<open>udps/\<close>): which values each one accepts, as the list
  of errors its \<^verbatim>\<open>validate\<close> reports, and the parser of the WARL property. The lemmas relate the
  validator of \<^verbatim>\<open>riscv_warl\<close> to the parser that the scanner runs on the same text.
\<close>

section \<open>Legalization rules\<close>

text \<open>The tagged pair of \<^verbatim>\<open>parse_warl\<close>: \<^verbatim>\<open>('mask', n)\<close> or \<^verbatim>\<open>('enum', [n, ...])\<close>.\<close>

datatype warl = Mask int | Enum "int list"

definition int0 :: "string \<Rightarrow> int res" where
  "int0 s = (case py_int0 s of
     None \<Rightarrow> Inl (ValueError (''invalid literal for int() with base 0: '' @ repr s))
   | Some i \<Rightarrow> Inr i)"

definition parse_warl :: "string \<Rightarrow> warl res" where
  "parse_warl value = (let s = strip value in
     if contains '','' s
     then res_bind (res_map (\<lambda>p. int0 (strip p)) (split_on (CHR '','') s)) (\<lambda>xs. Inr (Enum xs))
     else res_bind (int0 s) (\<lambda>i. Inr (Mask i)))"

text \<open>The error messages \<^verbatim>\<open>RiscvWarl.validate\<close> reports, in order.\<close>

definition warl_validate :: "string \<Rightarrow> string list" where
  "warl_validate value = (let s = strip value in
     if startswith ''0x'' s \<or> startswith ''0X'' s \<or> startswith ''0b'' s \<or> startswith ''0B'' s
        \<or> (s \<noteq> [] \<and> is_digit (hd s) \<and> \<not> contains '','' s)
     then (if py_int0 s = None
           then [''riscv_warl bitmask '' @ repr value @ '' is not a valid integer literal'']
           else [])
     else if contains '','' s
     then concat (map (\<lambda>part.
            if py_int0 (strip part) = None
            then [''riscv_warl enum list entry '' @ repr part
                  @ '' is not a valid integer literal (full value: '' @ repr value @ '')'']
            else []) (split_on (CHR '','') s))
     else [''riscv_warl '' @ repr value @ '' must be either a bitmask literal (e.g. '' @ [CHR 0x27]
           @ ''0x1F'' @ [CHR 0x27] @ '') or a comma-separated enum list (e.g. '' @ [CHR 0x27]
           @ ''0,1,3'' @ [CHR 0x27] @ '')''])"

section \<open>The other properties\<close>

definition csr_addr_validate :: "int \<Rightarrow> string list" where
  "csr_addr_validate value =
     (if \<not> (0 \<le> value \<and> value \<le> 0xFFF)
      then [''riscv_csr_addr '' @ (if value < 0 then ''-'' else []) @ ''0x'' @ nat_hex (nat \<bar>value\<bar>)
            @ '' is out of the 12-bit range (0x000..0xFFF)'']
      else [])"

definition priv_validate :: "string \<Rightarrow> string list" where
  "priv_validate value =
     (if value \<notin> {''m'', ''s'', ''u''}
      then [''riscv_priv must be one of '' @ repr ''m'' @ '', '' @ repr ''s'' @ '', '' @ repr ''u''
            @ '' (got '' @ repr value @ '')'']
      else [])"

definition trap_signal_validate :: "string \<Rightarrow> string list" where
  "trap_signal_validate value =
     (if value = [] \<or> \<not> isalnum (filter (\<lambda>c. c \<noteq> CHR ''_'') value)
      then [''riscv_trap_signal '' @ repr value
            @ '' must be a non-empty identifier (letters, digits, underscores)'']
      else [])"

definition repr_list :: "string list \<Rightarrow> string" where
  "repr_list xs = ''['' @ join '', '' (map repr xs) @ '']''"

definition plic_roles :: "string list" where
  "plic_roles = [''priority'', ''pending'', ''enable'', ''threshold'', ''claim'']"

definition clint_roles :: "string list" where
  "clint_roles = [''msip'', ''mtimecmp_lo'', ''mtimecmp_hi'', ''mtime_lo'', ''mtime_hi'']"

definition plic_role_validate :: "string \<Rightarrow> string list" where
  "plic_role_validate value =
     (if value \<notin> set plic_roles
      then [''riscv_intr_plic_role '' @ repr value @ '' must be one of ''
            @ repr_list (sorted_set plic_roles)]
      else [])"

definition clint_role_validate :: "string \<Rightarrow> string list" where
  "clint_role_validate value =
     (if value \<notin> set clint_roles
      then [''riscv_intr_clint_role '' @ repr value @ '' must be one of ''
            @ repr_list (sorted_set clint_roles)]
      else [])"

section \<open>Validated text parses\<close>

lemma strip_idem_int: "py_int0 (strip s) = py_int0 s"
proof -
  have dw: "dropWhile P (dropWhile P xs) = dropWhile P xs" for P and xs :: string
    by (induction xs) auto
  have "strip (strip s) = strip s"
  proof -
    let ?u = "dropWhile is_space (rev (dropWhile is_space s))"
    have "dropWhile is_space (rev ?u) = rev ?u"
    proof (cases "rev ?u")
      case (Cons c cs)
      obtain ws where "rev (dropWhile is_space s) = ws @ ?u"
        by (metis takeWhile_dropWhile_id)
      then have "dropWhile is_space s = rev ?u @ rev ws"
        by (metis rev_append rev_rev_ident)
      then have "hd (dropWhile is_space s) = c" "dropWhile is_space s \<noteq> []" using Cons by auto
      then have "\<not> is_space c" by (metis hd_dropWhile)
      then show ?thesis using Cons by simp
    next
      case Nil
      then show ?thesis by (metis dropWhile.simps(1))
    qed
    then show ?thesis by (simp add: strip_def dw)
  qed
  then show ?thesis by (simp add: py_int0_def)
qed

lemma split_on_no_sep: "c \<notin> set s \<Longrightarrow> split_on c s = [s]"
  by (induction s) auto

lemma contains_char: "contains [c] s \<longleftrightarrow> c \<in> set s"
  by (induction s) (auto simp: startswith_def)

end
