(* ===== verification/CsrModel.thy ===== *)
theory CsrModel
  imports Warl
begin

text \<open>
  The scanner (\<^verbatim>\<open>scan_csrs.py\<close>): the design model the emitters consume and the walk over the
  elaborated RDL tree that fills it.

  The RDL nodes belong to the third-party package \<^verbatim>\<open>systemrdl\<close>; a node is a record of what the
  generator reads from it (properties that were not set are \<open>None\<close>). The naming functions of
  the third-party \<^verbatim>\<open>rdl2arch.dereferencer\<close> are a parameter, the record \<open>deref\<close>.
\<close>

section \<open>RDL nodes\<close>

record rdl_field =
  fn_inst_name :: string
  fn_path :: string
  fn_msb :: nat
  fn_lsb :: nat
  fn_width :: nat
  fn_sw_readable :: bool
  fn_sw_writable :: bool
  fn_hw_readable :: bool
  fn_hw_writable :: bool
  fn_reset :: "nat option"
  fn_onwrite :: "string option"
  fn_onread :: "string option"
  fn_wpri :: "bool option"
  fn_warl :: "string option"
  fn_priv :: "string option"
  fn_trap_signal :: "string option"
  fn_save_on_trap :: "bool option"
  fn_restore_on_ret :: "bool option"
  fn_hw_mirror :: "bool option"
  fn_hw_increment_when :: "string option"
  fn_hw_increment_high_of :: "string option"

record rdl_reg =
  rn_inst_name :: string
  rn_path :: string
  rn_is_array :: bool
  rn_absolute_address :: nat
  rn_parent_address :: nat
  rn_raw_offset :: nat
  rn_current_idx :: "nat list option"
  rn_regwidth :: nat
  rn_csr_addr :: "nat option"
  rn_priv :: "string option"
  rn_trap_signal :: "string option"
  rn_clint_role :: "string option"
  rn_plic_role :: "string option"
  rn_emit_read_pulse :: "bool option"
  rn_emit_write_pulse :: "bool option"
  rn_fields :: "rdl_field list"

text \<open>A child of an address map: a register, a component with children, or a leaf.\<close>

datatype rdl_node = RegNode rdl_reg | GroupNode "rdl_node list" | LeafNode

record rdl_top =
  tn_inst_name :: string
  tn_children :: "rdl_node list"

record deref =
  dr_flat_path :: "rdl_reg \<Rightarrow> rdl_top \<Rightarrow> string"
  dr_reg_state_name :: "rdl_reg \<Rightarrow> rdl_top \<Rightarrow> string"
  dr_reg_struct_name :: "rdl_reg \<Rightarrow> rdl_top \<Rightarrow> string"
  dr_csr_enum_variant :: "rdl_reg \<Rightarrow> rdl_top \<Rightarrow> string"
  dr_field_ident :: "rdl_field \<Rightarrow> string"

section \<open>The design model\<close>

record csr_field =
  f_node :: rdl_field
  f_name :: string
  f_msb :: nat
  f_lsb :: nat
  f_width :: nat
  f_sw_readable :: bool
  f_sw_writable :: bool
  f_hw_readable :: bool
  f_hw_writable :: bool
  f_reset :: nat
  f_onwrite :: "string option"
  f_onread :: "string option"
  f_wpri :: bool
  f_warl :: "warl option"
  f_priv :: "string option"
  f_trap_signal :: "string option"
  f_save_on_trap :: bool
  f_restore_on_ret :: bool
  f_hw_mirror :: bool
  f_hw_increment_when :: "string option"
  f_hw_increment_high_of :: "string option"

record csr_reg =
  r_node :: rdl_reg
  r_name :: string
  r_state_name :: string
  r_struct_name :: string
  r_enum_variant :: string
  r_address :: nat
  r_regwidth :: nat
  r_fields :: "csr_field list"
  r_priv :: "string option"
  r_trap_signal :: "string option"

record csr_design =
  d_top :: rdl_top
  d_module_name :: string
  d_package_name :: string
  d_hwif_in_struct :: string
  d_hwif_out_struct :: string
  d_csr_enum_name :: string
  d_csr_file_bus :: string
  d_xlen :: nat
  d_regs :: "csr_reg list"

section \<open>Scanning\<close>

definition capitalize1 :: "string \<Rightarrow> string" where
  "capitalize1 p = map upper_char (take 1 p) @ drop 1 p"

definition camel :: "string \<Rightarrow> string" where
  "camel snake = concat (map capitalize1 (filter (\<lambda>p. p \<noteq> []) (split_on (CHR ''_'') snake)))"

definition str_or :: "string option \<Rightarrow> string \<Rightarrow> string" where
  "str_or s d = (if truthy s then the s else d)"

fun walk_regs :: "rdl_node list \<Rightarrow> rdl_reg list" where
  "walk_regs [] = []"
| "walk_regs (RegNode r # ns) = r # walk_regs ns"
| "walk_regs (GroupNode cs # ns) = walk_regs cs @ walk_regs ns"
| "walk_regs (LeafNode # ns) = walk_regs ns"

definition scan_field :: "deref \<Rightarrow> rdl_field \<Rightarrow> csr_field res" where
  "scan_field dr f =
     res_bind (if truthy (fn_warl f) then res_bind (parse_warl (the (fn_warl f))) (\<lambda>w. Inr (Some w))
               else Inr None) (\<lambda>warl.
     Inr \<lparr>f_node = f, f_name = dr_field_ident dr f, f_msb = fn_msb f, f_lsb = fn_lsb f,
          f_width = fn_width f, f_sw_readable = fn_sw_readable f, f_sw_writable = fn_sw_writable f,
          f_hw_readable = fn_hw_readable f, f_hw_writable = fn_hw_writable f,
          f_reset = (case fn_reset f of None \<Rightarrow> 0 | Some n \<Rightarrow> n),
          f_onwrite = fn_onwrite f, f_onread = fn_onread f,
          f_wpri = flag (fn_wpri f), f_warl = warl, f_priv = fn_priv f,
          f_trap_signal = fn_trap_signal f,
          f_save_on_trap = flag (fn_save_on_trap f),
          f_restore_on_ret = flag (fn_restore_on_ret f), f_hw_mirror = flag (fn_hw_mirror f),
          f_hw_increment_when = or_none (fn_hw_increment_when f),
          f_hw_increment_high_of = or_none (fn_hw_increment_high_of f)\<rparr>)"

definition csr_address :: "rdl_reg \<Rightarrow> nat" where
  "csr_address reg =
     (case rn_csr_addr reg of
        Some a \<Rightarrow> a
      | None \<Rightarrow> drop_bit 2 (if \<not> rn_is_array reg then rn_absolute_address reg
                           else rn_parent_address reg + rn_raw_offset reg))"

definition scan_reg :: "deref \<Rightarrow> rdl_top \<Rightarrow> rdl_reg \<Rightarrow> csr_reg res" where
  "scan_reg dr tp reg =
     res_bind (res_map (scan_field dr) (rn_fields reg)) (\<lambda>fs.
     Inr \<lparr>r_node = reg, r_name = dr_flat_path dr reg tp, r_state_name = dr_reg_state_name dr reg tp,
          r_struct_name = dr_reg_struct_name dr reg tp,
          r_enum_variant = dr_csr_enum_variant dr reg tp,
          r_address = csr_address reg, r_regwidth = rn_regwidth reg, r_fields = fs,
          r_priv = rn_priv reg, r_trap_signal = rn_trap_signal reg\<rparr>)"

text \<open>\<^verbatim>\<open>base[: -len(suffix)]\<close> for a name that ends with the suffix.\<close>

definition strip_suffix :: "string \<Rightarrow> string \<Rightarrow> string" where
  "strip_suffix suf s = (if endswith suf s then take (length s - length suf) s else s)"

definition scan :: "deref \<Rightarrow> rdl_top \<Rightarrow> string option \<Rightarrow> string option \<Rightarrow> nat \<Rightarrow> csr_design res" where
  "scan dr tp module_name package_name xlen =
     (let md = str_or module_name (camel (tn_inst_name tp) @ ''CsrFile'');
          pkg = str_or package_name (md @ ''Pkg'') in
      res_bind (res_map (scan_reg dr tp) (walk_regs (tn_children tp))) (\<lambda>regs.
      let base = strip_suffix ''CsrFile'' md in
      Inr \<lparr>d_top = tp, d_module_name = md, d_package_name = pkg,
           d_hwif_in_struct = md @ ''HwifIn'', d_hwif_out_struct = md @ ''HwifOut'',
           d_csr_enum_name = md @ ''Addr'', d_csr_file_bus = base @ ''CsrFileBus'',
           d_xlen = xlen, d_regs = regs\<rparr>))"

section \<open>What the scan keeps\<close>

text \<open>
  The tree as a set of paths is not needed: the walk lists every register once, in document
  order, whatever the nesting.
\<close>

fun node_regs :: "rdl_node \<Rightarrow> rdl_reg list" where
  "node_regs (RegNode r) = [r]"
| "node_regs (GroupNode cs) = concat (map node_regs cs)"
| "node_regs LeafNode = []"

lemma walk_regs_flat: "walk_regs ns = concat (map node_regs ns)"
  by (induction ns rule: walk_regs.induct) auto

lemma scan_field_InrD:
  assumes "scan_field dr f = Inr m"
  shows "f_node m = f" "f_name m = dr_field_ident dr f" "f_msb m = fn_msb f" "f_lsb m = fn_lsb f"
    "f_width m = fn_width f" "f_hw_increment_when m = or_none (fn_hw_increment_when f)"
    "f_hw_increment_high_of m = or_none (fn_hw_increment_high_of f)"
    "f_warl m = None \<longleftrightarrow> \<not> truthy (fn_warl f)"
  using assms by (auto simp: scan_field_def split: if_splits)

lemma scan_reg_InrD:
  assumes "scan_reg dr tp reg = Inr m"
  shows "r_node m = reg" "r_name m = dr_flat_path dr reg tp" "r_address m = csr_address reg"
    "r_state_name m = dr_reg_state_name dr reg tp" "r_regwidth m = rn_regwidth reg"
    "res_map (scan_field dr) (rn_fields reg) = Inr (r_fields m)"
  using assms by (auto simp: scan_reg_def)

lemma scan_InrD:
  assumes "scan dr tp mn pn xlen = Inr d"
  shows "d_top d = tp" "d_xlen d = xlen"
    "d_module_name d = str_or mn (camel (tn_inst_name tp) @ ''CsrFile'')"
    "d_package_name d = str_or pn (d_module_name d @ ''Pkg'')"
    "res_map (scan_reg dr tp) (walk_regs (tn_children tp)) = Inr (d_regs d)"
  using assms by (auto simp: scan_def Let_def)

lemma res_map_map:
  assumes "res_map f xs = Inr ys" and "\<And>x y. x \<in> set xs \<Longrightarrow> f x = Inr y \<Longrightarrow> g y = h x"
  shows "map g ys = map h xs"
  using assms by (induction xs arbitrary: ys) auto

end
