(* ===== verification/Validate.thy ===== *)
theory Validate
  imports CsrModel
begin

text \<open>
  The design checks (\<^verbatim>\<open>validate_csrs.py\<close>): every \<^verbatim>\<open>raise\<close> in the order of the code, with its
  message; \<open>Inr ()\<close> is a normal return. \<open>valid_field\<close> and \<open>valid_reg\<close> say what an accepted design
  satisfies, and \<open>validate_iff\<close> that the checks accept exactly those designs.
\<close>

section \<open>The checks\<close>

definition unsupported :: "bool \<Rightarrow> string \<Rightarrow> unit res" where
  "unsupported b msg = raise_if b (UnsupportedRdlError msg)"

text \<open>Optional strings as Python prints them with \<^verbatim>\<open>!r\<close>.\<close>

fun repr_opt :: "string option \<Rightarrow> string" where
  "repr_opt None = ''None''"
| "repr_opt (Some s) = repr s"

definition priv_bad :: "string option \<Rightarrow> bool" where
  "priv_bad p \<longleftrightarrow> p \<noteq> None \<and> p \<notin> {Some ''m'', Some ''s'', Some ''u''}"

definition field_prefix :: "csr_field \<Rightarrow> string" where
  "field_prefix fld = ''field '' @ [CHR 0x27] @ fn_path (f_node fld) @ [CHR 0x27] @ '': ''"

definition reg_prefix :: "csr_reg \<Rightarrow> string" where
  "reg_prefix reg = ''CSR '' @ [CHR 0x27] @ rn_path (r_node reg) @ [CHR 0x27] @ '': ''"

definition counter_tag :: "csr_field \<Rightarrow> bool" where
  "counter_tag fld \<longleftrightarrow> truthy (f_hw_increment_when fld) \<or> truthy (f_hw_increment_high_of fld)"

definition find_reg :: "csr_design \<Rightarrow> string \<Rightarrow> csr_reg option" where
  "find_reg d nm = find (\<lambda>r. r_name r = nm) (d_regs d)"

definition low_counter_fields :: "csr_reg \<Rightarrow> csr_field list" where
  "low_counter_fields reg = filter (\<lambda>f. truthy (f_hw_increment_when f)) (r_fields reg)"

definition em_dash :: string where
  "em_dash = [CHR 0xE2, CHR 0x80, CHR 0x94]"

text \<open>The link from a high half to its low half.\<close>

definition validate_high_of :: "csr_design \<Rightarrow> csr_field \<Rightarrow> unit res" where
  "validate_high_of d fld =
     (if \<not> truthy (f_hw_increment_high_of fld) then Inr () else
      let nm = the (f_hw_increment_high_of fld) in
      case find_reg d nm of
        None \<Rightarrow> unsupported True (field_prefix fld @ ''riscv_hw_increment_high_of = '' @ [CHR 0x22]
                  @ nm @ [CHR 0x22] @ '' '' @ em_dash @ '' no such register in this design'')
      | Some low_reg \<Rightarrow> (let lows = low_counter_fields low_reg in
          res_bind (unsupported (length lows \<noteq> 1)
            (field_prefix fld @ ''the register '' @ [CHR 0x27] @ nm @ [CHR 0x27]
             @ '' named in riscv_hw_increment_high_of must contain exactly one field tagged ''
             @ ''riscv_hw_increment_when (got '' @ nat_dec (length lows) @ '')'')) (\<lambda>_.
          unsupported (f_width (hd lows) \<noteq> f_width fld)
            (field_prefix fld @ ''counter high half width ('' @ nat_dec (f_width fld)
             @ '') must match the low half '' @ [CHR 0x27] @ nm @ ''.'' @ f_name (hd lows) @ [CHR 0x27]
             @ '' width ('' @ nat_dec (f_width (hd lows)) @ '')''))))"

definition validate_field :: "csr_design \<Rightarrow> csr_field \<Rightarrow> unit res" where
  "validate_field d fld =
     res_bind (unsupported (f_wpri fld \<and> f_warl fld \<noteq> None)
       (field_prefix fld @ ''riscv_wpri and riscv_warl are mutually exclusive'')) (\<lambda>_.
     res_bind (unsupported (priv_bad (f_priv fld))
       (field_prefix fld @ ''riscv_priv must be m/s/u (got '' @ repr_opt (f_priv fld) @ '')'')) (\<lambda>_.
     res_bind (unsupported (f_save_on_trap fld \<and> \<not> f_hw_writable fld)
       (field_prefix fld @ ''riscv_save_on_trap requires `hw = w` or `hw = rw` '' @ em_dash
        @ '' the trap coordinator writes the saved value via hwif_in, which only exists ''
        @ ''for hw-writable fields'')) (\<lambda>_.
     res_bind (unsupported (f_hw_mirror fld \<and> \<not> f_hw_writable fld)
       (field_prefix fld @ ''riscv_hw_mirror requires `hw = w` or `hw = rw` '' @ em_dash
        @ '' the mirror drive uses the same hwif_in path as save/restore'')) (\<lambda>_.
     res_bind (unsupported (f_hw_mirror fld \<and> (f_save_on_trap fld \<or> f_restore_on_ret fld))
       (field_prefix fld @ ''riscv_hw_mirror is mutually exclusive with riscv_save_on_trap and ''
        @ ''riscv_restore_on_ret (mirror is an always-on drive, save/restore are event-gated ''
        @ em_dash @ '' they can'' @ [CHR 0x27] @ ''t coexist)'')) (\<lambda>_.
     res_bind (unsupported (counter_tag fld \<and> f_hw_writable fld)
       (field_prefix fld @ ''counter fields (riscv_hw_increment_when / riscv_hw_increment_high_of) ''
        @ ''must be `hw = r` '' @ em_dash @ '' the CsrFile'' @ [CHR 0x27]
        @ ''s seq block drives them directly; a hwif_in drive would race the increment every cycle'')) (\<lambda>_.
     res_bind (unsupported (counter_tag fld \<and> (f_save_on_trap fld \<or> f_restore_on_ret fld \<or> f_hw_mirror fld))
       (field_prefix fld @ ''counter tags (riscv_hw_increment_*) are mutually exclusive with ''
        @ ''riscv_save_on_trap / riscv_restore_on_ret / riscv_hw_mirror'')) (\<lambda>_.
     res_bind (unsupported (counter_tag fld \<and> \<not> f_sw_writable fld)
       (field_prefix fld @ ''counter fields (riscv_hw_increment_*) must be `sw = rw` '' @ em_dash
        @ '' the spec says SW can overwrite a counter'' @ [CHR 0x27] @ ''s value'')) (\<lambda>_.
     validate_high_of d fld))))))))"

definition validate_reg :: "csr_design \<Rightarrow> csr_reg \<Rightarrow> unit res" where
  "validate_reg d reg =
     res_bind (unsupported (r_regwidth reg \<notin> {32, 64})
       (reg_prefix reg @ ''regwidth must be 32 or 64 (got '' @ nat_dec (r_regwidth reg) @ '')'')) (\<lambda>_.
     res_bind (unsupported (r_regwidth reg > d_xlen d)
       (reg_prefix reg @ ''regwidth '' @ nat_dec (r_regwidth reg) @ '' exceeds xlen ''
        @ nat_dec (d_xlen d))) (\<lambda>_.
     res_bind (unsupported (rn_is_array (r_node reg))
       (''CSR arrays not yet supported (v1): '' @ [CHR 0x27] @ rn_path (r_node reg) @ [CHR 0x27])) (\<lambda>_.
     res_bind (unsupported (priv_bad (r_priv reg))
       (reg_prefix reg @ ''riscv_priv must be m/s/u (got '' @ repr_opt (r_priv reg) @ '')'')) (\<lambda>_.
     res_for (validate_field d) (r_fields reg)))))"

definition validate :: "csr_design \<Rightarrow> unit res" where
  "validate d = res_for (validate_reg d) (d_regs d)"

section \<open>What an accepted design satisfies\<close>

definition valid_high_of :: "csr_design \<Rightarrow> csr_field \<Rightarrow> bool" where
  "valid_high_of d fld \<longleftrightarrow>
     (truthy (f_hw_increment_high_of fld) \<longrightarrow>
       (\<exists>low_reg low. find_reg d (the (f_hw_increment_high_of fld)) = Some low_reg
          \<and> low_counter_fields low_reg = [low] \<and> f_width low = f_width fld))"

definition valid_field :: "csr_design \<Rightarrow> csr_field \<Rightarrow> bool" where
  "valid_field d fld \<longleftrightarrow>
     (f_wpri fld \<longrightarrow> f_warl fld = None) \<and> \<not> priv_bad (f_priv fld)
     \<and> (f_save_on_trap fld \<or> f_hw_mirror fld \<longrightarrow> f_hw_writable fld)
     \<and> (f_hw_mirror fld \<longrightarrow> \<not> f_save_on_trap fld \<and> \<not> f_restore_on_ret fld)
     \<and> (counter_tag fld \<longrightarrow> f_sw_writable fld \<and> \<not> f_hw_writable fld \<and> \<not> f_save_on_trap fld
          \<and> \<not> f_restore_on_ret fld \<and> \<not> f_hw_mirror fld)
     \<and> valid_high_of d fld"

definition valid_reg :: "csr_design \<Rightarrow> csr_reg \<Rightarrow> bool" where
  "valid_reg d reg \<longleftrightarrow>
     r_regwidth reg \<in> {32, 64} \<and> r_regwidth reg \<le> d_xlen d \<and> \<not> rn_is_array (r_node reg)
     \<and> \<not> priv_bad (r_priv reg) \<and> (\<forall>fld \<in> set (r_fields reg). valid_field d fld)"

lemma unsupported_eq_Inr [simp]: "unsupported b msg = Inr u \<longleftrightarrow> \<not> b"
  by (simp add: unsupported_def)

lemma unsupported_False [simp]: "unsupported False msg = Inr ()"
  by (simp add: unsupported_def raise_if_def)

lemma length_one_iff: "length xs = Suc 0 \<longleftrightarrow> (\<exists>x. xs = [x])"
  by (cases xs) auto

lemma validate_high_of_iff: "validate_high_of d fld = Inr () \<longleftrightarrow> valid_high_of d fld"
  by (auto simp: validate_high_of_def valid_high_of_def Let_def length_one_iff split: option.splits)

lemma validate_field_iff: "validate_field d fld = Inr () \<longleftrightarrow> valid_field d fld"
  by (auto simp: validate_field_def valid_field_def validate_high_of_iff counter_tag_def)

lemma validate_reg_iff: "validate_reg d reg = Inr () \<longleftrightarrow> valid_reg d reg"
  by (auto simp: validate_reg_def valid_reg_def validate_field_iff)

lemma validate_Inr_iff: "validate d = Inr () \<longleftrightarrow> (\<forall>reg \<in> set (d_regs d). valid_reg d reg)"
  by (simp add: validate_def validate_reg_iff)

lemma validate_regD: "validate d = Inr () \<Longrightarrow> reg \<in> set (d_regs d) \<Longrightarrow> valid_reg d reg"
  by (simp add: validate_Inr_iff)

lemma validate_fieldD:
  "validate d = Inr () \<Longrightarrow> reg \<in> set (d_regs d) \<Longrightarrow> fld \<in> set (r_fields reg) \<Longrightarrow> valid_field d fld"
  by (auto simp: validate_Inr_iff valid_reg_def)

lemma priv_ok_cases: "\<not> priv_bad p \<longleftrightarrow> p = None \<or> p = Some ''m'' \<or> p = Some ''s'' \<or> p = Some ''u''"
  by (auto simp: priv_bad_def)

end
