(* ===== verification/Fixtures.thy ===== *)
theory Fixtures
  imports Validate
begin

text \<open>
  A small machine-mode design used to run the theorems: the registers are cut down from
  \<^verbatim>\<open>tests/rdl/mtrap_subset.rdl\<close> and \<^verbatim>\<open>tests/rdl/mtrap_ibex.rdl\<close>, one for each feature of the
  generator (save / restore / mirror tags, WPRI, WARL mask and list, a trap signal, a split
  counter, a read-only address). \<open>demo_deref\<close> is a concrete instance of the naming functions of
  \<^verbatim>\<open>rdl2arch\<close>, following the names in \<^verbatim>\<open>tests/expected\<close>.
\<close>

definition rdl_field0 :: "string \<Rightarrow> nat \<Rightarrow> nat \<Rightarrow> rdl_field" where
  "rdl_field0 nm msb lsb =
     \<lparr>fn_inst_name = nm, fn_path = nm, fn_msb = msb, fn_lsb = lsb, fn_width = msb - lsb + 1,
      fn_sw_readable = True, fn_sw_writable = True, fn_hw_readable = True, fn_hw_writable = False,
      fn_reset = Some 0, fn_onwrite = None, fn_onread = None, fn_wpri = None, fn_warl = None,
      fn_priv = None, fn_trap_signal = None, fn_save_on_trap = None, fn_restore_on_ret = None,
      fn_hw_mirror = None, fn_hw_increment_when = None, fn_hw_increment_high_of = None\<rparr>"

definition rdl_reg0 :: "string \<Rightarrow> nat \<Rightarrow> rdl_field list \<Rightarrow> rdl_reg" where
  "rdl_reg0 nm addr fs =
     \<lparr>rn_inst_name = nm, rn_path = ''top.'' @ nm, rn_is_array = False, rn_absolute_address = 0,
      rn_parent_address = 0, rn_raw_offset = 0, rn_current_idx = None, rn_regwidth = 32,
      rn_csr_addr = Some addr, rn_priv = None, rn_trap_signal = None, rn_clint_role = None,
      rn_plic_role = None, rn_emit_read_pulse = None, rn_emit_write_pulse = None, rn_fields = fs\<rparr>"

definition demo_deref :: deref where
  "demo_deref = \<lparr>dr_flat_path = (\<lambda>r _. rn_inst_name r), dr_reg_state_name = (\<lambda>r _. rn_inst_name r @ ''_r''),
     dr_reg_struct_name = (\<lambda>r _. camel (rn_inst_name r) @ ''Reg''),
     dr_csr_enum_variant = (\<lambda>r _. camel (rn_inst_name r)), dr_field_ident = fn_inst_name\<rparr>"

definition demo_mstatus :: rdl_reg where
  "demo_mstatus = (rdl_reg0 ''mstatus'' 0x300
     [(rdl_field0 ''mie'' 3 3)\<lparr>fn_hw_writable := True, fn_restore_on_ret := Some True\<rparr>,
      (rdl_field0 ''mpie'' 7 7)\<lparr>fn_hw_writable := True, fn_save_on_trap := Some True,
         fn_restore_on_ret := Some True\<rparr>,
      (rdl_field0 ''mpp'' 12 11)\<lparr>fn_hw_writable := True, fn_save_on_trap := Some True,
         fn_warl := Some ''0x3''\<rparr>,
      (rdl_field0 ''wpri_hi'' 31 13)\<lparr>fn_wpri := Some True, fn_sw_writable := False\<rparr>])\<lparr>rn_priv := Some ''m''\<rparr>"

definition demo_mtvec :: rdl_reg where
  "demo_mtvec = (rdl_reg0 ''mtvec'' 0x305
     [(rdl_field0 ''mode'' 1 0)\<lparr>fn_warl := Some ''0,1,3''\<rparr>,
      (rdl_field0 ''base'' 31 2)\<lparr>fn_trap_signal := Some ''mtvec_write''\<rparr>])\<lparr>rn_priv := Some ''m''\<rparr>"

definition demo_mip :: rdl_reg where
  "demo_mip = rdl_reg0 ''mip'' 0x344
     [(rdl_field0 ''msip'' 3 3)\<lparr>fn_sw_writable := False, fn_hw_writable := True,
         fn_hw_mirror := Some True\<rparr>]"

definition demo_mcycle :: rdl_reg where
  "demo_mcycle = rdl_reg0 ''mcycle'' 0xB00
     [(rdl_field0 ''count'' 31 0)\<lparr>fn_hw_increment_when := Some ''cycle_en''\<rparr>]"

definition demo_mcycleh :: rdl_reg where
  "demo_mcycleh = rdl_reg0 ''mcycleh'' 0xB80
     [(rdl_field0 ''count'' 31 0)\<lparr>fn_hw_increment_high_of := Some ''mcycle''\<rparr>]"

definition demo_mvendorid :: rdl_reg where
  "demo_mvendorid = rdl_reg0 ''mvendorid'' 0xF11
     [(rdl_field0 ''id'' 31 0)\<lparr>fn_sw_writable := False, fn_reset := Some 0x42\<rparr>]"

definition demo_top :: rdl_top where
  "demo_top = \<lparr>tn_inst_name = ''m_trap'', tn_children =
     [RegNode demo_mstatus, RegNode demo_mtvec,
      GroupNode [RegNode demo_mip, LeafNode, RegNode demo_mcycle, RegNode demo_mcycleh],
      RegNode demo_mvendorid]\<rparr>"

definition demo_design :: csr_design where
  "demo_design = (case scan demo_deref demo_top None None 32 of Inr d \<Rightarrow> d)"

lemma demo_scan: "scan demo_deref demo_top None None 32 = Inr demo_design"
proof -
  have "\<not> isl (scan demo_deref demo_top None None 32)" by code_simp
  then show ?thesis by (auto simp: demo_design_def split: sum.splits)
qed

lemma demo_valid: "validate demo_design = Inr ()"
  by code_simp

end
