(* ===== verification/ScanProps.thy ===== *)
theory ScanProps
  imports Fixtures
begin

text \<open>
  The properties of the scanner, of the design checks and of the SystemRDL properties.
\<close>

section \<open>The scanned design\<close>

lemma scan_nodes: "scan dr tp mn pn xlen = Inr d \<Longrightarrow> map r_node (d_regs d) = walk_regs (tn_children tp)"
  using res_map_map [OF scan_InrD(5), of dr tp mn pn xlen d r_node "\<lambda>r. r"] scan_reg_InrD(1) by simp



text \<open>
  C22: The checks accept a design exactly when every register and field satisfies the documented
  rules (register width 32 or 64 and at most XLEN, no arrays, privilege letters, the exclusions
  between preserved / WARL / saved / restored / mirrored / counter fields, and every high half
  linked to an existing register with exactly one low counter of the same width).
\<close>

theorem validate_accepts:
  "validate d = Inr () \<longleftrightarrow>
     (\<forall>reg \<in> set (d_regs d).
        r_regwidth reg \<in> {32, 64} \<and> r_regwidth reg \<le> d_xlen d \<and> \<not> rn_is_array (r_node reg)
        \<and> \<not> priv_bad (r_priv reg) \<and> (\<forall>fld \<in> set (r_fields reg). valid_field d fld))"
  by (simp add: validate_Inr_iff valid_reg_def)

theorem validate_accepts_witness: "r_regwidth (hd (d_regs demo_design)) \<in> {32, 64}"
proof -
  have "map r_node (d_regs demo_design) \<noteq> []"
    using scan_nodes [OF demo_scan] by (simp add: demo_top_def walk_regs_flat)
  then have "hd (d_regs demo_design) \<in> set (d_regs demo_design)" by (intro hd_in_set) simp
  with validate_accepts [of demo_design] demo_valid show ?thesis by blast
qed

section \<open>The WARL property\<close>

lemma strip_id: "\<lbrakk>s \<noteq> []; \<not> is_space (hd s); \<not> is_space (last s)\<rbrakk> \<Longrightarrow> strip s = s"
proof -
  assume s: "s \<noteq> []" "\<not> is_space (hd s)" "\<not> is_space (last s)"
  have "dropWhile is_space s = s" "dropWhile is_space (rev s) = rev s"
    using s by (simp_all add: dropWhile_eq_self_iff hd_rev)
  then show ?thesis by (simp add: strip_def)
qed

text \<open>The characters of the numerals the generator reads.\<close>

definition numeral_char :: "char \<Rightarrow> bool" where
  "numeral_char c \<longleftrightarrow> c \<in> set ''0123456789abcdefx''"

lemma numeral_char_facts: "numeral_char c \<Longrightarrow> \<not> is_space c \<and> c \<noteq> CHR '',''"
proof -
  have "list_all (\<lambda>c. \<not> is_space c \<and> c \<noteq> CHR '','') ''0123456789abcdefx''" by code_simp
  then show "numeral_char c \<Longrightarrow> ?thesis" by (simp only: list_all_iff numeral_char_def) blast
qed

lemma hex_digits: "c \<in> set (nat_hex n) \<Longrightarrow> numeral_char c"
  by (drule nat_hex_chars) (auto simp: numeral_char_def)

lemma dec_digits: "c \<in> set (nat_dec n) \<Longrightarrow> numeral_char c"
  by (drule nat_dec_chars) (auto simp: numeral_char_def)

lemma hex_prefixed: "c \<in> set (''0x'' @ nat_hex n) \<Longrightarrow> numeral_char c"
proof -
  assume "c \<in> set (''0x'' @ nat_hex n)"
  then consider "c = CHR ''0''" | "c = CHR ''x''" | "c \<in> set (nat_hex n)" by auto
  then show ?thesis
  proof cases
    case 3
    then show ?thesis by (rule hex_digits)
  qed (simp only:, code_simp)+
qed

lemma strip_digits: "s \<noteq> [] \<Longrightarrow> (\<And>c. c \<in> set s \<Longrightarrow> numeral_char c) \<Longrightarrow> strip s = s"
  using numeral_char_facts hd_in_set last_in_set by (intro strip_id) blast+

lemma int0_hex: "py_int0 (''0x'' @ nat_hex n) = Some (int n)"
proof -
  have "strip (''0x'' @ nat_hex n) = ''0x'' @ nat_hex n"
    by (rule strip_digits) (simp, erule hex_prefixed)
  then show ?thesis by (simp add: py_int0_def read_unsigned_def startswith_def read_nat_hex)
qed

lemma nat_digits_lead: "2 \<le> b \<Longrightarrow> hd (nat_digits b n) = 0 \<Longrightarrow> n = 0"
proof (induction b n rule: nat_digits.induct)
  case (1 b n)
  show ?case
  proof (cases "n < b")
    case True
    then show ?thesis using 1 by (simp add: nat_digits.simps [of b n])
  next
    case False
    have "nat_digits b n = nat_digits b (n div b) @ [n mod b]" using False 1(2) by (simp add: nat_digits.simps [of b n])
    then have "hd (nat_digits b (n div b)) = 0" using 1(3) by simp
    with 1 False have "n div b = 0" by auto
    then show ?thesis using False 1(2) by (simp add: div_eq_0_iff)
  qed
qed

lemma int0_dec: "py_int0 (nat_dec n) = Some (int n)"
proof -
  have st: "strip (nat_dec n) = nat_dec n" by (rule strip_digits) (simp, erule dec_digits)
  have ne: "\<not> startswith p (nat_dec n)" if "\<not> set p \<subseteq> set ''0123456789''" for p
  proof
    assume "startswith p (nat_dec n)"
    then obtain t where "nat_dec n = p @ t" unfolding startswith_iff by blast
    then have "set p \<subseteq> set (nat_dec n)" by simp
    then show False using that nat_dec_chars by blast
  qed
  have lead: "\<not> (startswith ''0'' (nat_dec n) \<and> n \<noteq> 0)"
  proof
    assume a: "startswith ''0'' (nat_dec n) \<and> n \<noteq> 0"
    obtain d ds where d: "nat_digits 10 n = d # ds" by (cases "nat_digits 10 n") auto
    then have "digit_char d = CHR ''0''" using a by (auto simp: nat_dec_def startswith_def)
    moreover have "digit_char 0 = CHR ''0''" by code_simp
    moreover have "d < 16" using nat_digits_less [of 10 d n] d by simp
    ultimately have "d = 0" using digit_char_inj [of d 0] by simp
    then show False using nat_digits_lead [of 10 n] d a by simp
  qed
  obtain c cs where c: "nat_dec n = c # cs" by (cases "nat_dec n") auto
  have "c \<in> set ''0123456789''" using nat_dec_chars [of c n] c by simp
  then have "c \<noteq> CHR ''-''" "c \<noteq> CHR ''+''" by auto
  moreover have "read_unsigned (nat_dec n) = Some n"
    using ne lead by (simp add: read_unsigned_def read_nat_dec)
  ultimately show ?thesis using st by (simp add: py_int0_def Let_def) (simp add: c)
qed

lemma split_on_append: "c \<notin> set a \<Longrightarrow> split_on c (a @ c # s) = a # split_on c s"
  by (induction a) auto

lemma split_join:
  "ws \<noteq> [] \<Longrightarrow> \<forall>w \<in> set ws. c \<notin> set w \<Longrightarrow> split_on c (join [c] ws) = ws"
proof (induction ws rule: induct_list012)
  case (3 x y zs)
  then show ?case by (simp add: join.simps split_on_append)
qed (auto simp: join.simps split_on_no_sep)

lemma join_head_last:
  "ws \<noteq> [] \<Longrightarrow> \<forall>w \<in> set ws. w \<noteq> [] \<Longrightarrow> join [c] ws \<noteq> [] \<and> hd (join [c] ws) = hd (hd ws)
     \<and> last (join [c] ws) = last (last ws)"
  by (induction ws rule: induct_list012) (auto simp: join.simps)

text \<open>
  C23: What a designer writes is what the generator uses: a hexadecimal mask parses to that mask,
  and a comma-separated list of at least two decimal values to exactly those values in order.
\<close>

theorem warl_parse_roundtrip:
  "parse_warl (''0x'' @ nat_hex n) = Inr (Mask (int n))
   \<and> (2 \<le> length ns \<longrightarrow> parse_warl (join '','' (map nat_dec ns)) = Inr (Enum (map int ns)))"
proof
  have "strip (''0x'' @ nat_hex n) = ''0x'' @ nat_hex n"
    by (rule strip_digits) (simp, erule hex_prefixed)
  moreover have "CHR '','' \<notin> set (''0x'' @ nat_hex n)" using hex_prefixed numeral_char_facts by blast
  ultimately show "parse_warl (''0x'' @ nat_hex n) = Inr (Mask (int n))"
    using int0_hex [of n] by (simp add: parse_warl_def contains_char int0_def)
  show "2 \<le> length ns \<longrightarrow> parse_warl (join '','' (map nat_dec ns)) = Inr (Enum (map int ns))"
  proof
    assume ns: "2 \<le> length ns"
    let ?s = "join '','' (map nat_dec ns)"
    have ne: "ns \<noteq> []" using ns by auto
    have dig: "\<not> is_space c" if "c \<in> set (nat_dec k)" for c k
      using that dec_digits numeral_char_facts by blast
    have "strip ?s = ?s"
      using join_head_last [of "map nat_dec ns" "CHR '',''"] ne
      by (intro strip_id) (auto simp: hd_map last_map dig [OF hd_in_set [OF nat_dec_nonempty]]
          dig [OF last_in_set [OF nat_dec_nonempty]])
    moreover have "contains '','' ?s"
      using ns by (cases ns; cases "tl ns") (auto simp: join.simps contains_char)
    moreover have "split_on (CHR '','') ?s = map nat_dec ns"
      using ne dec_digits numeral_char_facts by (intro split_join) auto
    moreover have "int0 (strip (nat_dec k)) = Inr (int k)" for k
      using strip_digits [OF nat_dec_nonempty dec_digits, of k] by (simp add: int0_def int0_dec)
    then have "res_map (\<lambda>p. int0 (strip p)) (map nat_dec ns) = Inr (map int ns)"
      by (induction ns) auto
    ultimately show "parse_warl ?s = Inr (Enum (map int ns))" by (simp add: parse_warl_def)
  qed
qed

theorem warl_parse_roundtrip_witness: "parse_warl ''0,1,3'' = Inr (Enum [0, 1, 3])"
proof -
  have "''0,1,3'' = join '','' (map nat_dec [0, 1, 3])" by code_simp
  then show ?thesis using warl_parse_roundtrip [of 0 "[0, 1, 3]"] by simp
qed

lemma no_messages: "concat (map (\<lambda>x. if P x then [g x] else []) xs) = [] \<longleftrightarrow> (\<forall>x \<in> set xs. \<not> P x)"
  by (induction xs) auto

lemma comma_not_digit: "CHR '','' \<in> set s \<Longrightarrow> read_digits b acc us s = None"
proof (induction b acc us s rule: read_digits.induct)
  case (2 b acc us c cs)
  have dv: "digit_val (CHR '','') = None" by code_simp
  show ?case using 2 dv by (auto split: option.splits)
qed simp

lemma strip_keeps: "\<not> is_space c \<Longrightarrow> c \<in> set s \<Longrightarrow> c \<in> set (strip s)"
proof -
  have "c \<in> set (dropWhile is_space t)" if "\<not> is_space c" "c \<in> set t" for t
    using that by (induction t) auto
  then show "\<not> is_space c \<Longrightarrow> c \<in> set s \<Longrightarrow> ?thesis" by (simp add: strip_def)
qed

lemma comma_no_int: "CHR '','' \<in> set s \<Longrightarrow> py_int0 s = None"
proof -
  assume s: "CHR '','' \<in> set s"
  have sp: "\<not> is_space (CHR '','')" by code_simp
  obtain c cs where c: "strip s = c # cs" "CHR '','' \<in> set (c # cs)"
    using strip_keeps [OF sp s] by (cases "strip s") auto
  have ru: "read_unsigned t = None" if "CHR '','' \<in> set t" for t
  proof -
    have "CHR '','' \<in> set (drop 2 t)" if "startswith p t" "length p = 2" "CHR '','' \<notin> set p" for p
      using that \<open>CHR '','' \<in> set t\<close> by (auto simp: startswith_iff)
    then show ?thesis using that
      by (auto simp: read_unsigned_def read_prefixed_def comma_not_digit)
  qed
  show ?thesis using c ru [of "c # cs"] ru [of cs] by (auto simp: py_int0_def)
qed

text \<open>
  C24: The validator of \<^verbatim>\<open>riscv_warl\<close> and the parser agree in the direction the scanner relies on:
  a text the validator accepts never makes the parser raise.
\<close>

theorem warl_validated_parses:
  assumes "warl_validate value = []"
  shows "\<exists>w. parse_warl value = Inr w"
proof (cases "contains '','' (strip value)")
  case False
  with assms have "py_int0 (strip value) \<noteq> None"
    by (auto simp: warl_validate_def Let_def split: if_splits)
  with False show ?thesis by (auto simp: parse_warl_def Let_def int0_def)
next
  case True
  then have "py_int0 (strip value) = None" by (simp add: contains_char comma_no_int)
  with assms True have "\<forall>p \<in> set (split_on (CHR '','') (strip value)). py_int0 (strip p) \<noteq> None"
    unfolding warl_validate_def Let_def by (simp only: no_messages if_True split: if_splits) simp_all
  then have "\<forall>p \<in> set (split_on (CHR '','') (strip value)). \<exists>i. int0 (strip p) = Inr i"
    by (auto simp: int0_def)
  then obtain xs where "res_map (\<lambda>p. int0 (strip p)) (split_on (CHR '','') (strip value)) = Inr xs"
    unfolding res_map_all_Inr by blast
  with True show ?thesis by (simp add: parse_warl_def)
qed

theorem warl_validated_parses_witness: "\<exists>w. parse_warl '' 0,1, 3 '' = Inr w"
  by (rule warl_validated_parses) code_simp

text \<open>
  The other direction fails for a list whose first entry is not written in decimal: the parser
  reads it, the validator takes it for a bitmask and reports an error.
\<close>

lemma warl_hex_list_rejected:
  "parse_warl ''0x0,0x1'' = Inr (Enum [0, 1]) \<and> warl_validate ''0x0,0x1'' \<noteq> []"
proof
  show "parse_warl ''0x0,0x1'' = Inr (Enum [0, 1])" by code_simp
  have "contains '','' (strip ''0x0,0x1'')" by code_simp
  then have "py_int0 (strip ''0x0,0x1'') = None" by (simp add: contains_char comma_no_int)
  moreover have "startswith ''0x'' (strip ''0x0,0x1'')" by code_simp
  ultimately show "warl_validate ''0x0,0x1'' \<noteq> []" by (simp add: warl_validate_def)
qed

text \<open>
  The address, privilege and role properties accept exactly the documented values: a CSR
  address of twelve bits, the three privilege letters, the five CLINT and the five PLIC roles.
\<close>

theorem property_validators:
  "(csr_addr_validate a = [] \<longleftrightarrow> 0 \<le> a \<and> a < 2 ^ 12)
   \<and> (priv_validate p = [] \<longleftrightarrow> p = ''m'' \<or> p = ''s'' \<or> p = ''u'')
   \<and> (clint_role_validate r = [] \<longleftrightarrow> r \<in> {''msip'', ''mtimecmp_lo'', ''mtimecmp_hi'', ''mtime_lo'', ''mtime_hi''})
   \<and> (plic_role_validate r = [] \<longleftrightarrow> r \<in> {''priority'', ''pending'', ''enable'', ''threshold'', ''claim''})"
proof (intro conjI)
  show "csr_addr_validate a = [] \<longleftrightarrow> 0 \<le> a \<and> a < 2 ^ 12" unfolding csr_addr_validate_def by auto
  have none: "(if Q then [m] else []) = [] \<longleftrightarrow> \<not> Q" for Q and m :: string by simp
  show "priv_validate p = [] \<longleftrightarrow> p = ''m'' \<or> p = ''s'' \<or> p = ''u''"
    unfolding priv_validate_def none by simp
  show "clint_role_validate r = [] \<longleftrightarrow> r \<in> {''msip'', ''mtimecmp_lo'', ''mtimecmp_hi'', ''mtime_lo'', ''mtime_hi''}"
    unfolding clint_role_validate_def none clint_roles_def list.set by (simp only: not_not)
  show "plic_role_validate r = [] \<longleftrightarrow> r \<in> {''priority'', ''pending'', ''enable'', ''threshold'', ''claim''}"
    unfolding plic_role_validate_def none plic_roles_def list.set by (simp only: not_not)
qed

end
