(* ===== verification/Arch.thy ===== *)
theory Arch
  imports PyStr
begin

unbundle bit_operations_syntax

text \<open>
  The ARCH HDL text the generator emits: its abstract syntax, how that syntax is laid out as
  text, and what it means.

  \<^item> \<open>aexpr\<close>, \<open>astmt\<close>, \<open>aitem\<close>, \<open>amodule\<close> cover exactly the constructs the emitters use;
    \<open>render_module\<close> gives the text of a module, character by character.
  \<^item> ARCH itself (the \<^verbatim>\<open>arch\<close> compiler) is a third-party tool. Its meaning is a parameter: the
    locale \<open>arch_hdl\<close> takes an evaluator \<open>ev\<close> of expressions and a next-state function \<open>nxt\<close> of
    \<^verbatim>\<open>seq\<close> blocks and assumes of them what the emitters rely on: \<open>UInt\<close> values have a width,
    \<open>+%\<close> wraps, a \<^verbatim>\<open>match\<close> takes its first matching arm, braces concatenate most significant
    part first, the value of an expression depends on the signals it reads only, a \<^verbatim>\<open>seq\<close> block
    reads the old values and its last enabled assignment to a register wins. Each law is stated for
    operands whose widths agree, the only use the emitters make of it.
  \<^item> \<open>arch_eval\<close> and \<open>arch_next\<close> are a concrete instance, so the laws are satisfiable and every
    theorem about an emitted module can be run on concrete inputs.
\<close>

section \<open>Syntax\<close>

text \<open>A signal is a plain name or a member \<open>base.member\<close> of a bus, struct port or register.\<close>

datatype aref = Sig string | Mem string string

text \<open>
  \<open>HexLit\<close> keeps the digits as the emitter wrote them; \<open>MatchE k\<close> has \<open>k\<close> blanks after the
  underscore of its default arm; \<open>Paren\<close> is an explicit pair of parentheses.
\<close>

datatype aexpr =
    Ref aref
  | HexLit nat string
  | BinLit nat string
  | DecLit nat nat
  | Num nat
  | TrueE
  | FalseE
  | BitE aexpr nat
  | SliceE aexpr nat nat
  | BOr aexpr aexpr
  | BAnd aexpr aexpr
  | BNot aexpr
  | AddW aexpr aexpr
  | EqE aexpr aexpr
  | NeqE aexpr aexpr
  | GtE aexpr aexpr
  | GeE aexpr aexpr
  | LAnd aexpr aexpr
  | LOr aexpr aexpr
  | LNot aexpr
  | CondE aexpr aexpr aexpr
  | MatchE nat aexpr "(aexpr \<times> aexpr) list" aexpr
  | Concat "aexpr list"
  | Paren aexpr

datatype astmt = Assign aref aexpr | IfS aexpr "astmt list"

datatype aty = TBool | TUInt nat

text \<open>
  Module items. The text between the colon and the semicolon of a port is kept as it is; \<open>LetI\<close>
  and \<open>CombI\<close> carry the number of blanks the emitter pads with.
\<close>

datatype aitem =
    Blank
  | PortI string string
  | DefaultSeq
  | CommentI string
  | RegStructI string string "(string \<times> nat) list"
  | RegI string aty aexpr
  | LetI string nat aty aexpr
  | SeqI "astmt list"
  | CombI "(aref \<times> nat \<times> aexpr) list"

record amodule =
  am_use :: "string option"
  am_name :: string
  am_items :: "aitem list"

section \<open>Rendering\<close>

definition blanks :: "nat \<Rightarrow> string" where
  "blanks n = replicate n (CHR '' '')"

text \<open>Continue the last line of one piece of text with the first line of the next.\<close>

fun glue :: "string list \<Rightarrow> string list \<Rightarrow> string list" where
  "glue [] ys = ys"
| "glue [x] [] = [x]"
| "glue [x] (y # ys) = (x @ y) # ys"
| "glue (x # x' # xs) ys = x # glue (x' # xs) ys"

fun render_ref :: "aref \<Rightarrow> string" where
  "render_ref (Sig s) = s"
| "render_ref (Mem b m) = b @ ''.'' @ m"

fun render_expr :: "aexpr \<Rightarrow> string list" where
  "render_expr (Ref r) = [render_ref r]"
| "render_expr (HexLit w ds) = [nat_dec w @ [CHR 0x27] @ ''h'' @ ds]"
| "render_expr (BinLit w ds) = [nat_dec w @ [CHR 0x27] @ ''b'' @ ds]"
| "render_expr (DecLit w n) = [nat_dec w @ [CHR 0x27] @ ''d'' @ nat_dec n]"
| "render_expr (Num n) = [nat_dec n]"
| "render_expr TrueE = [''true'']"
| "render_expr FalseE = [''false'']"
| "render_expr (BitE e i) = glue (render_expr e) [''['' @ nat_dec i @ '']'']"
| "render_expr (SliceE e hi lo) = glue (render_expr e) [''['' @ nat_dec hi @ '':'' @ nat_dec lo @ '']'']"
| "render_expr (BOr a b) = glue (glue (render_expr a) ['' | '']) (render_expr b)"
| "render_expr (BAnd a b) = glue (glue (render_expr a) ['' & '']) (render_expr b)"
| "render_expr (BNot a) = glue [''~''] (render_expr a)"
| "render_expr (AddW a b) = glue (glue (render_expr a) ['' +% '']) (render_expr b)"
| "render_expr (EqE a b) = glue (glue (render_expr a) ['' == '']) (render_expr b)"
| "render_expr (NeqE a b) = glue (glue (render_expr a) ['' != '']) (render_expr b)"
| "render_expr (GtE a b) = glue (glue (render_expr a) ['' > '']) (render_expr b)"
| "render_expr (GeE a b) = glue (glue (render_expr a) ['' >= '']) (render_expr b)"
| "render_expr (LAnd a b) = glue (glue (render_expr a) ['' and '']) (render_expr b)"
| "render_expr (LOr a b) = glue (glue (render_expr a) ['' or '']) (render_expr b)"
| "render_expr (LNot a) = glue [''not ''] (render_expr a)"
| "render_expr (CondE c a b) =
     glue (glue (glue (render_expr c) ['' ? '']) (glue (render_expr a) ['' : ''])) (render_expr b)"
| "render_expr (MatchE k s arms d) =
     glue [''match ''] (render_expr s)
     @ concat (map (\<lambda>(p, e). map (\<lambda>l. ''  '' @ l)
         (glue (glue (render_expr p) ['' => '']) (glue (render_expr e) ['','']))) arms)
     @ map (\<lambda>l. ''  '' @ l) (glue [''_'' @ blanks k @ ''=> ''] (render_expr d))
     @ [''end match'']"
| "render_expr (Concat es) =
     glue (glue [''{''] (foldr (\<lambda>x acc. if acc = [] then x else glue (glue x ['', '']) acc)
       (map render_expr es) [])) [''}'']"
| "render_expr (Paren e) = glue (glue [''(''] (render_expr e)) ['')'']"

text \<open>Indent the first line by \<open>n\<close>, the others by \<open>m\<close>.\<close>

fun indent_block :: "nat \<Rightarrow> nat \<Rightarrow> string list \<Rightarrow> string list" where
  "indent_block n m [] = []"
| "indent_block n m (l # ls) = (blanks n @ l) # map (\<lambda>l. blanks m @ l) ls"

fun render_stmt :: "nat \<Rightarrow> astmt \<Rightarrow> string list" where
  "render_stmt n (Assign r e) =
     indent_block n (n + 2) (glue (glue [render_ref r @ '' <= ''] (render_expr e)) ['';''])"
| "render_stmt n (IfS c b) =
     indent_block n n (glue [''if ''] (render_expr c))
     @ concat (map (render_stmt (n + 2)) b) @ [blanks n @ ''end if'']"

fun render_ty :: "aty \<Rightarrow> string" where
  "render_ty TBool = ''Bool''"
| "render_ty (TUInt w) = ''UInt<'' @ nat_dec w @ ''>''"

definition render_drive :: "aref \<times> nat \<times> aexpr \<Rightarrow> string list" where
  "render_drive = (\<lambda>(r, k, e). indent_block 4 4
     (glue (glue [render_ref r @ blanks k @ ''= ''] (render_expr e)) ['';'']))"

fun render_item :: "aitem \<Rightarrow> string list" where
  "render_item Blank = [[]]"
| "render_item (PortI x t) = [''  port '' @ x @ '':'' @ t @ '';'']"
| "render_item DefaultSeq = [''  default seq on clk rising;'']"
| "render_item (CommentI t) = [''  // '' @ t]"
| "render_item (RegStructI x st fs) =
     [''  reg '' @ x @ '': '' @ st @ '' reset rst => '' @ st @ '' { ''
       @ join '', '' (map (\<lambda>(f, v). f @ '': '' @ nat_dec v) fs) @ '' };'']"
| "render_item (RegI x t e) =
     glue (glue [''  reg '' @ x @ '': '' @ render_ty t @ '' reset rst => ''] (render_expr e)) ['';'']"
| "render_item (LetI x k t e) =
     indent_block 2 2 (glue (glue [''let '' @ x @ '':'' @ blanks k @ render_ty t @ '' = '']
       (render_expr e)) ['';''])"
| "render_item (SeqI ss) = [''  seq''] @ concat (map (render_stmt 4) ss) @ [''  end seq'']"
| "render_item (CombI cs) =
     [''  comb''] @ concat (map render_drive cs) @ [''  end comb'']"

definition render_module :: "amodule \<Rightarrow> string" where
  "render_module m = join newline
     ((case am_use m of None \<Rightarrow> [] | Some u \<Rightarrow> [''use '' @ u @ '';'', []])
      @ [''module '' @ am_name m] @ concat (map render_item (am_items m))
      @ [''end module '' @ am_name m, []])"

lemma blanks_small [simp]:
  "blanks 0 = []" "blanks 1 = '' ''" "blanks (Suc 0) = '' ''" "blanks 2 = ''  ''" "blanks 3 = ''   ''"
  "blanks 4 = ''    ''" "blanks 5 = ''     ''" "blanks 6 = ''      ''" "blanks 7 = ''       ''"
  "blanks 8 = ''        ''" "blanks 10 = ''          ''" "blanks 12 = ''            ''"
  by code_simp+

text \<open>Layout lemmas: gluing touches the last line only.\<close>

lemma glue_append [simp]: "ys \<noteq> [] \<Longrightarrow> glue (xs @ ys) zs = xs @ glue ys zs"
proof (induction xs)
  case (Cons x xs)
  from Cons.prems obtain y us where us: "xs @ ys = y # us" by (cases "xs @ ys") auto
  have "glue ((x # xs) @ ys) zs = x # glue (xs @ ys) zs" by (simp add: us)
  with Cons show ?case by simp
qed simp

lemma glue_Cons_append [simp]: "glue (x # xs @ y # ys) zs = x # xs @ glue (y # ys) zs"
  using glue_append [of "y # ys" "x # xs" zs] by simp

lemma indent_block_Nil [simp]: "xs \<noteq> [] \<Longrightarrow>
  indent_block n m (xs @ ys) = indent_block n m xs @ map (\<lambda>l. blanks m @ l) ys"
  by (cases xs) auto

lemma render_drive_simps [simp]:
  "render_drive (r, k, e) = indent_block 4 4
     (glue (glue [render_ref r @ blanks k @ ''= ''] (render_expr e)) ['';''])"
  by (simp add: render_drive_def)

lemma concat_map_if: "concat (map f (if b then xs else [])) = (if b then concat (map f xs) else [])"
  by simp

lemma glue_eq_Nil [simp]: "glue xs ys = [] \<longleftrightarrow> xs = [] \<and> ys = []"
  by (induction xs ys rule: glue.induct) auto

lemma indent_block_eq_Nil [simp]: "indent_block n m xs = [] \<longleftrightarrow> xs = []"
  by (cases xs) auto

lemma render_stmt_nonempty [simp]: "render_stmt n s \<noteq> []"
  by (cases s) auto

lemma glue_commas:
  "xs \<noteq> [] \<Longrightarrow> foldr (\<lambda>x acc. if acc = [] then x else glue (glue x ['', '']) acc) (map (\<lambda>s. [s]) xs) []
    = [join '', '' xs]"
proof (induction xs)
  case (Cons x xs)
  then show ?case by (cases xs) (auto simp: join.simps)
qed simp

lemma concat_text:
  "es \<noteq> [] \<Longrightarrow> map render_expr es = map (\<lambda>s. [s]) xs \<Longrightarrow> render_expr (Concat es) = [''{'' @ join '', '' xs @ ''}'']"
proof -
  assume "es \<noteq> []" and es: "map render_expr es = map (\<lambda>s. [s]) xs"
  then have "xs \<noteq> []" by (metis map_is_Nil_conv)
  from glue_commas [OF this] show ?thesis by (simp add: es)
qed

section \<open>Values and environments\<close>

text \<open>A bit vector: its width and its unsigned value. \<^verbatim>\<open>Bool\<close> is a vector of width one.\<close>

datatype bv = BV (bw: nat) (bn: nat)

type_synonym env = "aref \<Rightarrow> bv"

definition fit :: "nat \<Rightarrow> bv \<Rightarrow> bv" where
  "fit w x = BV w (bn x mod 2 ^ w)"

definition bit1 :: "bool \<Rightarrow> bv" where
  "bit1 b = BV 1 (of_bool b)"

definition isset :: "bv \<Rightarrow> bool" where
  "isset x \<longleftrightarrow> bn x \<noteq> 0"

definition well_sized :: "bv \<Rightarrow> bool" where
  "well_sized x \<longleftrightarrow> bn x < 2 ^ bw x"

text \<open>A signal declared with width \<open>w\<close> holds a value of that width.\<close>

definition sized :: "nat \<Rightarrow> bv \<Rightarrow> bool" where
  "sized w x \<longleftrightarrow> bw x = w \<and> bn x < 2 ^ w"

definition lit_value :: "nat \<Rightarrow> string \<Rightarrow> nat" where
  "lit_value b ds = (case read_digits b 0 False ds of None \<Rightarrow> 0 | Some n \<Rightarrow> n)"

text \<open>A literal the ARCH lexer can read: at least one digit, all of the base, and it fits.\<close>

definition lit_ok :: "nat \<Rightarrow> nat \<Rightarrow> string \<Rightarrow> bool" where
  "lit_ok b w ds \<longleftrightarrow> ds \<noteq> [] \<and> read_digits b 0 False ds \<noteq> None \<and> lit_value b ds < 2 ^ w"

text \<open>The signals an expression reads.\<close>

fun expr_refs :: "aexpr \<Rightarrow> aref set" where
  "expr_refs (Ref r) = {r}"
| "expr_refs (BitE e i) = expr_refs e"
| "expr_refs (SliceE e hi lo) = expr_refs e"
| "expr_refs (BOr a b) = expr_refs a \<union> expr_refs b"
| "expr_refs (BAnd a b) = expr_refs a \<union> expr_refs b"
| "expr_refs (BNot a) = expr_refs a"
| "expr_refs (AddW a b) = expr_refs a \<union> expr_refs b"
| "expr_refs (EqE a b) = expr_refs a \<union> expr_refs b"
| "expr_refs (NeqE a b) = expr_refs a \<union> expr_refs b"
| "expr_refs (GtE a b) = expr_refs a \<union> expr_refs b"
| "expr_refs (GeE a b) = expr_refs a \<union> expr_refs b"
| "expr_refs (LAnd a b) = expr_refs a \<union> expr_refs b"
| "expr_refs (LOr a b) = expr_refs a \<union> expr_refs b"
| "expr_refs (LNot a) = expr_refs a"
| "expr_refs (CondE c a b) = expr_refs c \<union> expr_refs a \<union> expr_refs b"
| "expr_refs (MatchE k s arms d) =
     expr_refs s \<union> (\<Union>(p, e) \<in> set arms. expr_refs p \<union> expr_refs e) \<union> expr_refs d"
| "expr_refs (Concat es) = (\<Union>e \<in> set es. expr_refs e)"
| "expr_refs (Paren e) = expr_refs e"
| "expr_refs _ = {}"

section \<open>The contract with the HDL\<close>

locale arch_hdl =
  fixes ev :: "env \<Rightarrow> aexpr \<Rightarrow> bv"
    and nxt :: "env \<Rightarrow> astmt list \<Rightarrow> env"
  assumes ev_ref: "ev \<rho> (Ref r) = \<rho> r"
    and ev_hex: "lit_ok 16 w ds \<Longrightarrow> ev \<rho> (HexLit w ds) = BV w (lit_value 16 ds)"
    and ev_bin: "lit_ok 2 w ds \<Longrightarrow> ev \<rho> (BinLit w ds) = BV w (lit_value 2 ds)"
    and ev_dec: "n < 2 ^ w \<Longrightarrow> ev \<rho> (DecLit w n) = BV w n"
    and ev_num: "bn (ev \<rho> (Num n)) = n"
    and ev_true: "ev \<rho> TrueE = bit1 True"
    and ev_false: "ev \<rho> FalseE = bit1 False"
    and ev_bit: "i < bw (ev \<rho> e) \<Longrightarrow> ev \<rho> (BitE e i) = bit1 (bit (bn (ev \<rho> e)) i)"
    and ev_slice: "lo \<le> hi \<Longrightarrow> hi < bw (ev \<rho> e) \<Longrightarrow>
       ev \<rho> (SliceE e hi lo) = BV (Suc (hi - lo)) (take_bit (Suc (hi - lo)) (drop_bit lo (bn (ev \<rho> e))))"
    and ev_or: "bw (ev \<rho> a) = bw (ev \<rho> b) \<Longrightarrow>
       ev \<rho> (BOr a b) = BV (bw (ev \<rho> a)) (bn (ev \<rho> a) OR bn (ev \<rho> b))"
    and ev_and: "bw (ev \<rho> a) = bw (ev \<rho> b) \<Longrightarrow>
       ev \<rho> (BAnd a b) = BV (bw (ev \<rho> a)) (bn (ev \<rho> a) AND bn (ev \<rho> b))"
    and ev_not: "well_sized (ev \<rho> a) \<Longrightarrow>
       ev \<rho> (BNot a) = BV (bw (ev \<rho> a)) (2 ^ bw (ev \<rho> a) - 1 - bn (ev \<rho> a))"
    and ev_addw: "ev \<rho> (AddW a b) =
       BV (bw (ev \<rho> a)) ((bn (ev \<rho> a) + bn (ev \<rho> b)) mod 2 ^ bw (ev \<rho> a))"
    and ev_eq: "ev \<rho> (EqE a b) = bit1 (bn (ev \<rho> a) = bn (ev \<rho> b))"
    and ev_neq: "ev \<rho> (NeqE a b) = bit1 (bn (ev \<rho> a) \<noteq> bn (ev \<rho> b))"
    and ev_gt: "ev \<rho> (GtE a b) = bit1 (bn (ev \<rho> a) > bn (ev \<rho> b))"
    and ev_ge: "ev \<rho> (GeE a b) = bit1 (bn (ev \<rho> a) \<ge> bn (ev \<rho> b))"
    and ev_land: "ev \<rho> (LAnd a b) = bit1 (isset (ev \<rho> a) \<and> isset (ev \<rho> b))"
    and ev_lor: "ev \<rho> (LOr a b) = bit1 (isset (ev \<rho> a) \<or> isset (ev \<rho> b))"
    and ev_lnot: "ev \<rho> (LNot a) = bit1 (\<not> isset (ev \<rho> a))"
    and ev_cond: "ev \<rho> (CondE c a b) = (if isset (ev \<rho> c) then ev \<rho> a else ev \<rho> b)"
    and ev_match_nil: "ev \<rho> (MatchE k s [] d) = ev \<rho> d"
    and ev_match_cons: "ev \<rho> (MatchE k s ((p, e) # arms) d) =
       (if bn (ev \<rho> s) = bn (ev \<rho> p) then ev \<rho> e else ev \<rho> (MatchE k s arms d))"
    and ev_concat_one: "ev \<rho> (Concat [e]) = ev \<rho> e"
    and ev_concat_cons: "es \<noteq> [] \<Longrightarrow> ev \<rho> (Concat (e # es)) =
       BV (bw (ev \<rho> e) + bw (ev \<rho> (Concat es)))
          (bn (ev \<rho> e) * 2 ^ bw (ev \<rho> (Concat es)) + bn (ev \<rho> (Concat es)))"
    and ev_paren: "ev \<rho> (Paren e) = ev \<rho> e"
    and ev_local: "(\<And>r. r \<in> expr_refs e \<Longrightarrow> \<rho> r = \<rho>' r) \<Longrightarrow> ev \<rho> e = ev \<rho>' e"
    and nxt_nil: "nxt \<rho> [] = \<rho>"
    and nxt_assign: "nxt \<rho> (ss @ [Assign r e]) = (nxt \<rho> ss)(r := fit (bw (\<rho> r)) (ev \<rho> e))"
    and nxt_if: "nxt \<rho> (ss @ [IfS c body]) = (if isset (ev \<rho> c) then nxt \<rho> (ss @ body) else nxt \<rho> ss)"

section \<open>Modules\<close>

text \<open>The \<^verbatim>\<open>let\<close> bindings are evaluated in order, each sees the ones before it.\<close>

fun ty_width :: "aty \<Rightarrow> nat" where
  "ty_width TBool = 1"
| "ty_width (TUInt w) = w"

fun bind_lets :: "(env \<Rightarrow> aexpr \<Rightarrow> bv) \<Rightarrow> env \<Rightarrow> aitem list \<Rightarrow> env" where
  "bind_lets ev \<rho> [] = \<rho>"
| "bind_lets ev \<rho> (LetI x k t e # is) =
     bind_lets ev (\<rho>(Sig x := fit (ty_width t) (ev \<rho> e))) is"
| "bind_lets ev \<rho> (_ # is) = bind_lets ev \<rho> is"

fun item_stmts :: "aitem \<Rightarrow> astmt list" where
  "item_stmts (SeqI ss) = ss"
| "item_stmts _ = []"

fun item_drives :: "aitem \<Rightarrow> (aref \<times> aexpr) list" where
  "item_drives (CombI cs) = map (\<lambda>(r, k, e). (r, e)) cs"
| "item_drives _ = []"

definition module_stmts :: "amodule \<Rightarrow> astmt list" where
  "module_stmts m = concat (map item_stmts (am_items m))"

definition module_drives :: "amodule \<Rightarrow> (aref \<times> aexpr) list" where
  "module_drives m = concat (map item_drives (am_items m))"

text \<open>What a module drives on an output, and its registers after a rising clock edge.\<close>

definition module_out :: "(env \<Rightarrow> aexpr \<Rightarrow> bv) \<Rightarrow> amodule \<Rightarrow> env \<Rightarrow> aref \<Rightarrow> bv option" where
  "module_out ev m \<rho> r = map_option (ev (bind_lets ev \<rho> (am_items m))) (map_of (module_drives m) r)"

definition module_next ::
  "(env \<Rightarrow> aexpr \<Rightarrow> bv) \<Rightarrow> (env \<Rightarrow> astmt list \<Rightarrow> env) \<Rightarrow> amodule \<Rightarrow> env \<Rightarrow> env" where
  "module_next ev nxt m \<rho> = nxt (bind_lets ev \<rho> (am_items m)) (module_stmts m)"

section \<open>A concrete instance\<close>

fun first_match :: "nat \<Rightarrow> (nat \<times> bv) list \<Rightarrow> bv \<Rightarrow> bv" where
  "first_match v [] d = d"
| "first_match v ((p, e) # arms) d = (if v = p then e else first_match v arms d)"

fun concat_bv :: "bv list \<Rightarrow> bv" where
  "concat_bv [] = BV 0 0"
| "concat_bv [x] = x"
| "concat_bv (x # xs) = BV (bw x + bw (concat_bv xs)) (bn x * 2 ^ bw (concat_bv xs) + bn (concat_bv xs))"

fun arch_eval :: "env \<Rightarrow> aexpr \<Rightarrow> bv" where
  "arch_eval \<rho> (Ref r) = \<rho> r"
| "arch_eval \<rho> (HexLit w ds) = BV w (lit_value 16 ds)"
| "arch_eval \<rho> (BinLit w ds) = BV w (lit_value 2 ds)"
| "arch_eval \<rho> (DecLit w n) = BV w n"
| "arch_eval \<rho> (Num n) = BV 0 n"
| "arch_eval \<rho> TrueE = bit1 True"
| "arch_eval \<rho> FalseE = bit1 False"
| "arch_eval \<rho> (BitE e i) = bit1 (bit (bn (arch_eval \<rho> e)) i)"
| "arch_eval \<rho> (SliceE e hi lo) =
     BV (Suc (hi - lo)) (take_bit (Suc (hi - lo)) (drop_bit lo (bn (arch_eval \<rho> e))))"
| "arch_eval \<rho> (BOr a b) =
     BV (bw (arch_eval \<rho> a)) (bn (arch_eval \<rho> a) OR bn (arch_eval \<rho> b))"
| "arch_eval \<rho> (BAnd a b) =
     BV (bw (arch_eval \<rho> a)) (bn (arch_eval \<rho> a) AND bn (arch_eval \<rho> b))"
| "arch_eval \<rho> (BNot a) = BV (bw (arch_eval \<rho> a)) (2 ^ bw (arch_eval \<rho> a) - 1 - bn (arch_eval \<rho> a))"
| "arch_eval \<rho> (AddW a b) = BV (bw (arch_eval \<rho> a))
     ((bn (arch_eval \<rho> a) + bn (arch_eval \<rho> b)) mod 2 ^ bw (arch_eval \<rho> a))"
| "arch_eval \<rho> (EqE a b) = bit1 (bn (arch_eval \<rho> a) = bn (arch_eval \<rho> b))"
| "arch_eval \<rho> (NeqE a b) = bit1 (bn (arch_eval \<rho> a) \<noteq> bn (arch_eval \<rho> b))"
| "arch_eval \<rho> (GtE a b) = bit1 (bn (arch_eval \<rho> a) > bn (arch_eval \<rho> b))"
| "arch_eval \<rho> (GeE a b) = bit1 (bn (arch_eval \<rho> a) \<ge> bn (arch_eval \<rho> b))"
| "arch_eval \<rho> (LAnd a b) = bit1 (isset (arch_eval \<rho> a) \<and> isset (arch_eval \<rho> b))"
| "arch_eval \<rho> (LOr a b) = bit1 (isset (arch_eval \<rho> a) \<or> isset (arch_eval \<rho> b))"
| "arch_eval \<rho> (LNot a) = bit1 (\<not> isset (arch_eval \<rho> a))"
| "arch_eval \<rho> (CondE c a b) = (if isset (arch_eval \<rho> c) then arch_eval \<rho> a else arch_eval \<rho> b)"
| "arch_eval \<rho> (MatchE k s arms d) =
     first_match (bn (arch_eval \<rho> s)) (map (\<lambda>(p, e). (bn (arch_eval \<rho> p), arch_eval \<rho> e)) arms)
       (arch_eval \<rho> d)"
| "arch_eval \<rho> (Concat es) = concat_bv (map (arch_eval \<rho>) es)"
| "arch_eval \<rho> (Paren e) = arch_eval \<rho> e"

text \<open>\<open>arch_run \<rho> \<sigma> ss\<close>: every expression reads \<open>\<rho>\<close>, the updates pile up in \<open>\<sigma>\<close>.\<close>

fun arch_run :: "(env \<Rightarrow> aexpr \<Rightarrow> bv) \<Rightarrow> env \<Rightarrow> env \<Rightarrow> astmt list \<Rightarrow> env" where
  "arch_run ev \<rho> \<sigma> [] = \<sigma>"
| "arch_run ev \<rho> \<sigma> (Assign r e # ss) = arch_run ev \<rho> (\<sigma>(r := fit (bw (\<rho> r)) (ev \<rho> e))) ss"
| "arch_run ev \<rho> \<sigma> (IfS c b # ss) =
     arch_run ev \<rho> (if isset (ev \<rho> c) then arch_run ev \<rho> \<sigma> b else \<sigma>) ss"

definition arch_next :: "env \<Rightarrow> astmt list \<Rightarrow> env" where
  "arch_next \<rho> ss = arch_run arch_eval \<rho> \<rho> ss"

lemma arch_run_append: "arch_run ev \<rho> \<sigma> (ss @ ts) = arch_run ev \<rho> (arch_run ev \<rho> \<sigma> ss) ts"
  by (induction ev \<rho> \<sigma> ss rule: arch_run.induct) (simp_all add: fun_upd_def)

lemma concat_bv_Cons: "xs \<noteq> [] \<Longrightarrow> concat_bv (x # xs) =
  BV (bw x + bw (concat_bv xs)) (bn x * 2 ^ bw (concat_bv xs) + bn (concat_bv xs))"
  by (cases xs) auto

lemma concat_bv_step:
  "concat_bv (x # xs) = BV (bw x + bw (concat_bv xs)) (bn x * 2 ^ bw (concat_bv xs) + bn (concat_bv xs))"
  by (cases xs) simp_all

lemma arch_eval_local: "(\<And>r. r \<in> expr_refs e \<Longrightarrow> \<rho> r = \<rho>' r) \<Longrightarrow> arch_eval \<rho> e = arch_eval \<rho>' e"
proof (induction \<rho> e rule: arch_eval.induct)
  case (22 \<rho> k s arms d)
  have arms: "map (\<lambda>(p, e). (bn (arch_eval \<rho> p), arch_eval \<rho> e)) arms
      = map (\<lambda>(p, e). (bn (arch_eval \<rho>' p), arch_eval \<rho>' e)) arms"
  proof (rule map_cong [OF refl])
    fix pe assume pe: "pe \<in> set arms"
    obtain p e where pe_def: "pe = (p, e)" by (cases pe)
    have "arch_eval \<rho> p = arch_eval \<rho>' p"
      by (rule "22.IH"(2) [OF pe pe_def [symmetric]]) (rule "22.prems", use pe pe_def in auto)
    moreover have "arch_eval \<rho> e = arch_eval \<rho>' e"
      by (rule "22.IH"(3) [OF pe pe_def [symmetric]]) (rule "22.prems", use pe pe_def in auto)
    ultimately show "(case pe of (p, e) \<Rightarrow> (bn (arch_eval \<rho> p), arch_eval \<rho> e))
        = (case pe of (p, e) \<Rightarrow> (bn (arch_eval \<rho>' p), arch_eval \<rho>' e))" by (simp add: pe_def)
  qed
  have sd: "arch_eval \<rho> s = arch_eval \<rho>' s" "arch_eval \<rho> d = arch_eval \<rho>' d"
    using 22 by simp_all
  show ?case by (simp only: arch_eval.simps arms sd)
next
  case (23 \<rho> es)
  have "map (arch_eval \<rho>) es = map (arch_eval \<rho>') es"
    by (rule map_cong [OF refl]) (rule "23.IH", assumption, rule "23.prems", auto)
  then show ?case by (simp only: arch_eval.simps)
qed simp_all

interpretation arch: arch_hdl arch_eval arch_next
  by (unfold_locales; (rule arch_eval_local; assumption)?)
    (auto simp: arch_next_def arch_run_append concat_bv_Cons simp del: concat_bv.simps(3))

section \<open>Literals\<close>

lemma lit_hex [simp]: "lit_value 16 (nat_hex n) = n" "lit_ok 16 w (nat_hex n) \<longleftrightarrow> n < 2 ^ w"
  using read_nat_hex [of n] by (simp_all add: lit_value_def lit_ok_def read_prefixed_def)

lemma read_digits_leading_zeros:
  "0 < b \<Longrightarrow> k \<noteq> 0 \<or> \<not> us \<Longrightarrow>
   read_digits b 0 us (replicate k (CHR ''0'') @ ds) = read_digits b 0 (if k = 0 then us else False) ds"
proof (induction k arbitrary: us)
  case (Suc k)
  have "digit_val (CHR ''0'') = Some 0" by code_simp
  with Suc show ?case by simp
qed simp

lemma lit_hex_pad [simp]:
  "lit_value 16 (nat_hex_pad k n) = n" "lit_ok 16 w (nat_hex_pad k n) \<longleftrightarrow> n < 2 ^ w"
  using read_nat_hex [of n] read_digits_leading_zeros [of 16 "k - length (nat_hex n)" False "nat_hex n"]
  by (simp_all add: nat_hex_pad_def lit_value_def lit_ok_def read_prefixed_def)

lemma lit_hex_digits [simp]:
  "lit_value 16 ''0'' = 0" "lit_ok 16 w ''0''" "lit_value 16 ''1'' = 1"
proof -
  have "read_digits 16 0 False ''0'' = Some 0" "read_digits 16 0 False ''1'' = Some 1" by code_simp+
  then show "lit_value 16 ''0'' = 0" "lit_ok 16 w ''0''" "lit_value 16 ''1'' = 1"
    by (simp_all add: lit_value_def lit_ok_def)
qed

lemma lit_bin_digits [simp]:
  "lit_value 2 ''0'' = 0" "lit_value 2 ''00'' = 0" "lit_value 2 ''01'' = 1"
  "lit_value 2 ''10'' = 2" "lit_value 2 ''11'' = 3"
  "lit_ok 2 1 ''0''" "lit_ok 2 2 ''00''" "lit_ok 2 2 ''01''" "lit_ok 2 2 ''10''" "lit_ok 2 2 ''11''"
  by code_simp+

lemma fit_simps [simp]: "bw (fit w x) = w" "bn (fit w x) = bn x mod 2 ^ w"
  by (simp_all add: fit_def)

lemma bit1_simps [simp]: "bw (bit1 b) = 1" "bn (bit1 b) = of_bool b" "isset (bit1 b) = b"
  by (simp_all add: bit1_def isset_def)

lemma fit_bit1 [simp]: "fit 1 (bit1 b) = bit1 b" "fit (Suc 0) (bit1 b) = bit1 b"
  by (simp_all add: fit_def bit1_def)

lemma well_sized_fit [simp]: "well_sized (fit w x)"
  by (simp add: well_sized_def)

lemma well_sized_bit1 [simp]: "well_sized (bit1 b)"
  by (simp add: well_sized_def bit1_def)

lemma fit_id: "well_sized x \<Longrightarrow> bw x = w \<Longrightarrow> fit w x = x"
  by (cases x) (simp add: fit_def well_sized_def)

lemma well_sized_bit_cases: "well_sized x \<Longrightarrow> bw x = 1 \<Longrightarrow> x = bit1 (isset x)"
  by (cases x) (auto simp: well_sized_def bit1_def isset_def)

lemma sizedD: "sized w x \<Longrightarrow> bw x = w" "sized w x \<Longrightarrow> bn x < 2 ^ w"
  by (simp_all add: sized_def)

lemma sized_simps [simp]: "sized w (BV w' n) \<longleftrightarrow> w' = w \<and> n < 2 ^ w" "sized w (fit w x)"
  "sized w (bit1 b) \<longleftrightarrow> w = 1"
  by (auto simp: sized_def of_bool_def)

lemma sized_fit: "sized w x \<Longrightarrow> fit w x = x"
  by (cases x) (simp add: sized_def fit_def)

lemma sized_bit1: "sized 1 x \<Longrightarrow> x = bit1 (isset x)"
  by (cases x) (auto simp: sized_def bit1_def isset_def)

section \<open>What a sequential block assigns\<close>

fun stmt_targets :: "astmt \<Rightarrow> aref set" where
  "stmt_targets (Assign r e) = {r}"
| "stmt_targets (IfS c b) = (\<Union>s \<in> set b. stmt_targets s)"

abbreviation targets :: "astmt list \<Rightarrow> aref set" where
  "targets ss \<equiv> (\<Union>s \<in> set ss. stmt_targets s)"

lemma arch_run_frame: "r \<notin> targets ss \<Longrightarrow> arch_run ev \<rho> \<sigma> ss r = \<sigma> r"
  by (induction ev \<rho> \<sigma> ss rule: arch_run.induct) (auto simp: fun_upd_def)

text \<open>Only the first component of the accumulated environment at \<open>r\<close> matters for \<open>r\<close>.\<close>

lemma arch_run_cong: "\<sigma> r = \<tau> r \<Longrightarrow> arch_run ev \<rho> \<sigma> ss r = arch_run ev \<rho> \<tau> ss r"
proof (induction ev \<rho> \<sigma> ss arbitrary: \<tau> rule: arch_run.induct)
  case (2 ev \<rho> \<sigma> r' e ss)
  show ?case using "2.prems" by (auto intro!: "2.IH" [unfolded fun_upd_def] simp: fun_upd_def)
next
  case (3 ev \<rho> \<sigma> c b ss)
  have b: "isset (ev \<rho> c) \<Longrightarrow> arch_run ev \<rho> \<sigma> b r = arch_run ev \<rho> \<tau> b r"
    using "3.IH"(1) "3.prems" by blast
  show ?case
    using "3.IH"(2) [of "if isset (ev \<rho> c) then arch_run ev \<rho> \<tau> b else \<tau>"] b "3.prems" by simp
qed simp

text \<open>
  A list of statement groups, one per element of a list: the group of \<open>x\<close> is the only one that
  assigns \<open>r\<close>, so the others can be left out.
\<close>

lemma arch_run_concat_map:
  assumes "x \<in> set xs" and "distinct xs"
    and "\<And>y. y \<in> set xs \<Longrightarrow> y \<noteq> x \<Longrightarrow> r \<notin> targets (f y)"
  shows "arch_run ev \<rho> \<sigma> (concat (map f xs)) r = arch_run ev \<rho> \<sigma> (f x) r"
proof -
  obtain ys zs where xs: "xs = ys @ x # zs" using assms(1) by (meson split_list)
  with assms(2) have "x \<notin> set ys" "x \<notin> set zs" by auto
  with assms(3) xs have ys: "r \<notin> targets (concat (map f ys))" and zs: "r \<notin> targets (concat (map f zs))"
    by auto
  have "arch_run ev \<rho> \<sigma> (concat (map f xs)) r
      = arch_run ev \<rho> (arch_run ev \<rho> \<sigma> (concat (map f ys))) (f x) r"
    using zs by (simp add: xs arch_run_append arch_run_frame)
  also have "\<dots> = arch_run ev \<rho> \<sigma> (f x) r"
    by (rule arch_run_cong) (rule arch_run_frame [OF ys])
  finally show ?thesis .
qed

lemma targets_concat_map: "targets (concat (map f xs)) = (\<Union>x \<in> set xs. targets (f x))"
  by simp

context arch_hdl
begin

text \<open>The laws fix the sequential block completely: it is \<open>arch_run\<close>.\<close>

lemma nxt_append: "nxt \<rho> (ss @ ts) = arch_run ev \<rho> (nxt \<rho> ss) ts"
proof (induction ts arbitrary: ss rule: measure_induct_rule [where f = "size_list size"])
  case (less ts)
  show ?case
  proof (cases ts)
    case Nil
    then show ?thesis by simp
  next
    case (Cons t us)
    have us: "nxt \<rho> ((ss @ [t]) @ us) = arch_run ev \<rho> (nxt \<rho> (ss @ [t])) us"
      using less [of us "ss @ [t]"] Cons by simp
    show ?thesis
    proof (cases t)
      case (Assign r e)
      with us Cons show ?thesis by (simp add: nxt_assign)
    next
      case (IfS c body)
      have "nxt \<rho> (ss @ body) = arch_run ev \<rho> (nxt \<rho> ss) body"
        using less [of body ss] Cons IfS by simp
      with us Cons IfS show ?thesis by (simp add: nxt_if)
    qed
  qed
qed

lemma nxt_run: "nxt \<rho> ss = arch_run ev \<rho> \<rho> ss"
  using nxt_append [of \<rho> "[]" ss] by (simp add: nxt_nil)

text \<open>Everything not assigned holds its value: registers keep state, nothing else changes.\<close>

lemma nxt_frame: "r \<notin> targets ss \<Longrightarrow> nxt \<rho> ss r = \<rho> r"
  by (simp add: nxt_run arch_run_frame)

lemma ev_hex_value [simp]: "n < 2 ^ w \<Longrightarrow> ev \<rho> (HexLit w (nat_hex n)) = BV w n"
  by (simp add: ev_hex)

lemma ev_hex_pad_value [simp]: "n < 2 ^ w \<Longrightarrow> ev \<rho> (HexLit w (nat_hex_pad k n)) = BV w n"
  by (simp add: ev_hex)

lemma ev_match_find:
  "ev \<rho> (MatchE k s arms d) =
     (case find (\<lambda>(p, e). bn (ev \<rho> s) = bn (ev \<rho> p)) arms of
        None \<Rightarrow> ev \<rho> d
      | Some (p, e) \<Rightarrow> ev \<rho> e)"
  by (induction arms) (auto simp: ev_match_nil ev_match_cons)

lemma ev_concat: "es \<noteq> [] \<Longrightarrow> ev \<rho> (Concat es) = concat_bv (map (ev \<rho>) es)"
proof (induction es)
  case (Cons e es)
  then show ?case
    by (cases es) (simp_all add: ev_concat_one ev_concat_cons del: concat_bv.simps(3) add: concat_bv_step)
qed simp

text \<open>
  The unconditional evaluation rules, as one bundle for the component proofs.
\<close>

lemmas ev_basic = ev_ref ev_num ev_true ev_false ev_eq ev_neq ev_gt ev_ge ev_land ev_lor ev_lnot
  ev_cond ev_paren ev_addw

end

text \<open>The widths of the signals never change: \<open>seq\<close> assignments and \<open>let\<close>s fit their targets.\<close>

lemma arch_run_bw: "bw (\<sigma> r) = bw (\<rho> r) \<Longrightarrow> bw (arch_run ev \<rho> \<sigma> ss r) = bw (\<rho> r)"
  by (induction ev \<rho> \<sigma> ss rule: arch_run.induct) (auto simp: fun_upd_def)

lemma arch_run_well_sized:
  "well_sized (\<sigma> r) \<Longrightarrow> well_sized (arch_run ev \<rho> \<sigma> ss r)"
  by (induction ev \<rho> \<sigma> ss rule: arch_run.induct) (auto simp: fun_upd_def)

lemma bind_lets_append: "bind_lets ev \<rho> (is @ js) = bind_lets ev (bind_lets ev \<rho> is) js"
  by (induction ev \<rho> "is" rule: bind_lets.induct) (auto simp: fun_upd_def)

fun item_lets :: "aitem list \<Rightarrow> string set" where
  "item_lets [] = {}"
| "item_lets (LetI x k t e # is) = insert x (item_lets is)"
| "item_lets (_ # is) = item_lets is"

lemma bind_lets_none: "item_lets is = {} \<Longrightarrow> bind_lets ev \<rho> is = \<rho>"
  by (induction ev \<rho> "is" rule: bind_lets.induct) auto

lemma item_lets_append [simp]: "item_lets (is @ js) = item_lets is \<union> item_lets js"
  by (induction "is" rule: item_lets.induct) auto

lemma bind_lets_frame_Mem [simp]: "bind_lets ev \<rho> is (Mem b m) = \<rho> (Mem b m)"
  by (induction ev \<rho> "is" rule: bind_lets.induct) (auto simp: fun_upd_def)

lemma bind_lets_frame_Sig: "x \<notin> item_lets is \<Longrightarrow> bind_lets ev \<rho> is (Sig x) = \<rho> (Sig x)"
  by (induction ev \<rho> "is" rule: bind_lets.induct) (auto simp: fun_upd_def)

section \<open>The bindings as equations\<close>

text \<open>
  A list of \<^verbatim>\<open>let\<close>s in which every name is bound once and used only after its binding: then every
  binding is an equation of the final environment.
\<close>

fun let_refs :: "aitem list \<Rightarrow> string set" where
  "let_refs [] = {}"
| "let_refs (LetI x k t e # is) = {y. Sig y \<in> expr_refs e} \<union> let_refs is"
| "let_refs (_ # is) = let_refs is"

fun lets_ok :: "aitem list \<Rightarrow> bool" where
  "lets_ok [] = True"
| "lets_ok (LetI x k t e # is) \<longleftrightarrow>
     x \<notin> item_lets is \<and> {y. Sig y \<in> expr_refs e} \<inter> insert x (item_lets is) = {} \<and> lets_ok is"
| "lets_ok (_ # is) = lets_ok is"

lemma let_refs_append [simp]: "let_refs (is @ js) = let_refs is \<union> let_refs js"
  by (induction "is" rule: let_refs.induct) auto

lemma lets_ok_append [simp]:
  "lets_ok (is @ js) \<longleftrightarrow> lets_ok is \<and> lets_ok js \<and> (item_lets is \<union> let_refs is) \<inter> item_lets js = {}"
  by (induction "is" rule: lets_ok.induct) auto

lemma item_lets_concat_map: "item_lets (concat (map f xs)) = (\<Union>x \<in> set xs. item_lets (f x))"
  by (induction xs) auto

lemma let_refs_concat_map: "let_refs (concat (map f xs)) = (\<Union>x \<in> set xs. let_refs (f x))"
  by (induction xs) auto

lemma lets_ok_concat_map:
  "(\<And>x. x \<in> set xs \<Longrightarrow> lets_ok (f x)) \<Longrightarrow>
   sorted_wrt (\<lambda>x y. (item_lets (f x) \<union> let_refs (f x)) \<inter> item_lets (f y) = {}) xs \<Longrightarrow>
   lets_ok (concat (map f xs))"
  by (induction xs) (auto simp: item_lets_concat_map)

context arch_hdl
begin

lemma bind_lets_equation:
  "lets_ok is \<Longrightarrow> LetI x k t e \<in> set is \<Longrightarrow>
   bind_lets ev \<rho> is (Sig x) = fit (ty_width t) (ev (bind_lets ev \<rho> is) e)"
proof (induction "is" arbitrary: \<rho> rule: lets_ok.induct)
  case (2 y k' t' d "is")
  show ?case
  proof (cases "LetI x k t e \<in> set is")
    case True
    with 2 show ?thesis by (simp del: fun_upd_apply)
  next
    case False
    with 2 have here: "y = x" "t' = t" "d = e" by auto
    let ?\<sigma> = "bind_lets ev (\<rho>(Sig x := fit (ty_width t) (ev \<rho> e))) is"
    have "ev \<rho> e = ev ?\<sigma> e"
    proof (rule ev_local)
      fix r assume r: "r \<in> expr_refs e"
      show "\<rho> r = ?\<sigma> r"
      proof (cases r)
        case (Sig z)
        with r 2 here have "z \<noteq> x" "z \<notin> item_lets is" by auto
        then show ?thesis by (simp add: Sig bind_lets_frame_Sig)
      next
        case (Mem b m)
        then show ?thesis by simp
      qed
    qed
    moreover have "?\<sigma> (Sig x) = fit (ty_width t) (ev \<rho> e)"
      using 2 here by (simp add: bind_lets_frame_Sig)
    ultimately show ?thesis by (simp add: here)
  qed
qed auto

end

end
