(* ===== verification/AccessCtl.thy ===== *)
theory AccessCtl
  imports Validate Arch
begin

text \<open>
  The access controller (\<^verbatim>\<open>emit_access_controller.py\<close>): the emitted text, the module it denotes,
  and what that module decides. \<open>emit_access_controller\<close> is the Python function line by line;
  \<open>access_module\<close> is the abstract syntax of the same text; \<open>min_priv\<close> and \<open>access_ok\<close> are the
  decoding rules of the privileged specification as the docstring states them.
\<close>

abbreviation sq :: string where
  "sq \<equiv> [CHR 0x27]"

section \<open>The emitter\<close>

definition priv_bits :: "string \<Rightarrow> string option" where
  "priv_bits p = (if p = ''u'' then Some (''2'' @ sq @ ''b00'')
                  else if p = ''s'' then Some (''2'' @ sq @ ''b01'')
                  else if p = ''m'' then Some (''2'' @ sq @ ''b11'') else None)"

definition overrides :: "csr_design \<Rightarrow> (nat \<times> string) list" where
  "overrides design =
     concat (map (\<lambda>reg. case r_priv reg of
         None \<Rightarrow> []
       | Some p \<Rightarrow> (case priv_bits p of None \<Rightarrow> [] | Some bits \<Rightarrow> [(r_address reg, bits)]))
       (d_regs design))"

definition emit_access_controller :: "csr_design \<Rightarrow> string \<Rightarrow> string" where
  "emit_access_controller design module_name = join newline (
     [''module '' @ module_name,
      ''  port csr_addr:   in  UInt<12>;'',
      ''  port csr_opcode: in  UInt<3>;'',
      ''  port cur_priv:   in  UInt<2>;'',
      ''  port valid:      in  Bool;'',
      ''  port granted:    out Bool;'',
      ''  port illegal:    out Bool;'',
      ''  port cause:      out UInt<5>;'',
      []]
     @ (if overrides design \<noteq> [] then
          [''  let min_priv: UInt<2> = match csr_addr'']
          @ map (\<lambda>(addr, bits). ''    12'' @ sq @ ''h'' @ nat_hex addr @ '' => '' @ bits @ '','')
              (overrides design)
          @ [''    _       => csr_addr[9:8]'', ''  end match;'']
        else [''  let min_priv: UInt<2> = csr_addr[9:8];''])
     @ [''  let is_ro:     Bool = (csr_addr[11:10] == 2'' @ sq @ ''b11);'',
        ''  let is_write:  Bool = csr_opcode[1:0] != 2'' @ sq @ ''b00;'',
        ''  let priv_ok:   Bool = cur_priv >= min_priv;'',
        ''  let access_ok: Bool = priv_ok and not (is_ro and is_write);'',
        [],
        ''  comb'',
        ''    granted = valid and access_ok;'',
        ''    illegal = valid and not access_ok;'',
        ''    cause   = 5'' @ sq @ ''d2;'',
        ''  end comb'',
        ''end module '' @ module_name,
        []])"

section \<open>The module it denotes\<close>

definition priv_digits :: "string \<Rightarrow> string option" where
  "priv_digits p = (if p = ''u'' then Some ''00'' else if p = ''s'' then Some ''01''
                    else if p = ''m'' then Some ''11'' else None)"

definition override_arms :: "csr_design \<Rightarrow> (aexpr \<times> aexpr) list" where
  "override_arms design =
     concat (map (\<lambda>reg. case r_priv reg of
         None \<Rightarrow> []
       | Some p \<Rightarrow> (case priv_digits p of None \<Rightarrow> []
           | Some ds \<Rightarrow> [(HexLit 12 (nat_hex (r_address reg)), BinLit 2 ds)]))
       (d_regs design))"

abbreviation sig :: "string \<Rightarrow> aexpr" where
  "sig x \<equiv> Ref (Sig x)"

definition min_priv_expr :: "csr_design \<Rightarrow> aexpr" where
  "min_priv_expr design =
     (if override_arms design \<noteq> []
      then MatchE 7 (sig ''csr_addr'') (override_arms design) (SliceE (sig ''csr_addr'') 9 8)
      else SliceE (sig ''csr_addr'') 9 8)"

definition access_module :: "csr_design \<Rightarrow> string \<Rightarrow> amodule" where
  "access_module design module_name = \<lparr>am_use = None, am_name = module_name, am_items =
     [PortI ''csr_addr'' ''   in  UInt<12>'', PortI ''csr_opcode'' '' in  UInt<3>'',
      PortI ''cur_priv'' ''   in  UInt<2>'', PortI ''valid'' ''      in  Bool'',
      PortI ''granted'' ''    out Bool'', PortI ''illegal'' ''    out Bool'',
      PortI ''cause'' ''      out UInt<5>'', Blank,
      LetI ''min_priv'' 1 (TUInt 2) (min_priv_expr design),
      LetI ''is_ro'' 5 TBool (Paren (EqE (SliceE (sig ''csr_addr'') 11 10) (BinLit 2 ''11''))),
      LetI ''is_write'' 2 TBool (NeqE (SliceE (sig ''csr_opcode'') 1 0) (BinLit 2 ''00'')),
      LetI ''priv_ok'' 3 TBool (GeE (sig ''cur_priv'') (sig ''min_priv'')),
      LetI ''access_ok'' 1 TBool
        (LAnd (sig ''priv_ok'') (LNot (Paren (LAnd (sig ''is_ro'') (sig ''is_write''))))),
      Blank,
      CombI [(Sig ''granted'', 1, LAnd (sig ''valid'') (sig ''access_ok'')),
             (Sig ''illegal'', 1, LAnd (sig ''valid'') (LNot (sig ''access_ok''))),
             (Sig ''cause'', 3, DecLit 5 2)]]\<rparr>"

section \<open>Text and module agree\<close>

lemma override_arms_overrides:
  "map (\<lambda>(p, e). (render_expr p, render_expr e)) (override_arms design)
   = map (\<lambda>(addr, bits). ([''12'' @ sq @ ''h'' @ nat_hex addr], [bits])) (overrides design)"
  by (auto simp: override_arms_def overrides_def map_concat comp_def priv_digits_def priv_bits_def
      intro!: arg_cong [where f = concat] split: option.splits)

lemma override_arms_Nil: "override_arms design = [] \<longleftrightarrow> overrides design = []"
  using arg_cong [OF override_arms_overrides [of design], of length] by auto

lemma arms_text:
  assumes "map (\<lambda>(p, e). (render_expr p, render_expr e)) arms = map (\<lambda>x. ([f x], [g x])) xs"
  shows "concat (map (\<lambda>(p, e). map (\<lambda>l. ''  '' @ l)
           (glue (glue (render_expr p) ['' => '']) (glue (render_expr e) ['','']))) arms)
         = map (\<lambda>x. ''  '' @ f x @ '' => '' @ g x @ '','') xs"
  using assms
proof (induction arms arbitrary: xs)
  case (Cons a arms)
  then show ?case by (cases xs) (auto split: prod.splits)
qed simp

text \<open>
  The text of the access controller is, character by character, the rendering of the module
  whose decisions are proved below.
\<close>

theorem access_text: "emit_access_controller design nm = render_module (access_module design nm)"
proof -
  have arms: "concat (map (\<lambda>(p, e). map (\<lambda>l. ''  '' @ l)
           (glue (glue (render_expr p) ['' => '']) (glue (render_expr e) ['','']))) (override_arms design))
      = map (\<lambda>x. ''  '' @ (''12'' @ sq @ ''h'' @ nat_hex (fst x)) @ '' => '' @ snd x @ '','') (overrides design)"
    by (rule arms_text) (simp add: override_arms_overrides case_prod_beta)
  show ?thesis
    unfolding emit_access_controller_def render_module_def
    by (rule arg_cong [where f = "join newline"])
      (simp add: access_module_def min_priv_expr_def override_arms_Nil arms case_prod_beta comp_def)
qed

section \<open>What the module decides\<close>

text \<open>Privilege levels of the specification: U = 0, S = 1, M = 3.\<close>

definition priv_level :: "string \<Rightarrow> nat" where
  "priv_level p = (if p = ''u'' then 0 else if p = ''s'' then 1 else 3)"

definition has_override :: "csr_reg \<Rightarrow> bool" where
  "has_override reg \<longleftrightarrow> r_priv reg \<in> {Some ''u'', Some ''s'', Some ''m''}"

text \<open>
  The minimum privilege of an address: the tag of the first register there that carries one,
  otherwise the two address bits the specification reserves for it.
\<close>

definition min_priv :: "csr_design \<Rightarrow> nat \<Rightarrow> nat" where
  "min_priv design a =
     (case find (\<lambda>reg. r_address reg = a \<and> has_override reg) (d_regs design) of
        Some reg \<Rightarrow> priv_level (the (r_priv reg))
      | None \<Rightarrow> a div 2 ^ 8 mod 4)"

definition read_only_addr :: "nat \<Rightarrow> bool" where
  "read_only_addr a \<longleftrightarrow> a div 2 ^ 10 mod 4 = 3"

definition is_write_op :: "nat \<Rightarrow> bool" where
  "is_write_op opc \<longleftrightarrow> opc mod 4 \<noteq> 0"

definition access_ok :: "csr_design \<Rightarrow> nat \<Rightarrow> nat \<Rightarrow> nat \<Rightarrow> bool" where
  "access_ok design a opc priv \<longleftrightarrow>
     min_priv design a \<le> priv \<and> \<not> (read_only_addr a \<and> is_write_op opc)"

definition access_ports :: "env \<Rightarrow> bool" where
  "access_ports \<rho> \<longleftrightarrow> sized 12 (\<rho> (Sig ''csr_addr'')) \<and> sized 3 (\<rho> (Sig ''csr_opcode''))
     \<and> sized 2 (\<rho> (Sig ''cur_priv'')) \<and> sized 1 (\<rho> (Sig ''valid''))"

text \<open>Every CSR address fits the 12 bits of the instruction field.\<close>

definition addresses_fit :: "csr_design \<Rightarrow> bool" where
  "addresses_fit design \<longleftrightarrow> (\<forall>reg \<in> set (d_regs design). r_address reg < 2 ^ 12)"

context arch_hdl
begin

lemma ev_override_match:
  assumes "\<forall>reg \<in> set regs. r_address reg < 2 ^ 12" and "bn (ev \<rho> s) = a"
  shows "ev \<rho> (MatchE k s (concat (map (\<lambda>reg. case r_priv reg of
         None \<Rightarrow> []
       | Some p \<Rightarrow> (case priv_digits p of None \<Rightarrow> []
           | Some ds \<Rightarrow> [(HexLit 12 (nat_hex (r_address reg)), BinLit 2 ds)])) regs)) dflt)
    = (case find (\<lambda>reg. r_address reg = a \<and> has_override reg) regs of
         Some reg \<Rightarrow> BV 2 (priv_level (the (r_priv reg)))
       | None \<Rightarrow> ev \<rho> dflt)"
  using assms
proof (induction regs)
  case (Cons reg regs)
  then show ?case
    by (auto simp: ev_match_cons ev_bin has_override_def priv_digits_def priv_level_def
        split: option.splits)
qed (simp add: ev_match_nil)

lemma ev_min_priv:
  assumes "addresses_fit design" and "sized 12 (\<rho> (Sig ''csr_addr''))"
  shows "ev \<rho> (min_priv_expr design) = BV 2 (min_priv design (bn (\<rho> (Sig ''csr_addr''))))"
proof -
  let ?a = "bn (\<rho> (Sig ''csr_addr''))"
  have sl: "ev \<rho> (SliceE (sig ''csr_addr'') 9 8) = BV 2 (?a div 2 ^ 8 mod 4)"
    using assms(2) by (simp add: ev_slice ev_ref sizedD drop_bit_eq_div take_bit_eq_mod numeral_2_eq_2)
  have m: "ev \<rho> (MatchE 7 (sig ''csr_addr'') (override_arms design) (SliceE (sig ''csr_addr'') 9 8))
      = BV 2 (min_priv design ?a)"
    unfolding override_arms_def
    using assms(1) by (subst ev_override_match) (auto simp: addresses_fit_def ev_ref sl min_priv_def
        split: option.splits)
  from m have "override_arms design = [] \<Longrightarrow> min_priv design ?a = ?a div 2 ^ 8 mod 4"
    by (simp add: ev_match_nil sl)
  with m sl show ?thesis by (auto simp: min_priv_expr_def)
qed

lemma min_priv_less: "min_priv design a < 4"
  by (auto simp: min_priv_def priv_level_def split: option.splits)

text \<open>The value of every output, for any inputs of the declared widths.\<close>

lemma access_outputs:
  fixes design \<rho>
  defines "a \<equiv> bn (\<rho> (Sig ''csr_addr''))" and "opc \<equiv> bn (\<rho> (Sig ''csr_opcode''))"
    and "priv \<equiv> bn (\<rho> (Sig ''cur_priv''))" and "valid \<equiv> isset (\<rho> (Sig ''valid''))"
  assumes fit: "addresses_fit design" and ports: "access_ports \<rho>"
  shows "module_out ev (access_module design nm) \<rho> (Sig ''granted'')
           = Some (bit1 (valid \<and> access_ok design a opc priv))"
    and "module_out ev (access_module design nm) \<rho> (Sig ''illegal'')
           = Some (bit1 (valid \<and> \<not> access_ok design a opc priv))"
    and "module_out ev (access_module design nm) \<rho> (Sig ''cause'') = Some (BV 5 2)"
proof -
  let ?\<rho> = "bind_lets ev \<rho> (am_items (access_module design nm))"
  from ports have sz: "sized 12 (\<rho> (Sig ''csr_addr''))" "sized 3 (\<rho> (Sig ''csr_opcode''))"
    by (simp_all add: access_ports_def)
  have ok: "?\<rho> (Sig ''access_ok'') = bit1 (access_ok design a opc priv)"
    using fit sz min_priv_less [of design a]
    by (simp add: access_module_def ev_basic ev_min_priv ev_slice ev_bin sizedD fit_def access_ok_def
        read_only_addr_def is_write_op_def a_def opc_def priv_def drop_bit_eq_div take_bit_eq_mod
        bit1_def isset_def)
  moreover have "?\<rho> (Sig ''valid'') = \<rho> (Sig ''valid'')" by (simp add: access_module_def)
  moreover have "module_drives (access_module design nm) =
      [(Sig ''granted'', LAnd (sig ''valid'') (sig ''access_ok'')),
       (Sig ''illegal'', LAnd (sig ''valid'') (LNot (sig ''access_ok''))),
       (Sig ''cause'', DecLit 5 2)]"
    by (simp add: module_drives_def access_module_def)
  ultimately show "module_out ev (access_module design nm) \<rho> (Sig ''granted'')
           = Some (bit1 (valid \<and> access_ok design a opc priv))"
    and "module_out ev (access_module design nm) \<rho> (Sig ''illegal'')
           = Some (bit1 (valid \<and> \<not> access_ok design a opc priv))"
    and "module_out ev (access_module design nm) \<rho> (Sig ''cause'') = Some (BV 5 2)"
    by (simp_all add: module_out_def ev_basic ev_dec valid_def)
qed

end

end
