(* ===== verification/CsrFile.thy ===== *)
theory CsrFile
  imports Validate Arch AccessCtl
begin

text \<open>
  The CSR-file emitter (\<^verbatim>\<open>emit_csr_file.py\<close>), function by function: the text it builds, with the
  exceptions it can raise. The abstract syntax of the same text is in \<open>CsrSyntax\<close>, its
  meaning in \<open>CsrSem\<close>.
\<close>

section \<open>Literals and slices\<close>

definition zero_lit :: "nat \<Rightarrow> string" where
  "zero_lit w = (if w = 1 then ''false'' else nat_dec w @ sq @ ''h0'')"

definition wdata_slice :: "csr_field \<Rightarrow> string" where
  "wdata_slice field =
     (if f_width field = 1 then ''csr.cmd_wdata['' @ nat_dec (f_lsb field) @ '']''
      else ''csr.cmd_wdata['' @ nat_dec (f_msb field) @ '':'' @ nat_dec (f_lsb field) @ '']'')"

definition reset_struct_literal :: "csr_reg \<Rightarrow> string" where
  "reset_struct_literal reg =
     r_struct_name reg @ '' { ''
     @ join '', '' (map (\<lambda>f. f_name f @ '': '' @ nat_dec (f_reset f)) (r_fields reg)) @ '' }''"

section \<open>A software write to one field\<close>

definition opcode_match_lines :: "csr_field \<Rightarrow> string \<Rightarrow> string list" where
  "opcode_match_lines field old_ref =
     (let slice_expr = wdata_slice field in
      [''match csr.cmd_op'',
       ''  2'' @ sq @ ''b01 => '' @ slice_expr @ '','',
       ''  2'' @ sq @ ''b10 => '' @ old_ref @ '' | '' @ slice_expr @ '','',
       ''  2'' @ sq @ ''b11 => '' @ old_ref @ '' & (~'' @ slice_expr @ ''),'',
       ''  _    => '' @ old_ref,
       ''end match''])"

definition middle :: "'a list \<Rightarrow> 'a list" where
  "middle xs = butlast (tl xs)"

definition mask_value :: "nat \<Rightarrow> int \<Rightarrow> nat" where
  "mask_value w payload = nat (take_bit w payload)"

definition field_write_lines :: "csr_field \<Rightarrow> string \<Rightarrow> string list res" where
  "field_write_lines field state_ref =
     (if f_wpri field \<or> \<not> f_sw_writable field then Inr []
      else
        let lhs = state_ref @ ''.'' @ f_name field;
            op_lines = opcode_match_lines field lhs;
            w = f_width field in
        case f_warl field of
          None \<Rightarrow> Inr ([lhs @ '' <= '' @ hd op_lines] @ middle op_lines @ [last op_lines @ '';''])
        | Some (Mask payload) \<Rightarrow>
            (let mask_lit = nat_dec w @ sq @ ''h'' @ nat_hex (mask_value w payload) in
             Inr ([lhs @ '' <= ('' @ hd op_lines] @ middle op_lines
                  @ [last op_lines @ '') & '' @ mask_lit @ '';'']))
        | Some (Enum payload) \<Rightarrow>
            (case sort (remdups payload) of
               [] \<Rightarrow> Inl IndexError
             | v0 # _ \<Rightarrow>
                 (let default = nat_dec w @ sq @ ''h'' @ int_hex v0 in
                  Inr ([lhs @ '' <= match ('' @ hd op_lines] @ middle op_lines @ [last op_lines @ '')'']
                       @ map (\<lambda>v. let lit = nat_dec w @ sq @ ''h'' @ int_hex v in
                              ''  '' @ lit @ '' => '' @ lit @ '','') (sort (remdups payload))
                       @ [''  _    => '' @ default, ''end match;'']))))"

section \<open>Reading a register\<close>

definition field_read_value :: "csr_field \<Rightarrow> string \<Rightarrow> string" where
  "field_read_value field state_ref =
     (if f_wpri field \<or> \<not> f_sw_readable field then zero_lit (f_width field)
      else state_ref @ ''.'' @ f_name field)"

text \<open>The loop over the fields, most significant first; \<open>next_bit\<close> is the highest bit not yet covered.\<close>

fun read_parts :: "string \<Rightarrow> int \<Rightarrow> csr_field list \<Rightarrow> string list" where
  "read_parts st next_bit [] = (if next_bit \<ge> 0 then [int_dec (next_bit + 1) @ sq @ ''h0''] else [])"
| "read_parts st next_bit (f # fs) =
     (if int (f_msb f) < next_bit then [int_dec (next_bit - int (f_msb f)) @ sq @ ''h0''] else [])
     @ [field_read_value f st] @ read_parts st (int (f_lsb f) - 1) fs"

definition reg_read_expr :: "csr_reg \<Rightarrow> nat \<Rightarrow> string" where
  "reg_read_expr reg xlen =
     (if r_fields reg = [] then zero_lit xlen
      else
        let parts = read_parts (r_state_name reg) (int (r_regwidth reg) - 1)
                      (sort_key_desc f_lsb (r_fields reg));
            body = (if length parts = 1 then hd parts else ''{'' @ join '', '' parts @ ''}'') in
        if r_regwidth reg < xlen
        then ''{'' @ nat_dec (xlen - r_regwidth reg) @ sq @ ''h0, '' @ body @ ''}''
        else body)"

section \<open>The module\<close>

definition all_trap_signals :: "csr_reg \<Rightarrow> string list" where
  "all_trap_signals reg =
     (if truthy (r_trap_signal reg) then [the (r_trap_signal reg)] else [])
     @ concat (map (\<lambda>f. if truthy (f_trap_signal f) then [the (f_trap_signal f)] else []) (r_fields reg))"

definition trap_signals :: "csr_design \<Rightarrow> string list" where
  "trap_signals design = sorted_set (concat (map all_trap_signals (d_regs design)))"

definition increment_enables :: "csr_design \<Rightarrow> string list" where
  "increment_enables design = sorted_set (concat (map (\<lambda>reg.
     concat (map (\<lambda>f. if truthy (f_hw_increment_when f) then [the (f_hw_increment_when f)] else [])
       (r_fields reg))) (d_regs design)))"

text \<open>\<^verbatim>\<open>next(... for r in design.regs ...)\<close>, without a default.\<close>

definition next_reg :: "csr_design \<Rightarrow> string \<Rightarrow> csr_reg res" where
  "next_reg design nm = (case find_reg design nm of None \<Rightarrow> Inl StopIteration | Some r \<Rightarrow> Inr r)"

definition next_counter :: "csr_reg \<Rightarrow> csr_field res" where
  "next_counter reg =
     (case find (\<lambda>f. truthy (f_hw_increment_when f)) (r_fields reg) of
        None \<Rightarrow> Inl StopIteration | Some f \<Rightarrow> Inr f)"

definition bump_line :: "csr_reg \<Rightarrow> csr_field \<Rightarrow> string" where
  "bump_line reg f = ''      '' @ r_state_name reg @ ''.'' @ f_name f @ '' <= ''
     @ r_state_name reg @ ''.'' @ f_name f @ '' +% 1;''"

definition low_max_digits :: "nat \<Rightarrow> string" where
  "low_max_digits w = replicate (w div 4) (CHR ''f'')"

definition increment_lines :: "csr_design \<Rightarrow> csr_reg \<Rightarrow> csr_field \<Rightarrow> string list res" where
  "increment_lines design reg f =
     (if truthy (f_hw_increment_when f) then
        Inr [''    if '' @ the (f_hw_increment_when f), bump_line reg f, ''    end if'']
      else if truthy (f_hw_increment_high_of f) then
        res_bind (next_reg design (the (f_hw_increment_high_of f))) (\<lambda>low_reg.
        res_bind (next_counter low_reg) (\<lambda>low_field.
        let low_max = nat_dec (f_width low_field) @ sq @ ''h'' @ low_max_digits (f_width low_field);
            enable = the (f_hw_increment_when low_field) in
        Inr [''    if '' @ enable @ '' and ('' @ r_state_name low_reg @ ''.'' @ f_name low_field
               @ '' == '' @ low_max @ '')'',
             bump_line reg f, ''    end if'']))
      else Inr [])"

definition pulse_line :: "string option \<Rightarrow> string list" where
  "pulse_line s = (if truthy s then [the s @ ''_r <= true;''] else [])"

text \<open>The write block of one register, without its \<^verbatim>\<open>if csr.cmd_addr == ...\<close> wrapper.\<close>

definition reg_block :: "csr_reg \<Rightarrow> string list res" where
  "reg_block reg =
     res_bind (res_map (\<lambda>f. res_bind (field_write_lines f (r_state_name reg)) (\<lambda>fl.
       Inr (if fl \<noteq> [] then fl @ pulse_line (f_trap_signal f) else []))) (r_fields reg)) (\<lambda>blocks.
     Inr (concat blocks @ pulse_line (r_trap_signal reg)))"

definition block_indent :: "string \<Rightarrow> string" where
  "block_indent ln =
     (if contains '' <= '' ln \<and> \<not> startswith '' '' ln then blanks 10 @ ln
      else if startswith ''end match'' ln then blanks 12 @ ln
      else blanks 12 @ ln)"

definition write_lines :: "(csr_reg \<times> string list) list \<Rightarrow> string list" where
  "write_lines per_reg_writes =
     (if per_reg_writes = [] then [] else
      [''    if csr.cmd_valid'',
       ''      if granted and (csr.cmd_op != 2'' @ sq @ ''b00)'']
      @ concat (map (\<lambda>(reg, block).
          [''        if csr.cmd_addr == 12'' @ sq @ ''h'' @ nat_hex (r_address reg)]
          @ map block_indent block @ [''        end if'']) per_reg_writes)
      @ [''      end if'', ''    end if''])"

definition hwif_out_lines :: "csr_design \<Rightarrow> string list" where
  "hwif_out_lines design =
     concat (map (\<lambda>reg.
       concat (map (\<lambda>f. if f_hw_readable f
           then [''    hwif_out.'' @ r_name reg @ ''_'' @ f_name f @ '' = ''
                 @ r_state_name reg @ ''.'' @ f_name f @ '';''] else []) (r_fields reg))
       @ [''    hwif_out.'' @ r_name reg @ ''_rdata_flat = '' @ reg_read_expr reg (d_xlen design) @ '';''])
     (d_regs design))"

definition emit_csr_file :: "csr_design \<Rightarrow> string res" where
  "emit_csr_file design =
     (let xlen = d_xlen design; sigs = trap_signals design in
      res_bind (res_map (\<lambda>reg. res_bind (res_map (increment_lines design reg) (r_fields reg))
        (\<lambda>ls. Inr (concat ls))) (d_regs design)) (\<lambda>increments.
      res_bind (res_map (\<lambda>reg. res_bind (reg_block reg) (\<lambda>b. Inr (reg, b))) (d_regs design)) (\<lambda>blocks.
      Inr (join newline (
        [''use '' @ d_package_name design @ '';'', [],
         ''module '' @ d_module_name design,
         ''  port clk: in Clock<SysDomain>;'',
         ''  port rst: in Reset<Async, Low>;'',
         ''  port csr: target '' @ d_csr_file_bus design @ '';'',
         ''  port granted: in Bool;'']
        @ map (\<lambda>s. ''  port '' @ s @ '': out Bool;'') sigs
        @ map (\<lambda>p. ''  port '' @ p @ '': in Bool;'') (increment_enables design)
        @ [''  port hwif_in:  in '' @ d_hwif_in_struct design @ '';'',
           ''  port hwif_out: out '' @ d_hwif_out_struct design @ '';'',
           [], ''  default seq on clk rising;'', []]
        @ map (\<lambda>reg. ''  reg '' @ r_state_name reg @ '': '' @ r_struct_name reg
            @ '' reset rst => '' @ reset_struct_literal reg @ '';'') (d_regs design)
        @ [[]]
        @ map (\<lambda>s. ''  reg '' @ s @ ''_r: Bool reset rst => false;'') sigs
        @ [[], ''  let csr_rdata_mux: UInt<'' @ nat_dec xlen @ ''> = match csr.cmd_addr'']
        @ map (\<lambda>reg. ''    12'' @ sq @ ''h'' @ nat_hex (r_address reg) @ '' => ''
            @ reg_read_expr reg xlen @ '','') (d_regs design)
        @ [''    _ => 0'', ''  end match;'', [], ''  seq'']
        @ map (\<lambda>s. ''    '' @ s @ ''_r <= false;'') sigs
        @ concat (map (\<lambda>reg. concat (map (\<lambda>f. if f_hw_writable f
            then [''    '' @ r_state_name reg @ ''.'' @ f_name f @ '' <= hwif_in.'' @ r_name reg @ ''_''
                  @ f_name f @ '';''] else []) (r_fields reg))) (d_regs design))
        @ concat increments
        @ write_lines (filter (\<lambda>(reg, b). b \<noteq> []) blocks)
        @ [''  end seq'', [], ''  comb'',
           ''    csr.cmd_ready = true;'',
           ''    csr.rsp_valid = csr.cmd_valid;'',
           ''    csr.rsp_rdata = csr.cmd_valid ? csr_rdata_mux : 0;'']
        @ map (\<lambda>s. ''    '' @ s @ '' = '' @ s @ ''_r;'') sigs
        @ hwif_out_lines design
        @ [''  end comb'', [], ''end module '' @ d_module_name design, []])))))"

end
