(* ===== verification/CsrSyntax.thy ===== *)
theory CsrSyntax
  imports CsrFile
begin

text \<open>
  The module the CSR-file emitter denotes: the same functions as in \<open>CsrFile\<close>, building abstract
  syntax instead of text, and the proof that rendering it gives back the emitted text.
\<close>

section \<open>A software write to one field\<close>

abbreviation csr_port :: "string \<Rightarrow> aexpr" where
  "csr_port m \<equiv> Ref (Mem ''csr'' m)"

definition slice_expr :: "csr_field \<Rightarrow> aexpr" where
  "slice_expr f = (if f_width f = 1 then BitE (csr_port ''cmd_wdata'') (f_lsb f)
                   else SliceE (csr_port ''cmd_wdata'') (f_msb f) (f_lsb f))"

definition op_match_expr :: "csr_field \<Rightarrow> aref \<Rightarrow> aexpr" where
  "op_match_expr f old =
     MatchE 4 (csr_port ''cmd_op'')
       [(BinLit 2 ''01'', slice_expr f),
        (BinLit 2 ''10'', BOr (Ref old) (slice_expr f)),
        (BinLit 2 ''11'', BAnd (Ref old) (Paren (BNot (slice_expr f))))]
       (Ref old)"

definition field_write_expr :: "csr_field \<Rightarrow> aref \<Rightarrow> aexpr" where
  "field_write_expr f old =
     (let w = f_width f; opm = op_match_expr f old in
      case f_warl f of
        None \<Rightarrow> opm
      | Some (Mask payload) \<Rightarrow> BAnd (Paren opm) (HexLit w (nat_hex (mask_value w payload)))
      | Some (Enum payload) \<Rightarrow>
          (let legal = sort (remdups payload) in
           MatchE 4 (Paren opm) (map (\<lambda>v. (HexLit w (int_hex v), HexLit w (int_hex v))) legal)
             (HexLit w (int_hex (hd legal)))))"

definition sw_writes :: "csr_field \<Rightarrow> bool" where
  "sw_writes f \<longleftrightarrow> \<not> f_wpri f \<and> f_sw_writable f"

definition pulse_stmts :: "string option \<Rightarrow> astmt list" where
  "pulse_stmts s = (if truthy s then [Assign (Sig (the s @ ''_r'')) TrueE] else [])"

definition field_stmts :: "csr_reg \<Rightarrow> csr_field \<Rightarrow> astmt list" where
  "field_stmts reg f =
     (if sw_writes f
      then [Assign (Mem (r_state_name reg) (f_name f))
              (field_write_expr f (Mem (r_state_name reg) (f_name f)))]
           @ pulse_stmts (f_trap_signal f)
      else [])"

definition reg_stmts :: "csr_reg \<Rightarrow> astmt list" where
  "reg_stmts reg = concat (map (field_stmts reg) (r_fields reg)) @ pulse_stmts (r_trap_signal reg)"

definition reg_write_stmt :: "csr_reg \<Rightarrow> astmt" where
  "reg_write_stmt reg =
     IfS (EqE (csr_port ''cmd_addr'') (HexLit 12 (nat_hex (r_address reg)))) (reg_stmts reg)"

definition written_regs :: "csr_design \<Rightarrow> csr_reg list" where
  "written_regs design = filter (\<lambda>reg. reg_stmts reg \<noteq> []) (d_regs design)"

definition write_stmts :: "csr_design \<Rightarrow> astmt list" where
  "write_stmts design =
     (if written_regs design = [] then []
      else [IfS (csr_port ''cmd_valid'')
              [IfS (LAnd (sig ''granted'') (Paren (NeqE (csr_port ''cmd_op'') (BinLit 2 ''00''))))
                 (map reg_write_stmt (written_regs design))]])"

section \<open>Hardware updates\<close>

definition hwif_stmts :: "csr_reg \<Rightarrow> csr_field \<Rightarrow> astmt list" where
  "hwif_stmts reg f =
     (if f_hw_writable f
      then [Assign (Mem (r_state_name reg) (f_name f)) (Ref (Mem ''hwif_in'' (r_name reg @ ''_'' @ f_name f)))]
      else [])"

definition bump_stmt :: "csr_reg \<Rightarrow> csr_field \<Rightarrow> astmt" where
  "bump_stmt reg f = Assign (Mem (r_state_name reg) (f_name f))
     (AddW (Ref (Mem (r_state_name reg) (f_name f))) (Num 1))"

definition carry_expr :: "csr_reg \<Rightarrow> csr_field \<Rightarrow> aexpr" where
  "carry_expr low_reg low_field =
     LAnd (sig (the (f_hw_increment_when low_field)))
       (Paren (EqE (Ref (Mem (r_state_name low_reg) (f_name low_field)))
          (HexLit (f_width low_field) (low_max_digits (f_width low_field)))))"

definition increment_stmts :: "csr_design \<Rightarrow> csr_reg \<Rightarrow> csr_field \<Rightarrow> astmt list res" where
  "increment_stmts design reg f =
     (if truthy (f_hw_increment_when f) then
        Inr [IfS (sig (the (f_hw_increment_when f))) [bump_stmt reg f]]
      else if truthy (f_hw_increment_high_of f) then
        res_bind (next_reg design (the (f_hw_increment_high_of f))) (\<lambda>low_reg.
        res_bind (next_counter low_reg) (\<lambda>low_field.
        Inr [IfS (carry_expr low_reg low_field) [bump_stmt reg f]]))
      else Inr [])"

section \<open>Reading a register\<close>

definition zero_expr :: "nat \<Rightarrow> aexpr" where
  "zero_expr w = (if w = 1 then FalseE else HexLit w ''0'')"

definition field_read_expr :: "csr_field \<Rightarrow> string \<Rightarrow> aexpr" where
  "field_read_expr f st =
     (if f_wpri f \<or> \<not> f_sw_readable f then zero_expr (f_width f) else Ref (Mem st (f_name f)))"

definition gap_expr :: "int \<Rightarrow> aexpr list" where
  "gap_expr n = (if n > 0 then [HexLit (nat n) ''0''] else [])"

fun read_part_exprs :: "string \<Rightarrow> int \<Rightarrow> csr_field list \<Rightarrow> aexpr list" where
  "read_part_exprs st next_bit [] = gap_expr (next_bit + 1)"
| "read_part_exprs st next_bit (f # fs) =
     gap_expr (next_bit - int (f_msb f)) @ [field_read_expr f st]
     @ read_part_exprs st (int (f_lsb f) - 1) fs"

definition reg_value_expr :: "csr_reg \<Rightarrow> nat \<Rightarrow> aexpr" where
  "reg_value_expr reg xlen =
     (if r_fields reg = [] then zero_expr xlen
      else
        let parts = read_part_exprs (r_state_name reg) (int (r_regwidth reg) - 1)
                      (sort_key_desc f_lsb (r_fields reg));
            body = (if length parts = 1 then hd parts else Concat parts) in
        if r_regwidth reg < xlen then Concat [HexLit (xlen - r_regwidth reg) ''0'', body] else body)"

section \<open>The module\<close>

definition seq_stmts :: "csr_design \<Rightarrow> astmt list list \<Rightarrow> astmt list" where
  "seq_stmts design increments =
     map (\<lambda>s. Assign (Sig (s @ ''_r'')) FalseE) (trap_signals design)
     @ concat (map (\<lambda>reg. concat (map (hwif_stmts reg) (r_fields reg))) (d_regs design))
     @ concat increments @ write_stmts design"

definition hwif_out_drives :: "csr_design \<Rightarrow> (aref \<times> nat \<times> aexpr) list" where
  "hwif_out_drives design =
     concat (map (\<lambda>reg.
       concat (map (\<lambda>f. if f_hw_readable f
           then [(Mem ''hwif_out'' (r_name reg @ ''_'' @ f_name f), 1,
                  Ref (Mem (r_state_name reg) (f_name f)))] else []) (r_fields reg))
       @ [(Mem ''hwif_out'' (r_name reg @ ''_rdata_flat''), 1, reg_value_expr reg (d_xlen design))])
     (d_regs design))"

definition csr_items :: "csr_design \<Rightarrow> astmt list list \<Rightarrow> aitem list" where
  "csr_items design increments =
     [PortI ''clk'' '' in Clock<SysDomain>'', PortI ''rst'' '' in Reset<Async, Low>'',
      PortI ''csr'' ('' target '' @ d_csr_file_bus design), PortI ''granted'' '' in Bool'']
     @ map (\<lambda>s. PortI s '' out Bool'') (trap_signals design)
     @ map (\<lambda>p. PortI p '' in Bool'') (increment_enables design)
     @ [PortI ''hwif_in'' (''  in '' @ d_hwif_in_struct design),
        PortI ''hwif_out'' ('' out '' @ d_hwif_out_struct design), Blank, DefaultSeq, Blank]
     @ map (\<lambda>reg. RegStructI (r_state_name reg) (r_struct_name reg)
         (map (\<lambda>f. (f_name f, f_reset f)) (r_fields reg))) (d_regs design)
     @ [Blank]
     @ map (\<lambda>s. RegI (s @ ''_r'') TBool FalseE) (trap_signals design)
     @ [Blank,
        LetI ''csr_rdata_mux'' 1 (TUInt (d_xlen design))
          (MatchE 1 (csr_port ''cmd_addr'')
            (map (\<lambda>reg. (HexLit 12 (nat_hex (r_address reg)), reg_value_expr reg (d_xlen design)))
              (d_regs design))
            (Num 0)),
        Blank, SeqI (seq_stmts design increments), Blank,
        CombI ([(Mem ''csr'' ''cmd_ready'', 1, TrueE),
                (Mem ''csr'' ''rsp_valid'', 1, csr_port ''cmd_valid''),
                (Mem ''csr'' ''rsp_rdata'', 1,
                   CondE (csr_port ''cmd_valid'') (sig ''csr_rdata_mux'') (Num 0))]
          @ map (\<lambda>s. (Sig s, 1, sig (s @ ''_r''))) (trap_signals design)
          @ hwif_out_drives design),
        Blank]"

definition warl_nonempty :: "csr_field \<Rightarrow> bool" where
  "warl_nonempty f \<longleftrightarrow> f_warl f \<noteq> Some (Enum [])"

definition csr_module :: "csr_design \<Rightarrow> amodule res" where
  "csr_module design =
     res_bind (res_map (\<lambda>reg. res_bind (res_map (increment_stmts design reg) (r_fields reg))
        (\<lambda>ls. Inr (concat ls))) (d_regs design)) (\<lambda>increments.
     if \<exists>reg \<in> set (d_regs design). \<exists>f \<in> set (r_fields reg). sw_writes f \<and> \<not> warl_nonempty f
     then Inl IndexError
     else Inr \<lparr>am_use = Some (d_package_name design), am_name = d_module_name design,
               am_items = csr_items design increments\<rparr>)"

section \<open>Rendering the write block\<close>

lemma slice_text [simp]: "render_expr (slice_expr f) = [wdata_slice f]"
  by (simp add: slice_expr_def wdata_slice_def)

lemma op_match_text: "render_expr (op_match_expr f old) = opcode_match_lines f (render_ref old)"
  by (simp add: op_match_expr_def opcode_match_lines_def Let_def)

lemma sort_remdups_Nil [simp]: "sort (remdups xs) = [] \<longleftrightarrow> xs = []"
  by (metis remdups_eq_nil_iff set_empty set_sort)

lemma field_write_text:
  assumes "sw_writes f" and "warl_nonempty f"
  shows "field_write_lines f st =
    Inr (glue (glue [st @ ''.'' @ f_name f @ '' <= ''] (render_expr (field_write_expr f (Mem st (f_name f)))))
      ['';''])"
  using assms
  by (auto simp: field_write_lines_def field_write_expr_def Let_def sw_writes_def warl_nonempty_def
      op_match_text opcode_match_lines_def middle_def comp_def split: option.splits warl.splits list.splits)

lemma field_write_none: "\<not> sw_writes f \<Longrightarrow> field_write_lines f st = Inr []"
  by (auto simp: field_write_lines_def sw_writes_def)

lemma field_write_error:
  "sw_writes f \<Longrightarrow> \<not> warl_nonempty f \<Longrightarrow> field_write_lines f st = Inl IndexError"
  by (auto simp: field_write_lines_def sw_writes_def warl_nonempty_def Let_def)

text \<open>Which lines of a block start a statement is decided from the text: these do not.\<close>

definition cont_line :: "string \<Rightarrow> bool" where
  "cont_line l \<longleftrightarrow> startswith '' '' l \<or> CHR ''<'' \<notin> set l"

definition start_line :: "string \<Rightarrow> bool" where
  "start_line l \<longleftrightarrow> contains '' <= '' l \<and> \<not> startswith '' '' l"

lemma block_indent_cont: "cont_line l \<Longrightarrow> block_indent l = blanks 12 @ l"
  by (auto simp: cont_line_def block_indent_def dest: contains_set)

lemma block_indent_start: "start_line l \<Longrightarrow> block_indent l = blanks 10 @ l"
  by (simp add: start_line_def block_indent_def)

definition clean :: "string \<Rightarrow> bool" where
  "clean s \<longleftrightarrow> \<not> startswith '' '' s"

lemma clean_append: "s \<noteq> [] \<Longrightarrow> clean (s @ t) = clean s"
  by (cases s) (auto simp: clean_def startswith_def)

lemma start_line_assign: "clean (a @ '' <= '') \<Longrightarrow> start_line (a @ '' <= '' @ b)"
  using contains_append [of "'' <= ''" a b]
  by (cases a) (auto simp: start_line_def clean_def startswith_def)

lemma no_angle [simp]: "CHR ''<'' \<notin> set (nat_hex n)" "CHR ''<'' \<notin> set (nat_dec n)"
  by (auto dest!: nat_hex_chars nat_dec_chars)

lemma startswith_blank_Cons [simp]: "startswith '' '' (c # s) \<longleftrightarrow> c = CHR '' ''"
  by (auto simp: startswith_def)

lemma field_block_indent:
  assumes "field_write_lines f st = Inr ls" and "sw_writes f" and "clean (st @ ''.'')"
  shows "map block_indent ls = indent_block 10 12 ls"
proof -
  have cl: "clean ((st @ ''.'' @ f_name f) @ '' <= '')"
    using assms(3) by (cases st) (auto simp: clean_def startswith_def)
  note starts = start_line_assign [OF cl, of "''match csr.cmd_op''", simplified]
    start_line_assign [OF cl, of "''(match csr.cmd_op''", simplified]
    start_line_assign [OF cl, of "''match (match csr.cmd_op''", simplified]
  obtain l ks where ls: "ls = l # ks" and "start_line l" and "\<forall>k \<in> set ks. cont_line k"
    using assms(1,2) starts
    by (auto simp: field_write_lines_def sw_writes_def Let_def opcode_match_lines_def middle_def
        cont_line_def split: option.splits warl.splits list.splits if_splits)
  then show ?thesis by (simp add: block_indent_start block_indent_cont)
qed

lemma pulse_block_indent:
  "(truthy s \<Longrightarrow> clean (the s)) \<Longrightarrow>
   map block_indent (pulse_line s) = concat (map (render_stmt 10) (pulse_stmts s))"
  using start_line_assign [of "the s @ ''_r''" "''true;''"]
  by (cases s) (auto simp: pulse_line_def pulse_stmts_def clean_append block_indent_start)

text \<open>The names the layout relies on: none starts with a blank.\<close>

definition clean_names :: "csr_reg \<Rightarrow> bool" where
  "clean_names reg \<longleftrightarrow> clean (r_state_name reg @ ''.'')
     \<and> (truthy (r_trap_signal reg) \<longrightarrow> clean (the (r_trap_signal reg)))
     \<and> (\<forall>f \<in> set (r_fields reg). truthy (f_trap_signal f) \<longrightarrow> clean (the (f_trap_signal f)))"

lemma field_stmts_text:
  assumes "clean_names reg" and "f \<in> set (r_fields reg)" and "warl_nonempty f"
  shows "res_bind (field_write_lines f (r_state_name reg)) (\<lambda>fl.
      Inr (if fl \<noteq> [] then fl @ pulse_line (f_trap_signal f) else [])) = Inr ls \<Longrightarrow>
    map block_indent ls = concat (map (render_stmt 10) (field_stmts reg f))"
proof (cases "sw_writes f")
  case True
  assume *: "res_bind (field_write_lines f (r_state_name reg)) (\<lambda>fl.
      Inr (if fl \<noteq> [] then fl @ pulse_line (f_trap_signal f) else [])) = Inr ls"
  let ?L = "glue (glue [r_state_name reg @ ''.'' @ f_name f @ '' <= '']
    (render_expr (field_write_expr f (Mem (r_state_name reg) (f_name f))))) ['';'']"
  have L: "field_write_lines f (r_state_name reg) = Inr ?L"
    by (rule field_write_text [OF True assms(3)])
  have ne: "?L \<noteq> []" by simp
  have "map block_indent ?L = indent_block 10 12 ?L"
    using assms(1) by (intro field_block_indent [OF L True]) (simp add: clean_names_def)
  moreover have "map block_indent (pulse_line (f_trap_signal f))
      = concat (map (render_stmt 10) (pulse_stmts (f_trap_signal f)))"
    using assms(1,2) by (intro pulse_block_indent) (auto simp: clean_names_def)
  ultimately show ?thesis using * L ne True by (auto simp: field_stmts_def)
qed (simp add: field_write_none field_stmts_def)

definition warl_bad :: "csr_reg \<Rightarrow> bool" where
  "warl_bad reg \<longleftrightarrow> (\<exists>f \<in> set (r_fields reg). sw_writes f \<and> \<not> warl_nonempty f)"

text \<open>The lines of the write block of a register, before indentation.\<close>

definition field_block :: "csr_reg \<Rightarrow> csr_field \<Rightarrow> string list" where
  "field_block reg f =
     (if sw_writes f
      then glue (glue [r_state_name reg @ ''.'' @ f_name f @ '' <= '']
             (render_expr (field_write_expr f (Mem (r_state_name reg) (f_name f))))) ['';'']
           @ pulse_line (f_trap_signal f)
      else [])"

lemma reg_block_eq:
  "reg_block reg = (if warl_bad reg then Inl IndexError
     else Inr (concat (map (field_block reg) (r_fields reg)) @ pulse_line (r_trap_signal reg)))"
proof -
  have "res_bind (field_write_lines f (r_state_name reg)) (\<lambda>fl.
       Inr (if fl \<noteq> [] then fl @ pulse_line (f_trap_signal f) else []))
     = (if sw_writes f \<and> \<not> warl_nonempty f then Inl IndexError else Inr (field_block reg f))" for f
    by (auto simp: field_write_none field_write_error field_write_text field_block_def)
  then show ?thesis
    by (simp add: reg_block_def res_map_error [where e = IndexError] warl_bad_def)
qed

lemma field_block_indent_stmts:
  assumes "clean_names reg" and "f \<in> set (r_fields reg)" and "\<not> warl_bad reg"
  shows "map block_indent (field_block reg f) = concat (map (render_stmt 10) (field_stmts reg f))"
proof (cases "sw_writes f")
  case True
  with assms have ne: "warl_nonempty f" by (auto simp: warl_bad_def)
  show ?thesis
    by (rule field_stmts_text [OF assms(1,2) ne])
      (simp add: field_write_text [OF True ne] field_block_def True)
qed (simp add: field_block_def field_stmts_def)

lemma block_text:
  assumes "clean_names reg" and "\<not> warl_bad reg"
  shows "map block_indent (concat (map (field_block reg) (r_fields reg)) @ pulse_line (r_trap_signal reg))
     = concat (map (render_stmt 10) (reg_stmts reg))"
proof -
  let ?fs = "r_fields reg"
  have "map block_indent (concat (map (field_block reg) ?fs))
      = concat (map (\<lambda>f. map block_indent (field_block reg f)) ?fs)"
    by (simp add: map_concat comp_def)
  also have "\<dots> = concat (map (\<lambda>f. concat (map (render_stmt 10) (field_stmts reg f))) ?fs)"
    using field_block_indent_stmts [OF assms(1) _ assms(2)] by (simp cong: map_cong)
  also have "\<dots> = concat (map (render_stmt 10) (concat (map (field_stmts reg) ?fs)))"
    by (simp only: concat_map_concat_map)
  finally have fields: "map block_indent (concat (map (field_block reg) ?fs)) = \<dots>" .
  have "map block_indent (pulse_line (r_trap_signal reg))
      = concat (map (render_stmt 10) (pulse_stmts (r_trap_signal reg)))"
    using assms(1) by (intro pulse_block_indent) (simp add: clean_names_def)
  with fields show ?thesis by (simp only: reg_stmts_def map_append concat_append)
qed

lemma block_empty_iff:
  assumes "clean_names reg" and "\<not> warl_bad reg"
  shows "concat (map (field_block reg) (r_fields reg)) @ pulse_line (r_trap_signal reg) = []
     \<longleftrightarrow> reg_stmts reg = []"
proof -
  have "concat (map (render_stmt 10) ss) = [] \<longleftrightarrow> ss = []" for ss by (cases ss) auto
  then show ?thesis using block_text [OF assms] by (metis map_is_Nil_conv)
qed

lemma write_text:
  assumes "\<forall>reg \<in> set (d_regs design). clean_names reg \<and> \<not> warl_bad reg"
  shows "write_lines (filter (\<lambda>(reg, b). b \<noteq> []) (map (\<lambda>reg. (reg,
      concat (map (field_block reg) (r_fields reg)) @ pulse_line (r_trap_signal reg))) (d_regs design)))
    = concat (map (render_stmt 4) (write_stmts design))"
proof -
  let ?b = "\<lambda>reg. concat (map (field_block reg) (r_fields reg)) @ pulse_line (r_trap_signal reg)"
  have "filter (\<lambda>reg. ?b reg \<noteq> []) (d_regs design) = written_regs design"
    unfolding written_regs_def using assms by (intro filter_cong refl) (metis block_empty_iff)
  then have f: "filter (\<lambda>(reg, b). b \<noteq> []) (map (\<lambda>reg. (reg, ?b reg)) (d_regs design))
      = map (\<lambda>reg. (reg, ?b reg)) (written_regs design)"
    by (simp add: filter_map comp_def)
  have r: "[''        if csr.cmd_addr == 12'' @ sq @ ''h'' @ nat_hex (r_address reg)]
          @ map block_indent (?b reg) @ [''        end if''] = render_stmt 8 (reg_write_stmt reg)"
    if "reg \<in> set (written_regs design)" for reg
    using that assms block_text [of reg] by (simp add: written_regs_def reg_write_stmt_def)
  have rs: "concat (map (\<lambda>(reg, block).
          [''        if csr.cmd_addr == 12'' @ sq @ ''h'' @ nat_hex (r_address reg)]
          @ map block_indent block @ [''        end if'']) (map (\<lambda>reg. (reg, ?b reg)) (written_regs design)))
      = concat (map (render_stmt 8) (map reg_write_stmt (written_regs design)))"
    using r by (auto simp: comp_def intro!: arg_cong [where f = concat])
  show ?thesis
    unfolding f write_lines_def rs by (simp add: write_stmts_def)
qed

section \<open>Rendering the rest\<close>

lemma increment_text:
  "increment_lines design reg f
   = res_bind (increment_stmts design reg f) (\<lambda>ss. Inr (concat (map (render_stmt 4) ss)))"
  by (auto simp: increment_lines_def increment_stmts_def bump_line_def bump_stmt_def carry_expr_def
      next_reg_def next_counter_def Let_def split: option.splits)

lemma gap_text:
  "map render_expr (gap_expr n) = map (\<lambda>s. [s]) (if n > 0 then [int_dec n @ sq @ ''h0''] else [])"
  by (simp add: gap_expr_def int_dec_def)

lemma field_read_text: "render_expr (field_read_expr f st) = [field_read_value f st]"
  by (simp add: field_read_expr_def field_read_value_def zero_expr_def zero_lit_def)

lemma read_parts_text: "map render_expr (read_part_exprs st n fs) = map (\<lambda>s. [s]) (read_parts st n fs)"
  by (induction st n fs rule: read_part_exprs.induct)
    (simp_all add: gap_text field_read_text)

lemma read_part_exprs_length: "length (read_part_exprs st n fs) = length (read_parts st n fs)"
  using arg_cong [OF read_parts_text, of length st n fs] by simp

lemma reg_value_text: "render_expr (reg_value_expr reg xlen) = [reg_read_expr reg xlen]"
proof (cases "r_fields reg = []")
  case False
  let ?st = "r_state_name reg" and ?n = "int (r_regwidth reg) - 1"
  let ?fs = "sort_key_desc f_lsb (r_fields reg)"
  let ?es = "read_part_exprs ?st ?n ?fs" and ?ss = "read_parts ?st ?n ?fs"
  have "length ?fs > 0" using False by simp
  then have es: "?es \<noteq> []" by (cases ?fs) auto
  have one: "render_expr (hd ?es) = [hd ?ss]"
    using es read_parts_text [of ?st ?n ?fs] by (metis list.map_sel(1) map_is_Nil_conv)
  have body: "render_expr (if length ?es = 1 then hd ?es else Concat ?es)
      = [if length ?ss = 1 then hd ?ss else ''{'' @ join '', '' ?ss @ ''}'']"
    using one concat_text [OF es read_parts_text] by (simp add: read_part_exprs_length)
  show ?thesis
    using body False by (simp add: reg_value_expr_def reg_read_expr_def Let_def)
qed (simp add: reg_value_expr_def reg_read_expr_def zero_expr_def zero_lit_def)

section \<open>The whole module\<close>

lemma mux_text:
  "render_item (LetI ''csr_rdata_mux'' 1 (TUInt xlen) (MatchE 1 (csr_port ''cmd_addr'')
     (map (\<lambda>reg. (HexLit 12 (nat_hex (r_address reg)), reg_value_expr reg xlen)) regs) (Num 0)))
   = [''  let csr_rdata_mux: UInt<'' @ nat_dec xlen @ ''> = match csr.cmd_addr'']
     @ map (\<lambda>reg. ''    12'' @ sq @ ''h'' @ nat_hex (r_address reg) @ '' => ''
         @ reg_read_expr reg xlen @ '','') regs
     @ [''    _ => 0'', ''  end match;'']"
  by (simp add: reg_value_text comp_def)

lemma hwif_out_text: "concat (map render_drive (hwif_out_drives design)) = hwif_out_lines design"
  by (simp add: hwif_out_drives_def hwif_out_lines_def concat_map_concat_map concat_map_if
      reg_value_text cong: if_cong)

lemma seq_text:
  assumes "\<forall>reg \<in> set (d_regs design). clean_names reg \<and> \<not> warl_bad reg"
  shows "concat (map (render_stmt 4) (seq_stmts design increments))
    = map (\<lambda>s. ''    '' @ s @ ''_r <= false;'') (trap_signals design)
      @ concat (map (\<lambda>reg. concat (map (\<lambda>f. if f_hw_writable f
            then [''    '' @ r_state_name reg @ ''.'' @ f_name f @ '' <= hwif_in.'' @ r_name reg @ ''_''
                  @ f_name f @ '';''] else []) (r_fields reg))) (d_regs design))
      @ concat (map (\<lambda>ss. concat (map (render_stmt 4) ss)) increments)
      @ write_lines (filter (\<lambda>(reg, b). b \<noteq> []) (map (\<lambda>reg. (reg,
          concat (map (field_block reg) (r_fields reg)) @ pulse_line (r_trap_signal reg))) (d_regs design)))"
proof -
  have h: "concat (map (render_stmt 4) (hwif_stmts reg f)) = (if f_hw_writable f
      then [''    '' @ r_state_name reg @ ''.'' @ f_name f @ '' <= hwif_in.'' @ r_name reg @ ''_''
            @ f_name f @ '';''] else [])" for reg f
    by (simp add: hwif_stmts_def)
  have i: "concat (map (render_stmt 4) (concat increments))
      = concat (map (\<lambda>ss. concat (map (render_stmt 4) ss)) increments)"
    by (induction increments) auto
  show ?thesis
    unfolding write_text [OF assms]
    by (simp add: seq_stmts_def concat_map_concat_map h i comp_def)
qed

lemma increments_text:
  "res_map (\<lambda>reg. res_bind (res_map (increment_lines design reg) (r_fields reg))
      (\<lambda>ls. Inr (concat ls))) regs
   = res_bind (res_map (\<lambda>reg. res_bind (res_map (increment_stmts design reg) (r_fields reg))
      (\<lambda>ls. Inr (concat ls))) regs) (\<lambda>incs. Inr (map (\<lambda>ss. concat (map (render_stmt 4) ss)) incs))"
proof -
  have cc: "concat (map (\<lambda>ss. concat (map (render_stmt 4) ss)) xs) = concat (map (render_stmt 4) (concat xs))" for xs
    by (induction xs) auto
  have one: "res_bind (res_map (increment_lines design reg) (r_fields reg)) (\<lambda>ls. Inr (concat ls))
     = res_bind (res_bind (res_map (increment_stmts design reg) (r_fields reg)) (\<lambda>ls. Inr (concat ls)))
         (\<lambda>ss. Inr (concat (map (render_stmt 4) ss)))" for reg
    unfolding res_map_post [OF increment_text]
    by (cases "res_map (increment_stmts design reg) (r_fields reg)") (simp_all add: cc)
  show ?thesis by (rule res_map_post) (rule one)
qed

text \<open>
  The emitted text is the rendering of the module, and the emitter raises exactly when there is
  no module.
\<close>

lemma csr_file_text:
  assumes "\<forall>reg \<in> set (d_regs design). clean_names reg"
  shows "emit_csr_file design = res_bind (csr_module design) (\<lambda>m. Inr (render_module m))"
proof -
  let ?incs = "res_map (\<lambda>reg. res_bind (res_map (increment_stmts design reg) (r_fields reg))
        (\<lambda>ls. Inr (concat ls))) (d_regs design)"
  let ?bad = "\<exists>reg \<in> set (d_regs design). warl_bad reg"
  have blocks: "res_map (\<lambda>reg. res_bind (reg_block reg) (\<lambda>b. Inr (reg, b))) (d_regs design)
      = (if ?bad then Inl IndexError else Inr (map (\<lambda>reg. (reg,
           concat (map (field_block reg) (r_fields reg)) @ pulse_line (r_trap_signal reg))) (d_regs design)))"
    by (rule res_map_error) (simp add: reg_block_eq)
  have md: "csr_module design = res_bind ?incs (\<lambda>incs. if ?bad then Inl IndexError
      else Inr \<lparr>am_use = Some (d_package_name design), am_name = d_module_name design,
               am_items = csr_items design incs\<rparr>)"
    by (simp add: csr_module_def warl_bad_def)
  show ?thesis
  proof (cases ?incs)
    case (Inl e)
    then show ?thesis by (simp add: emit_csr_file_def md increments_text Let_def)
  next
    case (Inr incs)
    show ?thesis
    proof (cases ?bad)
      case True
      then show ?thesis
        unfolding emit_csr_file_def md increments_text Let_def Inr blocks by simp
    next
      case False
      with assms have ok: "\<forall>reg \<in> set (d_regs design). clean_names reg \<and> \<not> warl_bad reg"
        by blast
      have "emit_csr_file design = Inr (render_module \<lparr>am_use = Some (d_package_name design),
          am_name = d_module_name design, am_items = csr_items design incs\<rparr>)"
        unfolding emit_csr_file_def Let_def blocks if_not_P [OF False] increments_text Inr res_bind_simps
          render_module_def
        by (rule arg_cong [where f = "\<lambda>ls. Inr (join newline ls)"])
          (simp add: csr_items_def seq_text [OF ok] hwif_out_text reset_struct_literal_def
            mux_text [simplified] comp_def reg_value_text)
      then show ?thesis using False by (simp add: md Inr)
    qed
  qed
qed

end
