(* ===== verification/CsrSem.thy ===== *)
theory CsrSem
  imports CsrSyntax Fixtures
begin

text \<open>
  What the emitted CSR file does: one clock edge of its \<^verbatim>\<open>seq\<close> block. \<open>csr_next\<close> is the rule for a
  field in the terms of the docstring (a granted software write wins over the counter, which wins
  over the hardware drive); \<open>csr_field_step\<close> proves that the module computes it.
\<close>

section \<open>The specification of a software write\<close>

definition op_value :: "nat \<Rightarrow> nat \<Rightarrow> nat \<Rightarrow> nat \<Rightarrow> nat" where
  "op_value w opc old new =
     (if opc = 1 then new else if opc = 2 then old OR new
      else if opc = 3 then old AND (2 ^ w - 1 - new) else old)"

text \<open>What a write may leave in a field: the mask keeps its bits, a list keeps its members and
  replaces everything else by its least element.\<close>

definition legalize :: "nat \<Rightarrow> warl option \<Rightarrow> nat \<Rightarrow> nat" where
  "legalize w rule v =
     (case rule of
        None \<Rightarrow> v
      | Some (Mask m) \<Rightarrow> v AND mask_value w m
      | Some (Enum xs) \<Rightarrow> if int v \<in> set xs then v else nat (Min (set xs)))"

definition legal :: "nat \<Rightarrow> warl option \<Rightarrow> nat \<Rightarrow> bool" where
  "legal w rule v \<longleftrightarrow>
     (case rule of
        None \<Rightarrow> True
      | Some (Mask m) \<Rightarrow> v AND mask_value w m = v
      | Some (Enum xs) \<Rightarrow> int v \<in> set xs)"

definition field_slice :: "csr_field \<Rightarrow> nat \<Rightarrow> nat" where
  "field_slice f wdata = take_bit (f_width f) (drop_bit (f_lsb f) wdata)"

definition sw_value :: "csr_field \<Rightarrow> nat \<Rightarrow> nat \<Rightarrow> nat \<Rightarrow> nat" where
  "sw_value f opc old wdata =
     legalize (f_width f) (f_warl f) (op_value (f_width f) opc old (field_slice f wdata))"

section \<open>Legalization is a contract\<close>

text \<open>
  What the rest relies on: the result is always legal, a legal value is kept, and the width is
  respected. Idempotence follows.
\<close>

locale legalizer =
  fixes coerce :: "'f \<Rightarrow> nat \<Rightarrow> nat" and ok :: "'f \<Rightarrow> nat \<Rightarrow> bool"
    and width :: "'f \<Rightarrow> nat" and wf :: "'f \<Rightarrow> bool"
  assumes coerce_ok: "wf f \<Longrightarrow> v < 2 ^ width f \<Longrightarrow> ok f (coerce f v)"
    and coerce_id: "wf f \<Longrightarrow> v < 2 ^ width f \<Longrightarrow> ok f v \<Longrightarrow> coerce f v = v"
    and coerce_fits: "wf f \<Longrightarrow> v < 2 ^ width f \<Longrightarrow> coerce f v < 2 ^ width f"
begin

lemma coerce_idem: "wf f \<Longrightarrow> v < 2 ^ width f \<Longrightarrow> coerce f (coerce f v) = coerce f v"
  by (simp add: coerce_id coerce_ok coerce_fits)

lemma fixed_iff: "wf f \<Longrightarrow> v < 2 ^ width f \<Longrightarrow> coerce f v = v \<longleftrightarrow> ok f v"
  by (metis coerce_id coerce_ok)

end

definition warl_fits :: "csr_field \<Rightarrow> bool" where
  "warl_fits f \<longleftrightarrow>
     (case f_warl f of
        Some (Enum xs) \<Rightarrow> xs \<noteq> [] \<and> (\<forall>x \<in> set xs. 0 \<le> x \<and> x < 2 ^ f_width f)
      | _ \<Rightarrow> True)"

lemma mask_value_less: "mask_value w m < 2 ^ w"
proof -
  have "take_bit w m < 2 ^ w" "0 \<le> take_bit w m" by simp_all
  then show ?thesis by (simp add: mask_value_def nat_less_iff)
qed

lemma hd_sort: "xs \<noteq> [] \<Longrightarrow> hd (sort (remdups xs)) = Min (set xs)" for xs :: "int list"
proof -
  assume "xs \<noteq> []"
  then obtain y ys where s: "sort (remdups xs) = y # ys" by (cases "sort (remdups xs)") auto
  have "sorted (y # ys)" using s by (metis sorted_sort)
  then have "\<forall>z \<in> set xs. y \<le> z" using s by (metis set_ConsD set_remdups set_sort sorted_simps(2) order_refl)
  moreover have "y \<in> set xs" using s by (metis list.set_intros(1) set_remdups set_sort)
  ultimately show ?thesis using s by (auto intro: Min_eqI [symmetric])
qed

lemma enum_least:
  assumes "warl_fits f" and "f_warl f = Some (Enum xs)"
  shows "0 \<le> Min (set xs)" "Min (set xs) < 2 ^ f_width f" "Min (set xs) \<in> set xs"
proof -
  from assms have "xs \<noteq> []" and fits: "\<forall>x \<in> set xs. 0 \<le> x \<and> x < 2 ^ f_width f"
    by (simp_all add: warl_fits_def)
  then show "Min (set xs) \<in> set xs" by simp
  with fits show "0 \<le> Min (set xs)" "Min (set xs) < 2 ^ f_width f" by blast+
qed

interpretation warl: legalizer
  "\<lambda>f. legalize (f_width f) (f_warl f)" "\<lambda>f. legal (f_width f) (f_warl f)" f_width warl_fits
proof
  fix f :: csr_field and v :: nat
  assume fits: "warl_fits f" and v: "v < 2 ^ f_width f"
  show "legal (f_width f) (f_warl f) (legalize (f_width f) (f_warl f) v)"
    using enum_least [OF fits]
    by (auto simp: legal_def legalize_def and.assoc split: option.splits warl.splits)
  show "legalize (f_width f) (f_warl f) v < 2 ^ f_width f"
    using enum_least [OF fits] v
    by (auto simp: legalize_def and_less_pow nat_less_iff split: option.splits warl.splits)
  assume "legal (f_width f) (f_warl f) v"
  then show "legalize (f_width f) (f_warl f) v = v"
    by (auto simp: legal_def legalize_def split: option.splits warl.splits)
qed

section \<open>Well-formed designs and environments\<close>

definition field_layout :: "csr_reg \<Rightarrow> csr_field \<Rightarrow> bool" where
  "field_layout reg f \<longleftrightarrow>
     f_lsb f \<le> f_msb f \<and> f_width f = Suc (f_msb f - f_lsb f) \<and> f_msb f < r_regwidth reg"

definition reg_layout :: "csr_reg \<Rightarrow> bool" where
  "reg_layout reg \<longleftrightarrow>
     distinct (r_fields reg) \<and> distinct (map f_name (r_fields reg))
     \<and> (\<forall>f \<in> set (r_fields reg). field_layout reg f)
     \<and> (\<forall>f \<in> set (r_fields reg). \<forall>g \<in> set (r_fields reg).
          f \<noteq> g \<longrightarrow> f_msb f < f_lsb g \<or> f_msb g < f_lsb f)"

text \<open>
  What the RDL compiler and the naming functions guarantee of a scanned design (fields inside
  their register and disjoint, state names unique and different from the port names), that
  addresses have twelve bits, WARL lists fit their field, a linked counter has at least four bits
  (the carry literal has one digit per four bits), and that the design was validated.
\<close>

definition wf_design :: "csr_design \<Rightarrow> bool" where
  "wf_design d \<longleftrightarrow>
     validate d = Inr () \<and> addresses_fit d
     \<and> distinct (map r_state_name (d_regs d))
     \<and> (\<forall>reg \<in> set (d_regs d). reg_layout reg \<and> r_state_name reg \<noteq> ''csr''
          \<and> r_state_name reg \<noteq> ''hwif_in''
          \<and> (\<forall>f \<in> set (r_fields reg). warl_fits f
               \<and> f_hw_increment_when f \<noteq> Some ''csr_rdata_mux''
               \<and> (truthy (f_hw_increment_high_of f) \<longrightarrow> 4 \<le> f_width f)))"

abbreviation fref :: "csr_reg \<Rightarrow> csr_field \<Rightarrow> aref" where
  "fref reg f \<equiv> Mem (r_state_name reg) (f_name f)"

definition csr_env :: "csr_design \<Rightarrow> env \<Rightarrow> bool" where
  "csr_env d \<rho> \<longleftrightarrow>
     sized 1 (\<rho> (Mem ''csr'' ''cmd_valid'')) \<and> sized 12 (\<rho> (Mem ''csr'' ''cmd_addr''))
     \<and> sized 2 (\<rho> (Mem ''csr'' ''cmd_op'')) \<and> sized (d_xlen d) (\<rho> (Mem ''csr'' ''cmd_wdata''))
     \<and> sized 1 (\<rho> (Sig ''granted''))
     \<and> (\<forall>reg \<in> set (d_regs d). \<forall>f \<in> set (r_fields reg).
          sized (f_width f) (\<rho> (fref reg f))
          \<and> (f_hw_writable f \<longrightarrow> sized (f_width f) (\<rho> (Mem ''hwif_in'' (r_name reg @ ''_'' @ f_name f)))))"

text \<open>The command of the current cycle.\<close>

definition cmd_fires :: "env \<Rightarrow> bool" where
  "cmd_fires \<rho> \<longleftrightarrow> isset (\<rho> (Mem ''csr'' ''cmd_valid'')) \<and> isset (\<rho> (Sig ''granted''))
     \<and> bn (\<rho> (Mem ''csr'' ''cmd_op'')) \<noteq> 0"

definition sw_hits :: "env \<Rightarrow> csr_reg \<Rightarrow> bool" where
  "sw_hits \<rho> reg \<longleftrightarrow> cmd_fires \<rho> \<and> bn (\<rho> (Mem ''csr'' ''cmd_addr'')) = r_address reg"

lemma wf_designD:
  assumes "wf_design d" and "reg \<in> set (d_regs d)"
  shows "valid_reg d reg" "r_address reg < 2 ^ 12" "reg_layout reg"
    "r_state_name reg \<noteq> ''csr''" "r_state_name reg \<noteq> ''hwif_in''"
    "r_regwidth reg \<le> d_xlen d"
  using assms by (auto simp: wf_design_def addresses_fit_def validate_Inr_iff valid_reg_def)

lemma wf_fieldD:
  assumes "wf_design d" and "reg \<in> set (d_regs d)" and "f \<in> set (r_fields reg)"
  shows "valid_field d f" "field_layout reg f" "warl_fits f" "f_width f \<noteq> 0"
    "f_hw_increment_when f \<noteq> Some ''csr_rdata_mux''" "f_msb f < d_xlen d"
    "truthy (f_hw_increment_high_of f) \<Longrightarrow> 4 \<le> f_width f"
  using assms by (fastforce simp: wf_design_def validate_Inr_iff valid_reg_def reg_layout_def field_layout_def)+

lemma fref_inj:
  assumes "wf_design d" and "reg \<in> set (d_regs d)" "f \<in> set (r_fields reg)"
    and "reg' \<in> set (d_regs d)" "f' \<in> set (r_fields reg')" and "fref reg f = fref reg' f'"
  shows "reg = reg' \<and> f = f'"
proof -
  have "reg = reg'" using assms by (auto simp: wf_design_def distinct_map inj_on_def)
  moreover have "f = f'"
    using assms calculation by (auto simp: wf_design_def reg_layout_def distinct_map inj_on_def)
  ultimately show ?thesis by simp
qed

lemma wf_distinct: "wf_design d \<Longrightarrow> distinct (d_regs d)" "wf_design d \<Longrightarrow> reg \<in> set (d_regs d) \<Longrightarrow> distinct (r_fields reg)"
  by (auto simp: wf_design_def reg_layout_def distinct_map)

section \<open>Evaluating the write expressions\<close>

lemma field_slice_less: "field_slice f v < 2 ^ f_width f"
  by (simp add: field_slice_def)

context arch_hdl
begin

lemma ev_slice_expr:
  assumes "field_layout reg f" and "f_msb f < xlen" and "sized xlen (\<rho> (Mem ''csr'' ''cmd_wdata''))"
  shows "ev \<rho> (slice_expr f) = BV (f_width f) (field_slice f (bn (\<rho> (Mem ''csr'' ''cmd_wdata''))))"
proof (cases "f_width f = 1")
  case True
  with assms(1) have "f_msb f = f_lsb f" by (simp add: field_layout_def)
  with True assms show ?thesis
    by (simp add: slice_expr_def ev_bit ev_ref sizedD field_slice_def bit1_def of_bool_odd_eq_mod_2
        bit_iff_odd_drop_bit take_bit_eq_mod)
next
  case False
  with assms show ?thesis
    by (simp add: slice_expr_def ev_slice ev_ref sizedD field_slice_def field_layout_def)
qed

lemma ev_op_match:
  assumes lay: "field_layout reg f" "f_msb f < xlen"
    and wd: "sized xlen (\<rho> (Mem ''csr'' ''cmd_wdata''))" and opc: "sized 2 (\<rho> (Mem ''csr'' ''cmd_op''))"
    and old: "sized (f_width f) (\<rho> old)"
  shows "ev \<rho> (op_match_expr f old) = BV (f_width f)
    (op_value (f_width f) (bn (\<rho> (Mem ''csr'' ''cmd_op''))) (bn (\<rho> old))
      (field_slice f (bn (\<rho> (Mem ''csr'' ''cmd_wdata'')))))"
proof -
  let ?new = "field_slice f (bn (\<rho> (Mem ''csr'' ''cmd_wdata'')))"
  note sl = ev_slice_expr [OF lay, of \<rho>, OF wd]
  have old': "ev \<rho> (Ref old) = BV (f_width f) (bn (\<rho> old))"
    using sizedD(1) [OF old] by (simp add: ev_ref) (metis bv.collapse)
  have inv: "ev \<rho> (Paren (BNot (slice_expr f))) = BV (f_width f) (2 ^ f_width f - 1 - ?new)"
    using field_slice_less [of f] by (simp add: ev_paren ev_not sl well_sized_def)
  show ?thesis
    using inv by (simp add: op_match_expr_def ev_match_cons ev_match_nil ev_bin ev_ref [of _ "Mem ''csr'' m" for m]
        sl old' ev_or ev_and op_value_def)
qed

end

text \<open>
  The counter rule: the field counts when its enable is high; a high half counts when the low
  half's enable is high and the low half is at its maximum.
\<close>

definition bumps :: "csr_design \<Rightarrow> env \<Rightarrow> csr_field \<Rightarrow> bool" where
  "bumps d \<rho> f =
     (if truthy (f_hw_increment_when f) then isset (\<rho> (Sig (the (f_hw_increment_when f))))
      else if truthy (f_hw_increment_high_of f) then
        (case find_reg d (the (f_hw_increment_high_of f)) of
           None \<Rightarrow> False
         | Some low_reg \<Rightarrow>
             (case low_counter_fields low_reg of
                [] \<Rightarrow> False
              | low # _ \<Rightarrow> isset (\<rho> (Sig (the (f_hw_increment_when low))))
                  \<and> bn (\<rho> (fref low_reg low)) = 2 ^ (4 * (f_width low div 4)) - 1))
      else False)"

definition csr_next :: "csr_design \<Rightarrow> env \<Rightarrow> csr_reg \<Rightarrow> csr_field \<Rightarrow> nat" where
  "csr_next d \<rho> reg f =
     (let old = bn (\<rho> (fref reg f)) in
      if sw_writes f \<and> sw_hits \<rho> reg
      then sw_value f (bn (\<rho> (Mem ''csr'' ''cmd_op''))) old (bn (\<rho> (Mem ''csr'' ''cmd_wdata'')))
      else if bumps d \<rho> f then (old + 1) mod 2 ^ f_width f
      else if f_hw_writable f then bn (\<rho> (Mem ''hwif_in'' (r_name reg @ ''_'' @ f_name f)))
      else old)"

lemma op_value_less: "old < 2 ^ w \<Longrightarrow> new < 2 ^ w \<Longrightarrow> op_value w opc old new < 2 ^ w"
  by (simp add: op_value_def or_less_pow and_less_pow)

lemma sw_value_less: "warl_fits f \<Longrightarrow> old < 2 ^ f_width f \<Longrightarrow> sw_value f opc old wdata < 2 ^ f_width f"
  by (simp add: sw_value_def warl.coerce_fits op_value_less field_slice_less)

lemma lit_low_max: "lit_value 16 (low_max_digits w) = 2 ^ (4 * (w div 4)) - 1"
  "4 \<le> w \<Longrightarrow> lit_ok 16 w (low_max_digits w)"
proof -
  have dv: "digit_val (CHR ''f'') = Some 15" by code_simp
  have r: "read_digits 16 acc us (replicate k (CHR ''f'')) =
      (if us \<and> k = 0 then None else Some (acc * 16 ^ k + (16 ^ k - 1)))" for acc us and k :: nat
  proof (induction k arbitrary: acc us)
    case (Suc k)
    have "(16::nat) ^ k \<ge> 1" by simp
    then show ?case using Suc dv by (simp add: algebra_simps)
  qed simp
  have p: "(16::nat) ^ (w div 4) = 2 ^ (4 * (w div 4))" by (simp add: power_mult)
  from r show v: "lit_value 16 (low_max_digits w) = 2 ^ (4 * (w div 4)) - 1"
    by (simp add: lit_value_def low_max_digits_def p)
  have "(2::nat) ^ (4 * (w div 4)) \<le> 2 ^ w" by (intro power_increasing) auto
  then have "2 ^ (4 * (w div 4)) - 1 < (2::nat) ^ w"
    by (metis diff_less less_le_trans zero_less_numeral zero_less_one zero_less_power)
  then show "4 \<le> w \<Longrightarrow> lit_ok 16 w (low_max_digits w)"
    using v r [of 0 False "w div 4"] by (simp add: lit_ok_def) (simp add: low_max_digits_def)
qed

context arch_hdl
begin

lemma ev_enum_match:
  assumes "\<forall>x \<in> set xs. 0 \<le> x \<and> x < 2 ^ w" and "0 \<le> d" "d < 2 ^ w"
  shows "ev \<rho> (MatchE k s (map (\<lambda>v. (HexLit w (int_hex v), HexLit w (int_hex v))) xs) (HexLit w (int_hex d)))
    = BV w (if int (bn (ev \<rho> s)) \<in> set xs then bn (ev \<rho> s) else nat d)"
proof -
  have lit: "ev \<rho> (HexLit w (int_hex x)) = BV w (nat x)" if "0 \<le> x" "x < 2 ^ w" for x
    using that by (simp add: int_hex_def nat_less_iff)
  show ?thesis using assms(1)
  proof (induction xs)
    case Nil
    then show ?case using lit assms(2,3) by (simp add: ev_match_nil)
  next
    case (Cons x xs)
    then show ?case using lit [of x] by (auto simp: ev_match_cons)
  qed
qed

lemma ev_field_write:
  assumes lay: "field_layout reg f" "f_msb f < xlen" and fits: "warl_fits f"
    and wd: "sized xlen (\<rho> (Mem ''csr'' ''cmd_wdata''))" and opc: "sized 2 (\<rho> (Mem ''csr'' ''cmd_op''))"
    and old: "sized (f_width f) (\<rho> old)"
  shows "ev \<rho> (field_write_expr f old) = BV (f_width f)
    (sw_value f (bn (\<rho> (Mem ''csr'' ''cmd_op''))) (bn (\<rho> old)) (bn (\<rho> (Mem ''csr'' ''cmd_wdata''))))"
proof -
  note m = ev_op_match [OF assms(1,2,4,5,6)]
  show ?thesis
  proof (cases "f_warl f")
    case None
    then show ?thesis by (simp add: field_write_expr_def m sw_value_def legalize_def)
  next
    case (Some rule)
    then show ?thesis
    proof (cases rule)
      case (Mask p)
      with Some show ?thesis
        by (simp add: field_write_expr_def Let_def m sw_value_def legalize_def ev_and ev_paren mask_value_less)
    next
      case (Enum xs)
      with Some fits have ne: "xs \<noteq> []" and le: "\<forall>x \<in> set xs. 0 \<le> x \<and> x < 2 ^ f_width f"
        by (simp_all add: warl_fits_def)
      with Some Enum enum_least [OF fits] show ?thesis
        by (simp add: field_write_expr_def Let_def sw_value_def legalize_def ev_enum_match hd_sort ev_paren m)
    qed
  qed
qed

end

section \<open>Two limits of the emitted code\<close>

text \<open>
  A value outside a legal list becomes the least listed value, not the largest listed value below it
  as the documentation of the property says: 2 becomes 0, not 1.
\<close>

lemma enum_not_nearest: "legalize 2 (Some (Enum [0, 1, 3])) 2 = 0"
  by code_simp

text \<open>
  The maximum of a low counter half is written with one digit per four bits: for a width that is not
  a multiple of four it is too small, below four bits the literal has no digits.
\<close>

lemma low_max_wrong: "low_max_digits 3 = []" "lit_value 16 (low_max_digits 6) \<noteq> 2 ^ 6 - 1"
proof -
  show "low_max_digits 3 = []" by (simp add: low_max_digits_def)
  show "lit_value 16 (low_max_digits 6) \<noteq> 2 ^ 6 - 1" unfolding lit_low_max(1) by simp
qed

end
