(* ===== verification/CsrStep.thy ===== *)
theory CsrStep
  imports CsrSem
begin

text \<open>
  One clock edge of the CSR file: the module an accepted design denotes, and the proof that its
  sequential block moves every field as \<open>csr_next\<close> says.
\<close>

section \<open>The module of an accepted design\<close>

definition incr_stmts :: "csr_design \<Rightarrow> csr_reg \<Rightarrow> csr_field \<Rightarrow> astmt list" where
  "incr_stmts d reg f =
     (if truthy (f_hw_increment_when f) then [IfS (sig (the (f_hw_increment_when f))) [bump_stmt reg f]]
      else if truthy (f_hw_increment_high_of f) then
        (case find_reg d (the (f_hw_increment_high_of f)) of
           None \<Rightarrow> []
         | Some low_reg \<Rightarrow>
             (case low_counter_fields low_reg of
                [] \<Rightarrow> []
              | low # _ \<Rightarrow> [IfS (carry_expr low_reg low) [bump_stmt reg f]]))
      else [])"

definition csr_items_of :: "csr_design \<Rightarrow> aitem list" where
  "csr_items_of d = csr_items d (map (\<lambda>reg. concat (map (incr_stmts d reg) (r_fields reg))) (d_regs d))"

lemma find_filter: "find P xs = (case filter P xs of [] \<Rightarrow> None | x # _ \<Rightarrow> Some x)"
  by (induction xs) auto

lemma increment_stmts_valid: "valid_field d f \<Longrightarrow> increment_stmts d reg f = Inr (incr_stmts d reg f)"
  by (auto simp: valid_field_def valid_high_of_def increment_stmts_def incr_stmts_def next_reg_def
      next_counter_def find_filter low_counter_fields_def)

lemma csr_module_valid:
  assumes "validate d = Inr ()" and "\<forall>reg \<in> set (d_regs d). \<not> warl_bad reg"
  shows "csr_module d = Inr \<lparr>am_use = Some (d_package_name d), am_name = d_module_name d,
    am_items = csr_items_of d\<rparr>"
proof -
  have one: "res_map (increment_stmts d reg) (r_fields reg) = Inr (map (incr_stmts d reg) (r_fields reg))"
    if "reg \<in> set (d_regs d)" for reg
    using validate_fieldD [OF assms(1) that] by (intro res_map_total) (simp add: increment_stmts_valid)
  have "res_map (\<lambda>reg. res_bind (res_map (increment_stmts d reg) (r_fields reg)) (\<lambda>ls. Inr (concat ls))) (d_regs d)
      = Inr (map (\<lambda>reg. concat (map (incr_stmts d reg) (r_fields reg))) (d_regs d))"
    using one by (intro res_map_total) simp
  then show ?thesis using assms(2) by (auto simp: csr_module_def csr_items_of_def warl_bad_def)
qed

lemma wf_no_warl_bad: "wf_design d \<Longrightarrow> reg \<in> set (d_regs d) \<Longrightarrow> \<not> warl_bad reg"
  by (auto simp: warl_bad_def warl_nonempty_def dest: wf_fieldD(3)) (auto simp: warl_fits_def dest!: wf_fieldD(3))

lemma csr_module_wf:
  "wf_design d \<Longrightarrow> csr_module d = Inr \<lparr>am_use = Some (d_package_name d), am_name = d_module_name d,
    am_items = csr_items_of d\<rparr>"
  by (rule csr_module_valid) (auto simp: wf_no_warl_bad, simp add: wf_design_def)

lemma item_lets_map: "(\<And>x. x \<in> set xs \<Longrightarrow> item_lets [g x] = {}) \<Longrightarrow> item_lets (map g xs) = {}"
proof (induction xs)
  case (Cons x xs)
  have "item_lets (map g (x # xs)) = item_lets [g x] \<union> item_lets (map g xs)"
    using item_lets_append [of "[g x]" "map g xs"] by simp
  with Cons show ?case by simp
qed simp

lemma csr_items_lets: "item_lets (csr_items_of d) = {''csr_rdata_mux''}"
  by (simp add: csr_items_of_def csr_items_def item_lets_map)

lemma csr_bind_frame: "r \<noteq> Sig ''csr_rdata_mux'' \<Longrightarrow> bind_lets ev \<rho> (csr_items_of d) r = \<rho> r"
  by (cases r) (auto simp: bind_lets_frame_Sig csr_items_lets)

lemma item_stmts_map: "(\<And>x. x \<in> set xs \<Longrightarrow> item_stmts (g x) = []) \<Longrightarrow> concat (map item_stmts (map g xs)) = []"
  by (induction xs) auto

lemma csr_items_stmts:
  "concat (map item_stmts (csr_items_of d))
   = seq_stmts d (map (\<lambda>reg. concat (map (incr_stmts d reg) (r_fields reg))) (d_regs d))"
  by (simp add: csr_items_of_def csr_items_def comp_def)

section \<open>One field through the sequential block\<close>

lemma pulse_targets: "fref reg f \<notin> targets (pulse_stmts s)"
  by (auto simp: pulse_stmts_def)

lemma field_targets: "g \<noteq> fref reg f \<Longrightarrow> (\<forall>s. g \<noteq> Sig s) \<Longrightarrow> g \<notin> targets (field_stmts reg f)"
  by (auto simp: field_stmts_def pulse_stmts_def)

lemma hwif_targets: "targets (hwif_stmts reg f) \<subseteq> {fref reg f}"
  by (auto simp: hwif_stmts_def)

lemma incr_shape: "s \<in> set (incr_stmts d reg f) \<Longrightarrow> \<exists>c. s = IfS c [bump_stmt reg f]"
proof (cases "find_reg d (the (f_hw_increment_high_of f))")
  case None
  then show "s \<in> set (incr_stmts d reg f) \<Longrightarrow> ?thesis"
    by (cases "truthy (f_hw_increment_when f)"; cases "truthy (f_hw_increment_high_of f)")
      (simp_all add: incr_stmts_def)
next
  case (Some low_reg)
  then show "s \<in> set (incr_stmts d reg f) \<Longrightarrow> ?thesis"
    by (cases "truthy (f_hw_increment_when f)"; cases "truthy (f_hw_increment_high_of f)";
        cases "low_counter_fields low_reg") (simp_all add: incr_stmts_def)
qed

lemma incr_targets: "targets (incr_stmts d reg f) \<subseteq> {fref reg f}"
  using incr_shape by (force simp: bump_stmt_def)

text \<open>Two nested loops over registers and fields: only the body for \<open>f\<close> of \<open>reg\<close> matters.\<close>

lemma run_two_level:
  assumes wf: "wf_design d" and reg: "reg \<in> set (d_regs d)" and f: "f \<in> set (r_fields reg)"
    and t: "\<And>reg f. targets (g reg f) \<subseteq> {fref reg f}"
  shows "arch_run ev \<rho> \<sigma> (concat (map (\<lambda>reg. concat (map (g reg) (r_fields reg))) (d_regs d))) (fref reg f)
    = arch_run ev \<rho> \<sigma> (g reg f) (fref reg f)"
proof -
  have "arch_run ev \<rho> \<sigma> (concat (map (\<lambda>reg. concat (map (g reg) (r_fields reg))) (d_regs d))) (fref reg f)
      = arch_run ev \<rho> \<sigma> (concat (map (g reg) (r_fields reg))) (fref reg f)"
  proof (rule arch_run_concat_map [OF reg wf_distinct(1) [OF wf]])
    fix reg' assume r': "reg' \<in> set (d_regs d)" "reg' \<noteq> reg"
    show "fref reg f \<notin> targets (concat (map (g reg') (r_fields reg')))"
      using t [of reg'] fref_inj [OF wf reg f r'(1)] r'(2) by (fastforce simp: subset_iff)
  qed
  also have "\<dots> = arch_run ev \<rho> \<sigma> (g reg f) (fref reg f)"
  proof (rule arch_run_concat_map [OF f wf_distinct(2) [OF wf reg]])
    fix f' assume f': "f' \<in> set (r_fields reg)" "f' \<noteq> f"
    show "fref reg f \<notin> targets (g reg f')"
      using t [of reg f'] fref_inj [OF wf reg f reg f'(1)] f'(2) by auto
  qed
  finally show ?thesis .
qed

text \<open>The software write block.\<close>

lemma run_reg_stmts:
  assumes wf: "wf_design d" and reg: "reg \<in> set (d_regs d)" and f: "f \<in> set (r_fields reg)"
  shows "arch_run ev \<rho> \<sigma> (reg_stmts reg) (fref reg f) =
    (if sw_writes f then fit (bw (\<rho> (fref reg f))) (ev \<rho> (field_write_expr f (fref reg f)))
     else \<sigma> (fref reg f))"
proof -
  have "arch_run ev \<rho> \<sigma> (reg_stmts reg) (fref reg f)
      = arch_run ev \<rho> \<sigma> (concat (map (field_stmts reg) (r_fields reg))) (fref reg f)"
    using pulse_targets by (simp add: reg_stmts_def arch_run_append arch_run_frame)
  also have "\<dots> = arch_run ev \<rho> \<sigma> (field_stmts reg f) (fref reg f)"
  proof (rule arch_run_concat_map [OF f wf_distinct(2) [OF wf reg]])
    fix f' assume f': "f' \<in> set (r_fields reg)" "f' \<noteq> f"
    show "fref reg f \<notin> targets (field_stmts reg f')"
      using fref_inj [OF wf reg f reg f'(1)] f'(2) by (intro field_targets) auto
  qed
  also have "\<dots> = (if sw_writes f then fit (bw (\<rho> (fref reg f))) (ev \<rho> (field_write_expr f (fref reg f)))
      else \<sigma> (fref reg f))"
    using pulse_targets by (simp add: field_stmts_def arch_run_append arch_run_frame)
  finally show ?thesis .
qed

lemma reg_stmts_targets:
  assumes wf: "wf_design d" and reg: "reg \<in> set (d_regs d)" and f: "f \<in> set (r_fields reg)"
    and r': "reg' \<in> set (d_regs d)" "reg' \<noteq> reg"
  shows "fref reg f \<notin> targets (reg_stmts reg')"
proof -
  have "fref reg f \<notin> targets (field_stmts reg' f')" if "f' \<in> set (r_fields reg')" for f'
    using fref_inj [OF wf reg f r'(1) that] r'(2) by (intro field_targets) auto
  then show ?thesis using pulse_targets by (simp add: reg_stmts_def)
qed

context arch_hdl
begin

lemma run_write_stmts:
  assumes wf: "wf_design d" and env: "csr_env d \<rho>"
    and reg: "reg \<in> set (d_regs d)" and f: "f \<in> set (r_fields reg)"
  shows "arch_run ev \<rho> \<sigma> (write_stmts d) (fref reg f) =
    (if sw_writes f \<and> sw_hits \<rho> reg
     then BV (f_width f) (sw_value f (bn (\<rho> (Mem ''csr'' ''cmd_op''))) (bn (\<rho> (fref reg f)))
            (bn (\<rho> (Mem ''csr'' ''cmd_wdata''))))
     else \<sigma> (fref reg f))"
proof -
  let ?r = "fref reg f"
  have wr: "fit (bw (\<rho> ?r)) (ev \<rho> (field_write_expr f ?r)) = BV (f_width f)
      (sw_value f (bn (\<rho> (Mem ''csr'' ''cmd_op''))) (bn (\<rho> ?r)) (bn (\<rho> (Mem ''csr'' ''cmd_wdata''))))"
  proof -
    have sz: "sized (f_width f) (\<rho> ?r)" using env reg f by (auto simp: csr_env_def)
    have wd: "sized (d_xlen d) (\<rho> (Mem ''csr'' ''cmd_wdata''))" "sized 2 (\<rho> (Mem ''csr'' ''cmd_op''))"
      using env by (auto simp: csr_env_def)
    note wfD = wf_fieldD [OF wf reg f]
    show ?thesis
      using ev_field_write [OF wfD(2) wfD(6) wfD(3) wd sz] sw_value_less [OF wfD(3)] sz
      by (simp add: fit_def sized_def)
  qed
  have one: "arch_run ev \<rho> \<sigma> [reg_write_stmt reg'] ?r =
      (if bn (\<rho> (Mem ''csr'' ''cmd_addr'')) = r_address reg' then arch_run ev \<rho> \<sigma> (reg_stmts reg') ?r
       else \<sigma> ?r)" if "reg' \<in> set (d_regs d)" for reg' \<sigma>
    using wf_designD(2) [OF wf that] by (simp add: reg_write_stmt_def ev_eq ev_ref)
  have body: "arch_run ev \<rho> \<sigma> (map reg_write_stmt (written_regs d)) ?r =
      (if sw_writes f \<and> bn (\<rho> (Mem ''csr'' ''cmd_addr'')) = r_address reg
       then fit (bw (\<rho> ?r)) (ev \<rho> (field_write_expr f ?r)) else \<sigma> ?r)" for \<sigma>
  proof (cases "reg \<in> set (written_regs d)")
    case True
    have "arch_run ev \<rho> \<sigma> (concat (map (\<lambda>x. [reg_write_stmt x]) (written_regs d))) ?r
        = arch_run ev \<rho> \<sigma> [reg_write_stmt reg] ?r"
    proof (rule arch_run_concat_map [OF True])
      show "distinct (written_regs d)" using wf_distinct(1) [OF wf] by (simp add: written_regs_def)
    next
      fix reg' assume "reg' \<in> set (written_regs d)" "reg' \<noteq> reg"
      then show "?r \<notin> targets [reg_write_stmt reg']"
        using reg_stmts_targets [OF wf reg f] by (auto simp: written_regs_def reg_write_stmt_def)
    qed
    then show ?thesis using one [OF reg] run_reg_stmts [OF wf reg f] by simp
  next
    case False
    then have "reg_stmts reg = []" using reg by (simp add: written_regs_def)
    then have "\<not> sw_writes f" using f by (auto simp: reg_stmts_def field_stmts_def)
    moreover have "?r \<notin> targets (map reg_write_stmt (written_regs d))"
      using False reg_stmts_targets [OF wf reg f] by (auto simp: written_regs_def reg_write_stmt_def)
    ultimately show ?thesis by (simp add: arch_run_frame)
  qed
  show ?thesis
  proof (cases "written_regs d = []")
    case True
    then have "reg_stmts reg = []" using reg by (auto simp: written_regs_def filter_empty_conv)
    then have "\<not> sw_writes f" using f by (auto simp: reg_stmts_def field_stmts_def)
    with True show ?thesis by (simp add: write_stmts_def)
  next
    case False
    then show ?thesis
      by (simp add: write_stmts_def body wr ev_basic ev_bin sw_hits_def cmd_fires_def)
  qed
qed

lemma run_increment:
  assumes wf: "wf_design d" and env: "csr_env d \<rho>"
    and reg: "reg \<in> set (d_regs d)" and f: "f \<in> set (r_fields reg)"
  shows "arch_run ev \<rho> \<sigma> (incr_stmts d reg f) (fref reg f) =
    (if bumps d \<rho> f then BV (f_width f) ((bn (\<rho> (fref reg f)) + 1) mod 2 ^ f_width f) else \<sigma> (fref reg f))"
proof -
  have sz: "sized (f_width f) (\<rho> (fref reg f))" using env reg f by (auto simp: csr_env_def)
  have b: "arch_run ev \<rho> \<sigma> [IfS c [bump_stmt reg f]] (fref reg f) = (if isset (ev \<rho> c)
      then BV (f_width f) ((bn (\<rho> (fref reg f)) + 1) mod 2 ^ f_width f) else \<sigma> (fref reg f))" for c
    using sizedD [OF sz] by (simp add: bump_stmt_def ev_addw ev_ref ev_num fit_def)
  consider (low) "truthy (f_hw_increment_when f)"
    | (high) "\<not> truthy (f_hw_increment_when f)" "truthy (f_hw_increment_high_of f)"
    | (none) "\<not> truthy (f_hw_increment_when f)" "\<not> truthy (f_hw_increment_high_of f)" by blast
  then show ?thesis
  proof cases
    case low
    then show ?thesis by (simp only: incr_stmts_def bumps_def if_True b ev_ref)
  next
    case high
    from wf_fieldD(1) [OF wf reg f] high(2) obtain low_reg low where
      l: "find_reg d (the (f_hw_increment_high_of f)) = Some low_reg"
         "low_counter_fields low_reg = [low]" "f_width low = f_width f"
      by (auto simp: valid_field_def valid_high_of_def)
    have w: "4 \<le> f_width low" using wf_fieldD(7) [OF wf reg f high(2)] l(3) by simp
    have "isset (ev \<rho> (carry_expr low_reg low)) \<longleftrightarrow> isset (\<rho> (Sig (the (f_hw_increment_when low))))
        \<and> bn (\<rho> (fref low_reg low)) = 2 ^ (4 * (f_width low div 4)) - 1"
      using lit_low_max [of "f_width low"] w by (simp add: carry_expr_def ev_basic ev_hex)
    then show ?thesis by (simp add: incr_stmts_def bumps_def high l b del: arch_run.simps)
  next
    case none
    then show ?thesis by (simp add: incr_stmts_def bumps_def)
  qed
qed

lemma run_seq:
  assumes wf: "wf_design d" and env: "csr_env d \<rho>"
    and reg: "reg \<in> set (d_regs d)" and f: "f \<in> set (r_fields reg)"
  shows "arch_run ev \<rho> \<rho> (concat (map item_stmts (csr_items_of d))) (fref reg f)
    = BV (f_width f) (csr_next d \<rho> reg f)"
proof -
  let ?r = "fref reg f"
  let ?p = "map (\<lambda>s. Assign (Sig (s @ ''_r'')) FalseE) (trap_signals d)"
  let ?h = "concat (map (\<lambda>reg. concat (map (hwif_stmts reg) (r_fields reg))) (d_regs d))"
  let ?i = "concat (map (\<lambda>reg. concat (map (incr_stmts d reg) (r_fields reg))) (d_regs d))"
  have sz: "sized (f_width f) (\<rho> ?r)"
    "f_hw_writable f \<Longrightarrow> sized (f_width f) (\<rho> (Mem ''hwif_in'' (r_name reg @ ''_'' @ f_name f)))"
    using env reg f by (auto simp: csr_env_def)
  have pulses: "arch_run ev \<rho> \<rho> ?p ?r = \<rho> ?r" by (rule arch_run_frame) auto
  have hw: "arch_run ev \<rho> (arch_run ev \<rho> \<rho> ?p) ?h ?r = BV (f_width f)
      (if f_hw_writable f then bn (\<rho> (Mem ''hwif_in'' (r_name reg @ ''_'' @ f_name f))) else bn (\<rho> ?r))"
  proof -
    have "\<rho> ?r = BV (f_width f) (bn (\<rho> ?r))" using sz(1) by (cases "\<rho> ?r") (simp add: sized_def)
    then show ?thesis
      unfolding run_two_level [OF wf reg f hwif_targets] using sz pulses
      by (simp add: hwif_stmts_def ev_ref fit_def sized_def)
  qed
  note inc = run_two_level [OF wf reg f incr_targets, of ev \<rho> "arch_run ev \<rho> (arch_run ev \<rho> \<rho> ?p) ?h"]
  show ?thesis
    using hw inc
    by (simp add: csr_items_stmts seq_stmts_def arch_run_append run_write_stmts [OF wf env reg f]
        run_increment [OF wf env reg f] csr_next_def Let_def)
qed

end

text \<open>The specification reads no \<^verbatim>\<open>let\<close>-bound signal.\<close>

lemma csr_next_cong:
  assumes wf: "wf_design d" and reg: "reg \<in> set (d_regs d)" and f: "f \<in> set (r_fields reg)"
    and same: "\<And>r. r \<noteq> Sig ''csr_rdata_mux'' \<Longrightarrow> \<rho>' r = \<rho> r"
  shows "csr_next d \<rho>' reg f = csr_next d \<rho> reg f"
proof -
  have en: "the (f_hw_increment_when g) \<noteq> ''csr_rdata_mux''"
    if "reg' \<in> set (d_regs d)" "g \<in> set (r_fields reg')" "truthy (f_hw_increment_when g)" for reg' g
    using wf_fieldD(5) [OF wf that(1,2)] that(3) by (cases "f_hw_increment_when g") auto
  have "bumps d \<rho>' f = bumps d \<rho> f"
  proof (cases "truthy (f_hw_increment_when f)")
    case True
    then show ?thesis using en [OF reg f True] same by (simp add: bumps_def)
  next
    case False
    show ?thesis
    proof (cases "truthy (f_hw_increment_high_of f)")
      case True
      from wf_fieldD(1) [OF wf reg f] True obtain low_reg low where
        l: "find_reg d (the (f_hw_increment_high_of f)) = Some low_reg" "low_counter_fields low_reg = [low]"
        by (auto simp: valid_field_def valid_high_of_def)
      have "low_reg \<in> set (d_regs d)" using l(1) by (auto simp: find_reg_def dest: find_Some_set)
      moreover have "low \<in> set (r_fields low_reg)" "truthy (f_hw_increment_when low)"
        using arg_cong [OF l(2), of set] by (auto simp: low_counter_fields_def)
      ultimately show ?thesis using en same False True by (simp add: bumps_def l)
    qed (simp add: bumps_def False)
  qed
  then show ?thesis by (simp add: csr_next_def Let_def same sw_hits_def cmd_fires_def)
qed

context arch_hdl
begin

lemma csr_env_bind: "csr_env d \<rho> \<Longrightarrow> csr_env d (bind_lets ev \<rho> (csr_items_of d))"
  by (simp add: csr_env_def csr_bind_frame)

lemma field_step:
  assumes wf: "wf_design d" and env: "csr_env d \<rho>" and m: "csr_module d = Inr m"
    and reg: "reg \<in> set (d_regs d)" and f: "f \<in> set (r_fields reg)"
  shows "module_next ev nxt m \<rho> (fref reg f) = BV (f_width f) (csr_next d \<rho> reg f)"
proof -
  from m csr_module_wf [OF wf] have items: "am_items m = csr_items_of d" by auto
  have "csr_next d (bind_lets ev \<rho> (csr_items_of d)) reg f = csr_next d \<rho> reg f"
    by (rule csr_next_cong [OF wf reg f]) (rule csr_bind_frame)
  then show ?thesis
    using run_seq [OF wf csr_env_bind [OF env] reg f]
    by (simp add: module_next_def module_stmts_def items nxt_run)
qed

end

end
