(* ===== verification/CsrPackage.thy ===== *)
theory CsrPackage
  imports CsrModel
begin

text \<open>
  The shared package (\<^verbatim>\<open>emit_csr_package.py\<close>): the address enum, one struct per register, the two
  hardware-interface structs and the bus. \<open>hwif_in_members\<close> and \<open>hwif_out_members\<close> are the member
  lists the CSR file and the trap coordinator have to agree with.
\<close>

section \<open>Members of the hardware interface\<close>

definition hwif_in_members :: "csr_design \<Rightarrow> (string \<times> nat) list" where
  "hwif_in_members design =
     concat (map (\<lambda>reg. concat (map (\<lambda>f.
         if f_hw_writable f then [(r_name reg @ ''_'' @ f_name f, f_width f)] else [])
       (r_fields reg))) (d_regs design))"

definition hwif_out_members :: "csr_design \<Rightarrow> (string \<times> nat) list" where
  "hwif_out_members design =
     concat (map (\<lambda>reg. concat (map (\<lambda>f.
         if f_hw_readable f then [(r_name reg @ ''_'' @ f_name f, f_width f)] else [])
       (r_fields reg)) @ [(r_name reg @ ''_rdata_flat'', d_xlen design)]) (d_regs design))"

section \<open>The emitter\<close>

definition uint :: "nat \<Rightarrow> string" where
  "uint w = ''UInt<'' @ nat_dec w @ ''>''"

definition member_lines :: "(string \<times> nat) list \<Rightarrow> string list" where
  "member_lines ms = (if ms \<noteq> [] then map (\<lambda>(nm, w). ''    '' @ nm @ '': '' @ uint w @ '';'') ms
                      else [''    _reserved: UInt<1>;''])"

fun enum_lines :: "csr_reg list \<Rightarrow> string list" where
  "enum_lines [] = []"
| "enum_lines (reg # regs) =
     (''    '' @ r_enum_variant reg @ (if regs \<noteq> [] then '','' else [])) # enum_lines regs"

definition struct_lines :: "csr_reg \<Rightarrow> string list" where
  "struct_lines reg =
     [''  struct '' @ r_struct_name reg]
     @ map (\<lambda>f. ''    '' @ f_name f @ '': '' @ uint (f_width f) @ '';'') (r_fields reg)
     @ [''  end struct '' @ r_struct_name reg, []]"

definition emit_package :: "csr_design \<Rightarrow> string" where
  "emit_package design = join newline (
     [''package '' @ d_package_name design, []]
     @ [''  enum '' @ d_csr_enum_name design]
     @ enum_lines (d_regs design)
     @ [''  end enum '' @ d_csr_enum_name design, []]
     @ concat (map struct_lines (d_regs design))
     @ [''  struct '' @ d_hwif_in_struct design]
     @ member_lines (hwif_in_members design)
     @ [''  end struct '' @ d_hwif_in_struct design, []]
     @ [''  struct '' @ d_hwif_out_struct design]
     @ member_lines (hwif_out_members design)
     @ [''  end struct '' @ d_hwif_out_struct design, []]
     @ [''  bus '' @ d_csr_file_bus design,
        ''    handshake cmd: send kind: valid_ready'',
        ''      addr:  UInt<12>;'',
        ''      op:    UInt<2>;'',
        ''      wdata: '' @ uint (d_xlen design) @ '';'',
        ''    end handshake cmd'',
        [],
        ''    handshake rsp: receive kind: valid_only'',
        ''      rdata: '' @ uint (d_xlen design) @ '';'',
        ''    end handshake rsp'',
        ''  end bus '' @ d_csr_file_bus design,
        []]
     @ [''end package '' @ d_package_name design, []])"

section \<open>Lemmas\<close>

lemma enum_lines_length [simp]: "length (enum_lines regs) = length regs"
  by (induction regs rule: enum_lines.induct) auto

lemma enum_lines_nth:
  "i < length regs \<Longrightarrow> enum_lines regs ! i =
     ''    '' @ r_enum_variant (regs ! i) @ (if i < length regs - 1 then '','' else [])"
proof (induction regs arbitrary: i rule: enum_lines.induct)
  case (2 reg regs)
  then show ?case by (cases i) (auto simp: nth_Cons split: nat.splits)
qed simp

lemma hwif_in_members_set:
  "(m, w) \<in> set (hwif_in_members design) \<longleftrightarrow>
     (\<exists>reg \<in> set (d_regs design). \<exists>f \<in> set (r_fields reg).
        f_hw_writable f \<and> m = r_name reg @ ''_'' @ f_name f \<and> w = f_width f)"
  by (auto simp: hwif_in_members_def split: if_splits)

end
