(* ===== verification/CsrRead.thy ===== *)
theory CsrRead
  imports CsrStep CsrPackage
begin

text \<open>
  What the CSR file shows: the value software reads from a register (every readable field at its
  bit position), the response of the bus, the hardware-interface outputs and the trap-signal
  pulses.
\<close>

section \<open>The specification of a read\<close>

text \<open>What software sees of a field: a preserved field and a write-only field read as zero.\<close>

definition visible :: "env \<Rightarrow> csr_reg \<Rightarrow> csr_field \<Rightarrow> nat" where
  "visible \<rho> reg f = (if f_wpri f \<or> \<not> f_sw_readable f then 0 else bn (\<rho> (fref reg f)))"

text \<open>The value of a register: every visible field at its bit position, zero elsewhere.\<close>

definition read_value :: "env \<Rightarrow> csr_reg \<Rightarrow> nat" where
  "read_value \<rho> reg = (\<Sum>f \<leftarrow> r_fields reg. visible \<rho> reg f * 2 ^ f_lsb f)"

definition csr_rdata :: "csr_design \<Rightarrow> env \<Rightarrow> nat \<Rightarrow> nat" where
  "csr_rdata d \<rho> addr =
     (case find (\<lambda>reg. r_address reg = addr) (d_regs d) of None \<Rightarrow> 0 | Some reg \<Rightarrow> read_value \<rho> reg)"

section \<open>Fields in descending order\<close>

fun descending :: "nat \<Rightarrow> csr_field list \<Rightarrow> bool" where
  "descending n [] \<longleftrightarrow> True"
| "descending n (f # fs) \<longleftrightarrow>
     f_msb f < n \<and> f_lsb f \<le> f_msb f \<and> f_width f = Suc (f_msb f - f_lsb f) \<and> descending (f_lsb f) fs"

lemma descendingI:
  assumes "sorted (rev (map f_lsb fs))" and "distinct fs"
    and "\<forall>f \<in> set fs. f_lsb f \<le> f_msb f \<and> f_width f = Suc (f_msb f - f_lsb f) \<and> f_msb f < n"
    and "\<forall>f \<in> set fs. \<forall>g \<in> set fs. f \<noteq> g \<longrightarrow> f_msb f < f_lsb g \<or> f_msb g < f_lsb f"
  shows "descending n fs"
  using assms
proof (induction fs arbitrary: n)
  case (Cons f fs)
  have "f_msb g < f_lsb f" if g: "g \<in> set fs" for g
  proof -
    from Cons.prems(1) g have "f_lsb g \<le> f_lsb f" by (auto simp: sorted_append)
    moreover have "f \<noteq> g" using Cons.prems(2) g by auto
    moreover have "f_lsb f \<le> f_msb f" using Cons.prems(3) by simp
    ultimately show ?thesis using Cons.prems(4) g by force
  qed
  with Cons show ?case by (auto simp: sorted_append)
qed simp

lemma reg_descending: "reg_layout reg \<Longrightarrow> descending (r_regwidth reg) (sort_key_desc f_lsb (r_fields reg))"
  by (rule descendingI) (auto simp: sorted_sort_key_desc reg_layout_def field_layout_def)

lemma sum_list_sort_key_desc:
  "distinct xs \<Longrightarrow> sum_list (map g xs) = sum_list (map g (sort_key_desc k xs))"
  for g :: "'a \<Rightarrow> nat"
  by (simp add: sum_list_distinct_conv_sum_set)

lemma descending_sum_less:
  "descending n fs \<Longrightarrow> (\<And>f. f \<in> set fs \<Longrightarrow> v f < 2 ^ f_width f) \<Longrightarrow>
   (\<Sum>f \<leftarrow> fs. v f * 2 ^ f_lsb f) < (2::nat) ^ n"
proof (induction fs arbitrary: n)
  case (Cons f fs)
  have "(\<Sum>f \<leftarrow> fs. v f * 2 ^ f_lsb f) < 2 ^ f_lsb f" using Cons by auto
  moreover have "v f < 2 ^ f_width f" using Cons.prems(2) [of f] by simp
  ultimately have "v f * 2 ^ f_lsb f + (\<Sum>f \<leftarrow> fs. v f * 2 ^ f_lsb f) < 2 ^ (f_width f + f_lsb f)"
    by (rule concat_bits_less [rotated])
  also have "\<dots> \<le> 2 ^ n" using Cons.prems(1) by (intro power_increasing) auto
  finally show ?case by simp
qed simp

lemma descending_slice:
  assumes "descending n fs" and "\<And>f. f \<in> set fs \<Longrightarrow> v f < 2 ^ f_width f" and "g \<in> set fs"
  shows "(\<Sum>f \<leftarrow> fs. v f * 2 ^ f_lsb f) div 2 ^ f_lsb g mod 2 ^ f_width g = (v g :: nat)"
  using assms
proof (induction fs arbitrary: n)
  case (Cons f fs)
  let ?rest = "\<Sum>f \<leftarrow> fs. v f * 2 ^ f_lsb f"
  have rest: "?rest < 2 ^ f_lsb f"
    using Cons.prems by (intro descending_sum_less) auto
  show ?case
  proof (cases "g = f")
    case True
    then show ?thesis using rest Cons.prems(2) [of f] by simp
  next
    case False
    with Cons.prems(3) have g: "g \<in> set fs" by simp
    have top: "f_lsb g + f_width g \<le> f_lsb f"
    proof -
      have "\<forall>g \<in> set fs. f_lsb g + f_width g \<le> n'" if "descending n' fs" for n'
        using that
      proof (induction fs arbitrary: n')
        case (Cons a as)
        from Cons.prems have "\<forall>g \<in> set as. f_lsb g + f_width g \<le> f_lsb a" by (intro Cons.IH) simp
        with Cons.prems show ?case by fastforce
      qed simp
      with Cons.prems(1) g show ?thesis by simp
    qed
    then obtain k where k: "f_lsb f = f_lsb g + f_width g + k" using le_Suc_ex by blast
    have "v f * 2 ^ f_lsb f = v f * 2 ^ k * 2 ^ f_width g * 2 ^ f_lsb g"
      unfolding k power_add by (simp only: ac_simps)
    moreover have "(a * 2 ^ f_lsb g + b) div 2 ^ f_lsb g = a + b div 2 ^ f_lsb g" for a b :: nat
      by simp
    ultimately have "(v f * 2 ^ f_lsb f + ?rest) div 2 ^ f_lsb g
        = v f * 2 ^ k * 2 ^ f_width g + ?rest div 2 ^ f_lsb g" by (simp only:)
    then have "(v f * 2 ^ f_lsb f + ?rest) div 2 ^ f_lsb g mod 2 ^ f_width g
        = ?rest div 2 ^ f_lsb g mod 2 ^ f_width g" by simp
    with Cons.IH [of "f_lsb f"] Cons.prems g show ?thesis by simp
  qed
qed simp

section \<open>Evaluating the read view\<close>

context arch_hdl
begin

lemma ev_zero: "0 < w \<Longrightarrow> ev \<rho> (zero_expr w) = BV w 0"
  by (simp add: zero_expr_def ev_false ev_hex bit1_def)

lemma ev_gap: "map (ev \<rho>) (gap_expr n) = (if n > 0 then [BV (nat n) 0] else [])"
  by (simp add: gap_expr_def ev_hex)

lemma ev_field_read:
  assumes "sized (f_width f) (\<rho> (fref reg f))" and "f_width f \<noteq> 0"
  shows "ev \<rho> (field_read_expr f (r_state_name reg)) = BV (f_width f) (visible \<rho> reg f)"
  using assms by (cases "\<rho> (fref reg f)") (auto simp: field_read_expr_def visible_def ev_zero ev_ref sized_def)

lemma ev_read_parts:
  assumes "descending n fs"
    and "\<And>f. f \<in> set fs \<Longrightarrow> sized (f_width f) (\<rho> (fref reg f)) \<and> f_width f \<noteq> 0"
  shows "concat_bv (map (ev \<rho>) (read_part_exprs (r_state_name reg) (int n - 1) fs))
    = BV n (\<Sum>f \<leftarrow> fs. visible \<rho> reg f * 2 ^ f_lsb f)"
  using assms
proof (induction fs arbitrary: n)
  case Nil
  then show ?case by (auto simp: ev_gap)
next
  case (Cons f fs)
  let ?rest = "concat_bv (map (ev \<rho>) (read_part_exprs (r_state_name reg) (int (f_lsb f) - 1) fs))"
  have rest: "?rest = BV (f_lsb f) (\<Sum>f \<leftarrow> fs. visible \<rho> reg f * 2 ^ f_lsb f)"
    using Cons.prems by (intro Cons.IH) auto
  have f: "ev \<rho> (field_read_expr f (r_state_name reg)) = BV (f_width f) (visible \<rho> reg f)"
    using Cons.prems(2) by (intro ev_field_read) auto
  have w: "f_msb f < n" "f_lsb f + f_width f = Suc (f_msb f)" using Cons.prems(1) by auto
  have g: "int n - 1 - int (f_msb f) > 0 \<longleftrightarrow> Suc (f_msb f) < n"
    "nat (int n - 1 - int (f_msb f)) = n - Suc (f_msb f)" using w(1) by auto
  have two: "concat_bv (ev \<rho> (field_read_expr f (r_state_name reg)) #
      map (ev \<rho>) (read_part_exprs (r_state_name reg) (int (f_lsb f) - 1) fs))
    = BV (Suc (f_msb f)) (\<Sum>f \<leftarrow> f # fs. visible \<rho> reg f * 2 ^ f_lsb f)"
    by (simp only: concat_bv_step f rest bv.sel w(2) add.commute [of "f_width f"]) simp
  show ?case
  proof (cases "Suc (f_msb f) < n")
    case True
    have "concat_bv (map (ev \<rho>) (read_part_exprs (r_state_name reg) (int n - 1) (f # fs)))
      = concat_bv (BV (n - Suc (f_msb f)) 0 # (ev \<rho> (field_read_expr f (r_state_name reg)) #
          map (ev \<rho>) (read_part_exprs (r_state_name reg) (int (f_lsb f) - 1) fs)))"
      using True g by (simp add: ev_gap)
    then show ?thesis
      unfolding concat_bv_step [of "BV (n - Suc (f_msb f)) 0"] two using True by simp
  next
    case False
    then have "concat_bv (map (ev \<rho>) (read_part_exprs (r_state_name reg) (int n - 1) (f # fs)))
      = concat_bv (ev \<rho> (field_read_expr f (r_state_name reg)) #
          map (ev \<rho>) (read_part_exprs (r_state_name reg) (int (f_lsb f) - 1) fs))"
      using g by (simp add: ev_gap)
    moreover have "n = Suc (f_msb f)" using False w(1) by simp
    ultimately show ?thesis using two by simp
  qed
qed

lemma ev_reg_value:
  assumes wf: "wf_design d" and env: "csr_env d \<rho>" and reg: "reg \<in> set (d_regs d)"
  shows "ev \<rho> (reg_value_expr reg (d_xlen d)) = BV (d_xlen d) (read_value \<rho> reg)"
proof (cases "r_fields reg = []")
  case True
  have "r_regwidth reg \<in> {32, 64}" using wf_designD(1) [OF wf reg] by (simp add: valid_reg_def)
  then have "0 < d_xlen d" using wf_designD(6) [OF wf reg] by auto
  with True show ?thesis by (simp add: reg_value_expr_def ev_zero read_value_def)
next
  case False
  let ?w = "r_regwidth reg" and ?fs = "sort_key_desc f_lsb (r_fields reg)"
  let ?es = "read_part_exprs (r_state_name reg) (int ?w - 1) ?fs"
  have "length ?fs > 0" using False by simp
  then have ne: "?es \<noteq> []" by (cases ?fs) auto
  have "concat_bv (map (ev \<rho>) ?es) = BV ?w (\<Sum>f \<leftarrow> ?fs. visible \<rho> reg f * 2 ^ f_lsb f)"
    using env reg wf_fieldD(4) [OF wf reg]
    by (intro ev_read_parts reg_descending wf_designD(3) [OF wf reg]) (auto simp: csr_env_def)
  then have parts: "concat_bv (map (ev \<rho>) ?es) = BV ?w (read_value \<rho> reg)"
    by (simp only: read_value_def sum_list_sort_key_desc [OF wf_distinct(2) [OF wf reg], where k = f_lsb])
  have body: "ev \<rho> (if length ?es = 1 then hd ?es else Concat ?es) = BV ?w (read_value \<rho> reg)"
  proof (cases "length ?es = 1")
    case True
    then obtain e where "?es = [e]" by (auto simp: length_Suc_conv)
    with parts show ?thesis by simp
  next
    case False
    then show ?thesis using ev_concat [OF ne] parts by simp
  qed
  let ?body = "if length ?es = 1 then hd ?es else Concat ?es"
  have e: "reg_value_expr reg (d_xlen d) =
      (if ?w < d_xlen d then Concat [HexLit (d_xlen d - ?w) ''0'', ?body] else ?body)"
    using False by (simp add: reg_value_expr_def Let_def)
  have "ev \<rho> (Concat [HexLit (d_xlen d - ?w) ''0'', ?body]) = BV (d_xlen d - ?w + ?w) (read_value \<rho> reg)"
    by (subst ev_concat_cons, simp, simp only: ev_concat_one body ev_hex lit_hex_digits bv.sel) simp
  with body wf_designD(6) [OF wf reg] show ?thesis unfolding e by (cases "?w < d_xlen d") simp_all
qed

end

lemma visible_less:
  "csr_env d \<rho> \<Longrightarrow> reg \<in> set (d_regs d) \<Longrightarrow> f \<in> set (r_fields reg) \<Longrightarrow> visible \<rho> reg f < 2 ^ f_width f"
  by (auto simp: visible_def csr_env_def sized_def)

lemma read_value_less:
  assumes "wf_design d" "csr_env d \<rho>" "reg \<in> set (d_regs d)"
  shows "read_value \<rho> reg < 2 ^ d_xlen d"
proof -
  have "read_value \<rho> reg < 2 ^ r_regwidth reg"
    unfolding read_value_def sum_list_sort_key_desc [OF wf_distinct(2) [OF assms(1,3)], where k = f_lsb]
    using visible_less [OF assms(2,3)]
    by (intro descending_sum_less reg_descending wf_designD(3) [OF assms(1,3)]) auto
  also have "\<dots> \<le> 2 ^ d_xlen d" using wf_designD(6) [OF assms(1,3)] by (intro power_increasing) auto
  finally show ?thesis .
qed

lemma read_value_slice:
  assumes "wf_design d" "csr_env d \<rho>" "reg \<in> set (d_regs d)" "f \<in> set (r_fields reg)"
  shows "field_slice f (read_value \<rho> reg) = visible \<rho> reg f"
  unfolding field_slice_def take_bit_eq_mod drop_bit_eq_div read_value_def
    sum_list_sort_key_desc [OF wf_distinct(2) [OF assms(1,3)], where k = f_lsb]
  using visible_less [OF assms(2,3)] assms(4)
  by (intro descending_slice [OF reg_descending [OF wf_designD(3) [OF assms(1,3)]]]) auto

section \<open>The outputs\<close>

lemma csr_items_drives:
  "concat (map item_drives (csr_items_of d)) =
     [(Mem ''csr'' ''cmd_ready'', TrueE), (Mem ''csr'' ''rsp_valid'', csr_port ''cmd_valid''),
      (Mem ''csr'' ''rsp_rdata'', CondE (csr_port ''cmd_valid'') (sig ''csr_rdata_mux'') (Num 0))]
     @ map (\<lambda>s. (Sig s, sig (s @ ''_r''))) (trap_signals d)
     @ map (\<lambda>(r, k, e). (r, e)) (hwif_out_drives d)"
  by (simp add: csr_items_of_def csr_items_def comp_def)

text \<open>The drives of the output struct are its members, in order.\<close>

lemma hwif_out_keys: "map fst (hwif_out_drives d) = map (\<lambda>(m, w). Mem ''hwif_out'' m) (hwif_out_members d)"
  unfolding hwif_out_drives_def hwif_out_members_def map_concat map_append map_map comp_def
    if_distrib [where f = "map fst"] if_distrib [where f = "map (\<lambda>(m, w). Mem ''hwif_out'' m)"]
    list.map prod.case fst_conv
  by (rule refl)

lemma hwif_out_lookup:
  assumes dist: "distinct (map fst (hwif_out_members d))" and mem: "(Mem ''hwif_out'' m, k, e) \<in> set (hwif_out_drives d)"
  shows "map_of (concat (map item_drives (csr_items_of d))) (Mem ''hwif_out'' m) = Some e"
proof -
  have keys: "map fst (map (\<lambda>(r, k, e). (r, e)) (hwif_out_drives d))
      = map (\<lambda>(m, w). Mem ''hwif_out'' m) (hwif_out_members d)"
    by (simp add: hwif_out_keys [symmetric] comp_def case_prod_beta)
  have "map (\<lambda>(m, w). Mem ''hwif_out'' m) (hwif_out_members d)
      = map (Mem ''hwif_out'') (map fst (hwif_out_members d))"
    by (simp add: case_prod_beta)
  then have "distinct (map fst (map (\<lambda>(r, k, e). (r, e)) (hwif_out_drives d)))"
    unfolding keys using dist by (simp add: distinct_map inj_on_def)
  moreover have "(Mem ''hwif_out'' m, e) \<in> set (map (\<lambda>(r, k, e). (r, e)) (hwif_out_drives d))"
    using mem by force
  ultimately have "map_of (map (\<lambda>(r, k, e). (r, e)) (hwif_out_drives d)) (Mem ''hwif_out'' m) = Some e"
    by (rule map_of_is_SomeI)
  moreover have "map_of (map (\<lambda>s. (Sig s, sig (s @ ''_r''))) xs) (Mem ''hwif_out'' m) = None" for xs
    by (induction xs) auto
  ultimately show ?thesis by (simp add: csr_items_drives map_add_def)
qed

lemma hwif_out_flat_drive:
  "reg \<in> set (d_regs d) \<Longrightarrow>
   (Mem ''hwif_out'' (r_name reg @ ''_rdata_flat''), 1, reg_value_expr reg (d_xlen d)) \<in> set (hwif_out_drives d)"
  by (auto simp: hwif_out_drives_def)

lemma hwif_out_field_drive:
  "reg \<in> set (d_regs d) \<Longrightarrow> f \<in> set (r_fields reg) \<Longrightarrow> f_hw_readable f \<Longrightarrow>
   (Mem ''hwif_out'' (r_name reg @ ''_'' @ f_name f), 1, Ref (fref reg f)) \<in> set (hwif_out_drives d)"
  by (force simp: hwif_out_drives_def)

context arch_hdl
begin

lemma ev_mux:
  assumes wf: "wf_design d" and env: "csr_env d \<rho>"
    and regs: "set regs \<subseteq> set (d_regs d)"
  shows "bn (ev \<rho> (MatchE 1 (csr_port ''cmd_addr'') (map (\<lambda>reg. (HexLit 12 (nat_hex (r_address reg)),
      reg_value_expr reg (d_xlen d))) regs) (Num 0)))
    = (case find (\<lambda>reg. r_address reg = bn (\<rho> (Mem ''csr'' ''cmd_addr''))) regs of
         None \<Rightarrow> 0 | Some reg \<Rightarrow> read_value \<rho> reg)"
  using regs
proof (induction regs)
  case (Cons reg regs)
  then have reg: "reg \<in> set (d_regs d)" by simp
  with Cons wf_designD(2) [OF wf reg] show ?case
    by (simp add: ev_match_cons ev_ref ev_reg_value [OF wf env reg])
qed (simp add: ev_match_nil ev_num)

lemma mux_value:
  assumes wf: "wf_design d" and env: "csr_env d \<rho>"
  shows "bn (bind_lets ev \<rho> (csr_items_of d) (Sig ''csr_rdata_mux''))
    = csr_rdata d \<rho> (bn (\<rho> (Mem ''csr'' ''cmd_addr'')))"
proof -
  let ?m = "MatchE 1 (csr_port ''cmd_addr'') (map (\<lambda>reg. (HexLit 12 (nat_hex (r_address reg)),
      reg_value_expr reg (d_xlen d))) (d_regs d)) (Num 0)"
  have maps: "bind_lets ev \<rho>' (map g xs) = \<rho>'" if "\<And>x. x \<in> set xs \<Longrightarrow> item_lets [g x] = {}"
    for \<rho>' and g :: "'z \<Rightarrow> aitem" and xs
    using that by (intro bind_lets_none item_lets_map)
  have "bind_lets ev \<rho> (csr_items_of d) (Sig ''csr_rdata_mux'') = fit (d_xlen d) (ev \<rho> ?m)"
    by (simp add: csr_items_of_def csr_items_def bind_lets_append maps)
  moreover have "bn (ev \<rho> ?m) = csr_rdata d \<rho> (bn (\<rho> (Mem ''csr'' ''cmd_addr'')))"
    using ev_mux [OF wf env, of "d_regs d"] by (simp add: csr_rdata_def)
  moreover have "csr_rdata d \<rho> a < 2 ^ d_xlen d" for a
    using read_value_less [OF wf env] by (auto simp: csr_rdata_def dest!: find_Some_set split: option.splits)
  ultimately show ?thesis by simp
qed

lemma rsp_rdata_out:
  assumes wf: "wf_design d" and env: "csr_env d \<rho>" and m: "csr_module d = Inr m"
  shows "map_option bn (module_out ev m \<rho> (Mem ''csr'' ''rsp_rdata'')) =
    Some (if isset (\<rho> (Mem ''csr'' ''cmd_valid'')) then csr_rdata d \<rho> (bn (\<rho> (Mem ''csr'' ''cmd_addr''))) else 0)"
proof -
  from m csr_module_wf [OF wf] have items: "am_items m = csr_items_of d" by auto
  show ?thesis
    by (simp add: module_out_def module_drives_def items csr_items_drives ev_cond ev_ref ev_num
        mux_value [OF wf env] csr_bind_frame)
qed

lemma handshake_out:
  assumes wf: "wf_design d" and m: "csr_module d = Inr m"
  shows "module_out ev m \<rho> (Mem ''csr'' ''cmd_ready'') = Some (bit1 True)"
    and "module_out ev m \<rho> (Mem ''csr'' ''rsp_valid'') = Some (\<rho> (Mem ''csr'' ''cmd_valid''))"
proof -
  from m csr_module_wf [OF wf] have items: "am_items m = csr_items_of d" by auto
  show "module_out ev m \<rho> (Mem ''csr'' ''cmd_ready'') = Some (bit1 True)"
    "module_out ev m \<rho> (Mem ''csr'' ''rsp_valid'') = Some (\<rho> (Mem ''csr'' ''cmd_valid''))"
    by (simp_all add: module_out_def module_drives_def items csr_items_drives ev_true ev_ref)
qed

lemma hwif_out_field:
  assumes wf: "wf_design d" and m: "csr_module d = Inr m"
    and dist: "distinct (map fst (hwif_out_members d))"
    and reg: "reg \<in> set (d_regs d)" and f: "f \<in> set (r_fields reg)" "f_hw_readable f"
  shows "module_out ev m \<rho> (Mem ''hwif_out'' (r_name reg @ ''_'' @ f_name f)) = Some (\<rho> (fref reg f))"
proof -
  from m csr_module_wf [OF wf] have items: "am_items m = csr_items_of d" by auto
  show ?thesis
    unfolding module_out_def module_drives_def items
      hwif_out_lookup [OF dist hwif_out_field_drive [OF reg f]]
    by (simp add: ev_ref)
qed

lemma hwif_out_flat:
  assumes wf: "wf_design d" and env: "csr_env d \<rho>" and m: "csr_module d = Inr m"
    and dist: "distinct (map fst (hwif_out_members d))" and reg: "reg \<in> set (d_regs d)"
  shows "module_out ev m \<rho> (Mem ''hwif_out'' (r_name reg @ ''_rdata_flat'')) = Some (BV (d_xlen d) (read_value \<rho> reg))"
proof -
  from m csr_module_wf [OF wf] have items: "am_items m = csr_items_of d" by auto
  have "visible (bind_lets ev \<rho> (csr_items_of d)) reg f = visible \<rho> reg f" for f
    by (simp add: visible_def)
  then have same: "read_value (bind_lets ev \<rho> (csr_items_of d)) reg = read_value \<rho> reg"
    by (simp add: read_value_def)
  show ?thesis
    unfolding module_out_def module_drives_def items
      hwif_out_lookup [OF dist hwif_out_flat_drive [OF reg]]
    by (simp add: ev_reg_value [OF wf csr_env_bind [OF env] reg] same)
qed

end

section \<open>Trap-signal pulses\<close>

text \<open>The software write that raises a pulse in the next cycle.\<close>

definition pulse_fires :: "csr_design \<Rightarrow> env \<Rightarrow> string \<Rightarrow> bool" where
  "pulse_fires d \<rho> s \<longleftrightarrow>
     (\<exists>reg \<in> set (d_regs d). sw_hits \<rho> reg
        \<and> (r_trap_signal reg = Some s \<or> (\<exists>f \<in> set (r_fields reg). sw_writes f \<and> f_trap_signal f = Some s)))"

text \<open>Does a statement, executed, assign \<open>r\<close>?\<close>

fun fires :: "(env \<Rightarrow> aexpr \<Rightarrow> bv) \<Rightarrow> env \<Rightarrow> aref \<Rightarrow> astmt \<Rightarrow> bool" where
  "fires ev \<rho> r (Assign r' e) \<longleftrightarrow> r' = r"
| "fires ev \<rho> r (IfS c b) \<longleftrightarrow> isset (ev \<rho> c) \<and> (\<exists>s \<in> set b. fires ev \<rho> r s)"

fun assigns_only :: "aref \<Rightarrow> aexpr \<Rightarrow> astmt \<Rightarrow> bool" where
  "assigns_only r e (Assign r' e') \<longleftrightarrow> (r' = r \<longrightarrow> e' = e)"
| "assigns_only r e (IfS c b) \<longleftrightarrow> (\<forall>s \<in> set b. assigns_only r e s)"

lemma arch_run_constant:
  "\<forall>s \<in> set ss. assigns_only r e s \<Longrightarrow>
   arch_run ev \<rho> \<sigma> ss r = (if \<exists>s \<in> set ss. fires ev \<rho> r s then fit (bw (\<rho> r)) (ev \<rho> e) else \<sigma> r)"
proof (induction ev \<rho> \<sigma> ss rule: arch_run.induct)
  case (2 ev \<rho> \<sigma> r' e' ss)
  then show ?case by (auto simp: fun_upd_def)
next
  case (3 ev \<rho> \<sigma> c b ss)
  then show ?case by auto
qed simp


definition pulse_env :: "csr_design \<Rightarrow> env \<Rightarrow> bool" where
  "pulse_env d \<rho> \<longleftrightarrow> (\<forall>s \<in> set (trap_signals d). bw (\<rho> (Sig (s @ ''_r''))) = 1)"

lemma pulse_name: "s @ ''_r'' \<noteq> ''csr_rdata_mux''"
proof
  assume "s @ ''_r'' = ''csr_rdata_mux''"
  then have "last (s @ ''_r'') = last ''csr_rdata_mux''" by (simp only:)
  then show False by simp
qed

lemma pulse_stmt_cases: "set (pulse_stmts t) = (if truthy t then {Assign (Sig (the t @ ''_r'')) TrueE} else {})"
  by (simp add: pulse_stmts_def)

context arch_hdl
begin

lemma write_assigns_only: "s \<in> set (write_stmts d) \<Longrightarrow> assigns_only (Sig x) TrueE s"
  by (auto simp: write_stmts_def reg_write_stmt_def reg_stmts_def field_stmts_def pulse_stmt_cases
      split: if_splits)

lemma write_fires:
  assumes "wf_design d"
  shows "(\<exists>st \<in> set (write_stmts d). fires ev \<rho> (Sig (s @ ''_r'')) st) \<longleftrightarrow>
    (s \<noteq> [] \<and> pulse_fires d \<rho> s)"
proof -
  have pf: "(\<exists>st \<in> set (pulse_stmts t). fires ev \<rho> (Sig (s @ ''_r'')) st) \<longleftrightarrow> s \<noteq> [] \<and> t = Some s" for t
    by (cases t) (auto simp: pulse_stmts_def)
  have rf: "(\<exists>st \<in> set (reg_stmts reg). fires ev \<rho> (Sig (s @ ''_r'')) st) \<longleftrightarrow> s \<noteq> [] \<and>
      (r_trap_signal reg = Some s \<or> (\<exists>f \<in> set (r_fields reg). sw_writes f \<and> f_trap_signal f = Some s))" for reg
  proof -
    have "(\<exists>st \<in> set (field_stmts reg f). fires ev \<rho> (Sig (s @ ''_r'')) st) \<longleftrightarrow>
        s \<noteq> [] \<and> sw_writes f \<and> f_trap_signal f = Some s" for f
      using pf [of "f_trap_signal f"] by (auto simp: field_stmts_def)
    then show ?thesis using pf [of "r_trap_signal reg"] by (simp add: reg_stmts_def bex_Un) blast
  qed
  have wf: "fires ev \<rho> (Sig (s @ ''_r'')) (reg_write_stmt reg) \<longleftrightarrow>
      bn (\<rho> (Mem ''csr'' ''cmd_addr'')) = r_address reg
      \<and> (\<exists>st \<in> set (reg_stmts reg). fires ev \<rho> (Sig (s @ ''_r'')) st)" if "reg \<in> set (d_regs d)" for reg
    using wf_designD(2) [OF assms that] by (simp add: reg_write_stmt_def ev_eq ev_ref)
  have ws: "(\<exists>st \<in> set (write_stmts d). fires ev \<rho> (Sig (s @ ''_r'')) st) \<longleftrightarrow>
      cmd_fires \<rho> \<and> (\<exists>reg \<in> set (written_regs d). fires ev \<rho> (Sig (s @ ''_r'')) (reg_write_stmt reg))"
    by (auto simp: write_stmts_def cmd_fires_def ev_basic ev_bin)
  have "(\<exists>reg \<in> set (written_regs d). fires ev \<rho> (Sig (s @ ''_r'')) (reg_write_stmt reg)) \<longleftrightarrow>
      (\<exists>reg \<in> set (d_regs d). fires ev \<rho> (Sig (s @ ''_r'')) (reg_write_stmt reg))"
    by (auto simp: written_regs_def reg_write_stmt_def)
  then show ?thesis unfolding ws pulse_fires_def sw_hits_def using wf rf by blast
qed

lemma pulse_step:
  assumes wf: "wf_design d" and env: "csr_env d \<rho>" "pulse_env d \<rho>" and m: "csr_module d = Inr m"
    and s: "s \<in> set (trap_signals d)"
  shows "module_next ev nxt m \<rho> (Sig (s @ ''_r'')) = bit1 (pulse_fires d \<rho> s)"
    and "module_out ev m \<rho> (Sig s) = Some (\<rho> (Sig (s @ ''_r'')))"
proof -
  let ?r = "Sig (s @ ''_r'')"
  let ?\<rho> = "bind_lets ev \<rho> (csr_items_of d)"
  from m csr_module_wf [OF wf] have items: "am_items m = csr_items_of d" by auto
  have same: "?\<rho> ?r = \<rho> ?r" by (rule csr_bind_frame) (simp add: pulse_name)
  have bw: "bw (?\<rho> ?r) = 1" using env(2) s same by (simp add: pulse_env_def)
  have ne: "s \<noteq> []" using s
    by (auto simp: trap_signals_def all_trap_signals_def truthy_def split: if_splits)
  let ?p = "map (\<lambda>s. Assign (Sig (s @ ''_r'')) FalseE) (trap_signals d)"
  let ?h = "concat (map (\<lambda>reg. concat (map (hwif_stmts reg) (r_fields reg))) (d_regs d))"
  let ?i = "concat (map (\<lambda>reg. concat (map (incr_stmts d reg) (r_fields reg))) (d_regs d))"
  have p: "arch_run ev ?\<rho> ?\<rho> ?p ?r = bit1 False"
    using arch_run_constant [of ?p ?r FalseE ev ?\<rho> ?\<rho>] s bw by (auto simp: ev_false)
  have "?r \<notin> targets ?h" using hwif_targets by fastforce
  moreover have "?r \<notin> targets ?i" using incr_targets by fastforce
  ultimately have mid: "arch_run ev ?\<rho> (arch_run ev ?\<rho> (arch_run ev ?\<rho> ?\<rho> ?p) ?h) ?i ?r = bit1 False"
    using p by (simp only: arch_run_frame not_False_eq_True)
  have "arch_run ev ?\<rho> \<sigma> (write_stmts d) ?r = (if pulse_fires d ?\<rho> s then bit1 True else \<sigma> ?r)" for \<sigma>
    using arch_run_constant [of "write_stmts d" ?r TrueE ev ?\<rho> \<sigma>] write_assigns_only [of _ d "s @ ''_r''"]
      write_fires [OF wf, of ?\<rho> s] ne bw by (simp add: ev_true)
  moreover have "pulse_fires d ?\<rho> s = pulse_fires d \<rho> s"
    by (simp add: pulse_fires_def sw_hits_def cmd_fires_def csr_bind_frame)
  ultimately show "module_next ev nxt m \<rho> ?r = bit1 (pulse_fires d \<rho> s)"
    using mid by (simp add: module_next_def module_stmts_def items nxt_run csr_items_stmts seq_stmts_def
        arch_run_append)
  have "map_of (map (\<lambda>s. (Sig s, sig (s @ ''_r''))) xs) (Sig s) = Some (sig (s @ ''_r''))" if "s \<in> set xs" for xs
    using that by (induction xs) auto
  moreover have "map_of (map (\<lambda>(r, k, e). (r, e)) (hwif_out_drives d)) (Sig s) = None"
  proof -
    have "fst ` set (map (\<lambda>(r, k, e). (r, e)) (hwif_out_drives d)) = set (map fst (hwif_out_drives d))" by force
    then show ?thesis unfolding map_of_eq_None_iff using hwif_out_keys [of d] by auto
  qed
  ultimately have "map_of (concat (map item_drives (csr_items_of d))) (Sig s) = Some (sig (s @ ''_r''))"
    using s by (simp add: csr_items_drives map_add_def)
  then show "module_out ev m \<rho> (Sig s) = Some (\<rho> ?r)"
    by (simp add: module_out_def module_drives_def items ev_ref same)
qed

end

text \<open>Bits outside every field are zero.\<close>

lemma descending_gap:
  assumes "descending n fs" and "\<And>f. f \<in> set fs \<Longrightarrow> v f < 2 ^ f_width f"
    and "\<forall>f \<in> set fs. i < f_lsb f \<or> f_msb f < i"
  shows "\<not> bit (\<Sum>f \<leftarrow> fs. v f * 2 ^ f_lsb f :: nat) i"
  using assms
proof (induction fs arbitrary: n)
  case (Cons f fs)
  let ?rest = "\<Sum>f \<leftarrow> fs. v f * 2 ^ f_lsb f"
  have rest: "?rest < 2 ^ f_lsb f" using Cons.prems by (intro descending_sum_less) auto
  have v: "v f < 2 ^ f_width f" using Cons.prems(2) by simp
  show ?case
  proof (cases "i < f_lsb f")
    case True
    then obtain k where k: "f_lsb f = i + Suc k" using less_iff_Suc_add by auto
    have "v f * 2 ^ f_lsb f = v f * 2 ^ k * 2 * 2 ^ i" unfolding k by (simp add: power_add)
    moreover have "(a * 2 * 2 ^ i + b) div 2 ^ i = a * 2 + b div 2 ^ i" for a b :: nat by simp
    ultimately have "(v f * 2 ^ f_lsb f + ?rest) div 2 ^ i = v f * 2 ^ k * 2 + ?rest div 2 ^ i" by (simp only:)
    then have "bit (v f * 2 ^ f_lsb f + ?rest) i \<longleftrightarrow> bit ?rest i" by (simp add: bit_iff_odd)
    with Cons show ?thesis by auto
  next
    case False
    with Cons.prems(1,3) have "f_lsb f + f_width f \<le> i" by auto
    then have "(2::nat) ^ (f_width f + f_lsb f) \<le> 2 ^ i" by (intro power_increasing) auto
    moreover have "v f * 2 ^ f_lsb f + ?rest < 2 ^ (f_width f + f_lsb f)" by (rule concat_bits_less [OF v rest])
    ultimately have "v f * 2 ^ f_lsb f + ?rest < 2 ^ i" by (rule less_le_trans [rotated])
    then show ?thesis by (simp add: bit_iff_odd)
  qed
qed simp

lemma read_value_gap:
  assumes "wf_design d" "csr_env d \<rho>" "reg \<in> set (d_regs d)"
    and "\<forall>f \<in> set (r_fields reg). i < f_lsb f \<or> f_msb f < i"
  shows "\<not> bit (read_value \<rho> reg) i"
  unfolding read_value_def sum_list_sort_key_desc [OF wf_distinct(2) [OF assms(1,3)], where k = f_lsb]
  using visible_less [OF assms(2,3)] assms(4)
  by (intro descending_gap [OF reg_descending [OF wf_designD(3) [OF assms(1,3)]]]) auto

end
