(* ===== verification/TrapCoord.thy ===== *)
theory TrapCoord
  imports CsrPackage AccessCtl Fixtures
begin

text \<open>
  The trap coordinator (\<^verbatim>\<open>emit_trap_coordinator.py\<close>): a purely combinational router of the
  hardware-driven fields. \<open>emit_trap_coordinator\<close> is the emitter line by line, \<open>trap_module\<close> the
  abstract syntax of its text, \<open>trap_drive\<close> the routing rule the docstring promises: mirror always,
  otherwise save on \<^verbatim>\<open>trap_enter\<close>, then restore on \<^verbatim>\<open>xret_enter\<close>, then the live value.
\<close>

section \<open>The emitter\<close>

definition member_name :: "csr_reg \<Rightarrow> csr_field \<Rightarrow> string" where
  "member_name reg f = r_name reg @ ''_'' @ f_name f"

definition save_port_name :: "csr_reg \<Rightarrow> csr_field \<Rightarrow> string" where
  "save_port_name reg f = ''save_'' @ r_name reg @ ''_'' @ f_name f"

definition restore_port_name :: "csr_reg \<Rightarrow> csr_field \<Rightarrow> string" where
  "restore_port_name reg f = ''restore_'' @ r_name reg @ ''_'' @ f_name f"

definition mirror_port_name :: "csr_reg \<Rightarrow> csr_field \<Rightarrow> string" where
  "mirror_port_name reg f = ''mirror_'' @ r_name reg @ ''_'' @ f_name f"

definition fields_where :: "(csr_field \<Rightarrow> bool) \<Rightarrow> csr_design \<Rightarrow> (csr_reg \<times> csr_field) list" where
  "fields_where P design =
     concat (map (\<lambda>reg. map (\<lambda>f. (reg, f)) (filter P (r_fields reg))) (d_regs design))"

definition all_hwif_in_members :: "csr_design \<Rightarrow> (csr_reg \<times> csr_field) list" where
  "all_hwif_in_members design = fields_where f_hw_writable design"

definition save_on_trap_fields :: "csr_design \<Rightarrow> (csr_reg \<times> csr_field) list" where
  "save_on_trap_fields design = fields_where f_save_on_trap design"

definition restore_on_ret_fields :: "csr_design \<Rightarrow> (csr_reg \<times> csr_field) list" where
  "restore_on_ret_fields design = fields_where f_restore_on_ret design"

definition hw_mirror_fields :: "csr_design \<Rightarrow> (csr_reg \<times> csr_field) list" where
  "hw_mirror_fields design = fields_where f_hw_mirror design"

text \<open>The sets of (register name, field name) pairs the loop looks its flags up in.\<close>

definition in_set :: "(csr_reg \<times> csr_field) list \<Rightarrow> csr_reg \<Rightarrow> csr_field \<Rightarrow> bool" where
  "in_set fs reg f \<longleftrightarrow> (r_name reg, f_name f) \<in> set (map (\<lambda>(r, g). (r_name r, f_name g)) fs)"

definition drive_line :: "csr_design \<Rightarrow> csr_reg \<times> csr_field \<Rightarrow> string" where
  "drive_line design = (\<lambda>(reg, f).
     let member = member_name reg f;
         live_expr = ''hwif_in_live.'' @ member;
         has_save = in_set (save_on_trap_fields design) reg f;
         has_restore = in_set (restore_on_ret_fields design) reg f;
         has_mirror = in_set (hw_mirror_fields design) reg f in
     if has_mirror then ''    hwif_in_drive.'' @ member @ '' = '' @ mirror_port_name reg f @ '';''
     else if has_save \<and> has_restore then
       ''    hwif_in_drive.'' @ member @ '' = ''
       @ ''trap_enter ? '' @ save_port_name reg f @ '' : ''
       @ ''xret_enter ? '' @ restore_port_name reg f @ '' : '' @ live_expr @ '';''
     else if has_save then
       ''    hwif_in_drive.'' @ member @ '' = ''
       @ ''trap_enter ? '' @ save_port_name reg f @ '' : '' @ live_expr @ '';''
     else if has_restore then
       ''    hwif_in_drive.'' @ member @ '' = ''
       @ ''xret_enter ? '' @ restore_port_name reg f @ '' : '' @ live_expr @ '';''
     else ''    hwif_in_drive.'' @ member @ '' = '' @ live_expr @ '';'')"

definition port_lines :: "(csr_reg \<Rightarrow> csr_field \<Rightarrow> string) \<Rightarrow> (csr_reg \<times> csr_field) list \<Rightarrow> string list" where
  "port_lines nm fs = map (\<lambda>(reg, f). ''  port '' @ nm reg f @ '': in '' @ uint (f_width f) @ '';'') fs"

definition emit_trap_coordinator :: "csr_design \<Rightarrow> string \<Rightarrow> string" where
  "emit_trap_coordinator design module_name = join newline (
     [''use '' @ d_package_name design @ '';'', [],
      ''module '' @ module_name,
      ''  port clk: in Clock<SysDomain>;'',
      ''  port rst: in Reset<Async, Low>;'',
      ''  port trap_enter: in Bool;'',
      ''  port xret_enter: in Bool;'']
     @ port_lines save_port_name (save_on_trap_fields design)
     @ port_lines restore_port_name (restore_on_ret_fields design)
     @ port_lines mirror_port_name (hw_mirror_fields design)
     @ [''  port hwif_in_live:  in  '' @ d_hwif_in_struct design @ '';'',
        ''  port hwif_in_drive: out '' @ d_hwif_in_struct design @ '';'',
        [],
        ''  comb'']
     @ map (drive_line design) (all_hwif_in_members design)
     @ (if all_hwif_in_members design = []
        then [''    hwif_in_drive._reserved = hwif_in_live._reserved;''] else [])
     @ [''  end comb'', ''end module '' @ module_name, []])"

section \<open>The module it denotes\<close>

definition drive_expr :: "csr_design \<Rightarrow> csr_reg \<Rightarrow> csr_field \<Rightarrow> aexpr" where
  "drive_expr design reg f =
     (let live = Ref (Mem ''hwif_in_live'' (member_name reg f));
          has_save = in_set (save_on_trap_fields design) reg f;
          has_restore = in_set (restore_on_ret_fields design) reg f;
          has_mirror = in_set (hw_mirror_fields design) reg f;
          restored = (if has_restore then CondE (sig ''xret_enter'') (sig (restore_port_name reg f)) live
                      else live) in
      if has_mirror then sig (mirror_port_name reg f)
      else if has_save then CondE (sig ''trap_enter'') (sig (save_port_name reg f)) restored
      else restored)"

definition trap_drives :: "csr_design \<Rightarrow> (aref \<times> nat \<times> aexpr) list" where
  "trap_drives design =
     (if all_hwif_in_members design = []
      then [(Mem ''hwif_in_drive'' ''_reserved'', 1, Ref (Mem ''hwif_in_live'' ''_reserved''))]
      else map (\<lambda>(reg, f). (Mem ''hwif_in_drive'' (member_name reg f), 1, drive_expr design reg f))
             (all_hwif_in_members design))"

definition port_items :: "(csr_reg \<Rightarrow> csr_field \<Rightarrow> string) \<Rightarrow> (csr_reg \<times> csr_field) list \<Rightarrow> aitem list" where
  "port_items nm fs = map (\<lambda>(reg, f). PortI (nm reg f) ('' in '' @ uint (f_width f))) fs"

definition trap_module :: "csr_design \<Rightarrow> string \<Rightarrow> amodule" where
  "trap_module design module_name =
     \<lparr>am_use = Some (d_package_name design), am_name = module_name, am_items =
       [PortI ''clk'' '' in Clock<SysDomain>'', PortI ''rst'' '' in Reset<Async, Low>'',
        PortI ''trap_enter'' '' in Bool'', PortI ''xret_enter'' '' in Bool'']
       @ port_items save_port_name (save_on_trap_fields design)
       @ port_items restore_port_name (restore_on_ret_fields design)
       @ port_items mirror_port_name (hw_mirror_fields design)
       @ [PortI ''hwif_in_live'' (''  in  '' @ d_hwif_in_struct design),
          PortI ''hwif_in_drive'' ('' out '' @ d_hwif_in_struct design), Blank,
          CombI (trap_drives design)]\<rparr>"

section \<open>Text and module agree\<close>

lemma port_items_text: "concat (map render_item (port_items nm fs)) = port_lines nm fs"
  by (induction fs) (auto simp: port_items_def port_lines_def)

lemma drive_text:
  "indent_block 4 4 (glue (glue [render_ref (Mem ''hwif_in_drive'' (member_name reg f)) @ blanks 1 @ ''= '']
     (render_expr (drive_expr design reg f))) ['';'']) = [drive_line design (reg, f)]"
  by (simp add: drive_expr_def drive_line_def Let_def)

text \<open>
  The text of the trap coordinator is, character by character, the rendering of the module
  whose routing is proved below.
\<close>

theorem trap_text: "emit_trap_coordinator design nm = render_module (trap_module design nm)"
proof -
  have drives: "concat (map render_drive
       (map (\<lambda>(reg, f). (Mem ''hwif_in_drive'' (member_name reg f), 1, drive_expr design reg f)) fs))
     = map (drive_line design) fs" for fs
    using drive_text by (induction fs) (auto simp del: render_ref.simps)
  show ?thesis
    unfolding emit_trap_coordinator_def render_module_def
    by (rule arg_cong [where f = "join newline"])
      (simp add: trap_module_def port_items_text trap_drives_def drives [simplified])
qed

section \<open>What the module drives\<close>

text \<open>
  The routing rule of the docstring: a mirrored field follows its wire on every cycle; otherwise
  \<^verbatim>\<open>trap_enter > xret_enter > live\<close>.
\<close>

definition trap_drive :: "csr_field \<Rightarrow> bool \<Rightarrow> bool \<Rightarrow> 'v \<Rightarrow> 'v \<Rightarrow> 'v \<Rightarrow> 'v \<Rightarrow> 'v" where
  "trap_drive f te xe saved restored mirrored live =
     (if f_hw_mirror f then mirrored
      else if f_save_on_trap f \<and> te then saved
      else if f_restore_on_ret f \<and> xe then restored
      else live)"

text \<open>
  Names are unambiguous: no two registers share a name, no two fields of a register, and no two
  hardware-driven fields a member name. The RDL compiler enforces the first two.
\<close>

definition names_ok :: "csr_design \<Rightarrow> bool" where
  "names_ok design \<longleftrightarrow>
     distinct (map r_name (d_regs design))
     \<and> (\<forall>reg \<in> set (d_regs design). distinct (map f_name (r_fields reg)))
     \<and> distinct (map fst (hwif_in_members design))"

lemma fields_where_set:
  "(reg, f) \<in> set (fields_where P design) \<longleftrightarrow> reg \<in> set (d_regs design) \<and> f \<in> set (r_fields reg) \<and> P f"
  by (auto simp: fields_where_def)

lemma all_hwif_members:
  "map (\<lambda>(reg, f). (member_name reg f, f_width f)) (all_hwif_in_members design) = hwif_in_members design"
proof -
  have "map (\<lambda>(reg, f). (member_name reg f, f_width f)) (map (\<lambda>f. (reg, f)) (filter f_hw_writable fs))
      = concat (map (\<lambda>f. if f_hw_writable f then [(r_name reg @ ''_'' @ f_name f, f_width f)] else []) fs)"
    for reg fs
    by (induction fs) (auto simp: member_name_def)
  then show ?thesis
    by (simp add: all_hwif_in_members_def fields_where_def hwif_in_members_def map_concat comp_def)
qed

lemma names_ok_field_unique:
  assumes "names_ok design" and "reg \<in> set (d_regs design)" "f \<in> set (r_fields reg)"
    and "reg' \<in> set (d_regs design)" "f' \<in> set (r_fields reg')"
    and "r_name reg = r_name reg'" "f_name f = f_name f'"
  shows "reg = reg'" "f = f'"
proof -
  show "reg = reg'" using assms by (auto simp: names_ok_def distinct_map inj_on_def)
  then show "f = f'" using assms by (auto simp: names_ok_def distinct_map inj_on_def)
qed

lemma in_set_flag:
  assumes "names_ok design" and "reg \<in> set (d_regs design)" and "f \<in> set (r_fields reg)"
  shows "in_set (fields_where P design) reg f = P f"
proof
  assume "in_set (fields_where P design) reg f"
  then obtain reg' f' where "(reg', f') \<in> set (fields_where P design)"
    and "r_name reg' = r_name reg" "f_name f' = f_name f"
    by (auto simp: in_set_def)
  with names_ok_field_unique(2) [OF assms, of reg' f'] show "P f" by (simp add: fields_where_set)
next
  assume "P f"
  with assms show "in_set (fields_where P design) reg f"
    by (force simp: in_set_def fields_where_set)
qed

lemmas set_lookups = save_on_trap_fields_def restore_on_ret_fields_def hw_mirror_fields_def in_set_flag

lemma trap_module_drives: "module_drives (trap_module design nm) = map (\<lambda>(r, k, e). (r, e)) (trap_drives design)"
  by (simp add: module_drives_def trap_module_def port_items_def case_prod_beta comp_def)

lemma trap_module_lets: "bind_lets ev \<rho> (am_items (trap_module design nm)) = \<rho>"
proof -
  have "item_lets (port_items f xs) = {}" for f and xs
    by (induction xs) (auto simp: port_items_def)
  then show ?thesis by (intro bind_lets_none) (simp add: trap_module_def)
qed

lemma trap_drives_lookup:
  assumes ok: "names_ok design" and m: "(reg, f) \<in> set (all_hwif_in_members design)"
  shows "map_of (module_drives (trap_module design nm)) (Mem ''hwif_in_drive'' (member_name reg f))
    = Some (drive_expr design reg f)"
proof -
  let ?xs = "all_hwif_in_members design"
  have "map (\<lambda>(reg, f). member_name reg f) ?xs = map fst (hwif_in_members design)"
    by (simp add: all_hwif_members [symmetric] comp_def case_prod_beta)
  then have "distinct (map (\<lambda>(reg, f). member_name reg f) ?xs)"
    using ok by (simp add: names_ok_def)
  then have d: "distinct (map fst (map (\<lambda>(reg, f).
      (Mem ''hwif_in_drive'' (member_name reg f), drive_expr design reg f)) ?xs))"
    by (auto simp: distinct_map inj_on_def comp_def case_prod_beta)
  have "?xs \<noteq> []" using m by auto
  then have "module_drives (trap_module design nm) = map (\<lambda>(reg, f).
      (Mem ''hwif_in_drive'' (member_name reg f), drive_expr design reg f)) ?xs"
    by (simp add: trap_module_drives trap_drives_def case_prod_beta comp_def)
  with map_of_is_SomeI [OF d] m show ?thesis by force
qed

context arch_hdl
begin

lemma trap_routes:
  assumes ok: "names_ok design" and reg: "reg \<in> set (d_regs design)" and f: "f \<in> set (r_fields reg)"
    and hw: "f_hw_writable f"
  shows "module_out ev (trap_module design nm) \<rho> (Mem ''hwif_in_drive'' (member_name reg f)) =
    Some (trap_drive f (isset (\<rho> (Sig ''trap_enter''))) (isset (\<rho> (Sig ''xret_enter'')))
      (\<rho> (Sig (save_port_name reg f))) (\<rho> (Sig (restore_port_name reg f)))
      (\<rho> (Sig (mirror_port_name reg f))) (\<rho> (Mem ''hwif_in_live'' (member_name reg f))))"
proof -
  have "(reg, f) \<in> set (all_hwif_in_members design)"
    using reg f hw by (simp add: all_hwif_in_members_def fields_where_set)
  from trap_drives_lookup [OF ok this] show ?thesis
    using ok reg f
    by (simp add: module_out_def trap_module_lets drive_expr_def Let_def set_lookups trap_drive_def
        ev_cond ev_ref)
qed

end

end
