(* ===== verification/Typing.thy ===== *)
theory Typing
  imports Arch
begin

text \<open>
  Interfaces between generated files: a checker for the widths in a module, the syntax of packages (the
  enums, structs and buses the modules share), the signals a module declares against a package, and
  what a module that passes the checker can rely on.

  \<^item> \<open>synth\<close> computes the width of an expression, \<open>fits\<close> checks it against an expected one; a bare number
    has no width of its own. \<open>typing_sound\<close>: a checked expression has a value of its width.
  \<^item> \<open>well_typed\<close>: every name declared once, every signal declared where it is used, every assignment and
    drive of the declared width, every output driven exactly once.
  \<^item> \<open>well_typed_out\<close>, \<open>well_typed_assign\<close>, \<open>well_typed_next\<close>: no value of a well-typed module is truncated.
\<close>

section \<open>Widths of expressions\<close>

type_synonym tenv = "aref \<Rightarrow> nat option"

fun synth :: "tenv \<Rightarrow> aexpr \<Rightarrow> nat option"
  and fits :: "tenv \<Rightarrow> aexpr \<Rightarrow> nat \<Rightarrow> bool" where
  "synth \<Gamma> (Ref r) = \<Gamma> r"
| "synth \<Gamma> (HexLit w ds) = (if lit_ok 16 w ds then Some w else None)"
| "synth \<Gamma> (BinLit w ds) = (if lit_ok 2 w ds then Some w else None)"
| "synth \<Gamma> (DecLit w n) = (if n < 2 ^ w then Some w else None)"
| "synth \<Gamma> (Num n) = None"
| "synth \<Gamma> TrueE = Some 1"
| "synth \<Gamma> FalseE = Some 1"
| "synth \<Gamma> (BitE e i) =
     (case synth \<Gamma> e of None \<Rightarrow> None | Some w \<Rightarrow> if i < w then Some 1 else None)"
| "synth \<Gamma> (SliceE e hi lo) =
     (case synth \<Gamma> e of None \<Rightarrow> None
      | Some w \<Rightarrow> if lo \<le> hi \<and> hi < w then Some (Suc (hi - lo)) else None)"
| "synth \<Gamma> (BOr a b) = (if synth \<Gamma> b = synth \<Gamma> a then synth \<Gamma> a else None)"
| "synth \<Gamma> (BAnd a b) = (if synth \<Gamma> b = synth \<Gamma> a then synth \<Gamma> a else None)"
| "synth \<Gamma> (BNot a) = synth \<Gamma> a"
| "synth \<Gamma> (AddW a b) =
     (case synth \<Gamma> a of None \<Rightarrow> None | Some w \<Rightarrow> if fits \<Gamma> b w then Some w else None)"
| "synth \<Gamma> (EqE a b) =
     (case synth \<Gamma> a of None \<Rightarrow> None | Some w \<Rightarrow> if fits \<Gamma> b w then Some 1 else None)"
| "synth \<Gamma> (NeqE a b) =
     (case synth \<Gamma> a of None \<Rightarrow> None | Some w \<Rightarrow> if fits \<Gamma> b w then Some 1 else None)"
| "synth \<Gamma> (GtE a b) =
     (case synth \<Gamma> a of None \<Rightarrow> None | Some w \<Rightarrow> if fits \<Gamma> b w then Some 1 else None)"
| "synth \<Gamma> (GeE a b) =
     (case synth \<Gamma> a of None \<Rightarrow> None | Some w \<Rightarrow> if fits \<Gamma> b w then Some 1 else None)"
| "synth \<Gamma> (LAnd a b) = (if synth \<Gamma> a = Some 1 \<and> synth \<Gamma> b = Some 1 then Some 1 else None)"
| "synth \<Gamma> (LOr a b) = (if synth \<Gamma> a = Some 1 \<and> synth \<Gamma> b = Some 1 then Some 1 else None)"
| "synth \<Gamma> (LNot a) = (if synth \<Gamma> a = Some 1 then Some 1 else None)"
| "synth \<Gamma> (CondE c a b) =
     (if synth \<Gamma> c = Some 1 \<and> synth \<Gamma> b = synth \<Gamma> a then synth \<Gamma> a else None)"
| "synth \<Gamma> (MatchE k s arms d) =
     (case (synth \<Gamma> s, synth \<Gamma> d) of
        (Some v, Some w) \<Rightarrow>
          if list_all (\<lambda>(p, e). fits \<Gamma> p v \<and> synth \<Gamma> e = Some w) arms then Some w else None
      | _ \<Rightarrow> None)"
| "synth \<Gamma> (Concat es) =
     (if es = [] \<or> (\<exists>e \<in> set es. synth \<Gamma> e = None) then None
      else Some (sum_list (map (\<lambda>e. the (synth \<Gamma> e)) es)))"
| "synth \<Gamma> (Paren e) = synth \<Gamma> e"
| "fits \<Gamma> (Num n) w \<longleftrightarrow> n < 2 ^ w"
| "fits \<Gamma> (CondE c a b) w \<longleftrightarrow> synth \<Gamma> c = Some 1 \<and> fits \<Gamma> a w \<and> fits \<Gamma> b w"
| "fits \<Gamma> (MatchE k s arms d) w \<longleftrightarrow>
     (case synth \<Gamma> s of None \<Rightarrow> False
      | Some v \<Rightarrow> list_all (\<lambda>(p, e). fits \<Gamma> p v \<and> fits \<Gamma> e w) arms \<and> fits \<Gamma> d w)"
| "fits \<Gamma> (Paren e) w \<longleftrightarrow> fits \<Gamma> e w"
| "fits \<Gamma> e w \<longleftrightarrow> synth \<Gamma> e = Some w"

lemma synth_fits: "synth \<Gamma> e = Some w \<Longrightarrow> fits \<Gamma> e w"
  by (induction e arbitrary: w) (auto split: option.splits if_splits elim!: list.pred_mono_strong)

definition env_typed :: "tenv \<Rightarrow> env \<Rightarrow> bool" where
  "env_typed \<Gamma> \<rho> \<longleftrightarrow> (\<forall>r w. \<Gamma> r = Some w \<longrightarrow> sized w (\<rho> r))"

lemma concat_bv_sized:
  "\<forall>x \<in> set xs. well_sized x \<Longrightarrow> sized (sum_list (map bw xs)) (concat_bv xs)"
proof (induction xs rule: concat_bv.induct)
  case (3 x y xs)
  let ?c = "concat_bv (y # xs)"
  from 3 have c: "sized (sum_list (map bw (y # xs))) ?c" by simp
  have "bn x * 2 ^ bw ?c + bn ?c < 2 ^ (bw x + bw ?c)"
    using 3 c by (intro concat_bits_less) (auto simp: well_sized_def sized_def)
  with c show ?case by (simp add: sized_def)
qed (auto simp: sized_def well_sized_def)

lemma sized_well: "sized w x \<Longrightarrow> well_sized x"
  by (simp add: sized_def well_sized_def)

context arch_hdl
begin

lemma match_cases:
  obtains (arm) p e where "(p, e) \<in> set arms" and "ev \<rho> (MatchE k s arms d) = ev \<rho> e"
  | (default) "ev \<rho> (MatchE k s arms d) = ev \<rho> d"
  unfolding ev_match_find
  by (cases "find (\<lambda>(p, e). bn (ev \<rho> s) = bn (ev \<rho> p)) arms") (auto dest: find_Some_set)

lemma match_sized:
  assumes "synth \<Gamma> (MatchE k s arms d) = Some w" and "synth \<Gamma> d = Some w \<Longrightarrow> sized w (ev \<rho> d)"
    and "\<And>p e. (p, e) \<in> set arms \<Longrightarrow> synth \<Gamma> e = Some w \<Longrightarrow> sized w (ev \<rho> e)"
  shows "sized w (ev \<rho> (MatchE k s arms d))"
  using assms by (cases rule: match_cases [of arms \<rho> k s d]) (auto simp: list_all_iff split: option.splits if_splits)

lemma match_fits:
  assumes "fits \<Gamma> (MatchE k s arms d) w" and "fits \<Gamma> d w \<Longrightarrow> bn (ev \<rho> d) < 2 ^ w"
    and "\<And>p e. (p, e) \<in> set arms \<Longrightarrow> fits \<Gamma> e w \<Longrightarrow> bn (ev \<rho> e) < 2 ^ w"
  shows "bn (ev \<rho> (MatchE k s arms d)) < 2 ^ w"
  using assms by (cases rule: match_cases [of arms \<rho> k s d]) (auto simp: list_all_iff split: option.splits)

lemma concat_sized:
  assumes "synth \<Gamma> (Concat es) = Some w" and "\<And>e v. e \<in> set es \<Longrightarrow> synth \<Gamma> e = Some v \<Longrightarrow> sized v (ev \<rho> e)"
  shows "sized w (ev \<rho> (Concat es))"
proof -
  from assms(1) have ne: "es \<noteq> []" and w: "w = sum_list (map (\<lambda>e. the (synth \<Gamma> e)) es)"
    and some: "\<forall>e \<in> set es. \<exists>v. synth \<Gamma> e = Some v" by (auto split: if_splits)
  have es: "sized (the (synth \<Gamma> e)) (ev \<rho> e)" if "e \<in> set es" for e
    using some assms(2) that by fastforce
  have "map bw (map (ev \<rho>) es) = map (\<lambda>e. the (synth \<Gamma> e)) es"
    using es by (auto simp: sized_def)
  with w have w: "w = sum_list (map bw (map (ev \<rho>) es))" by (simp only:)
  have "sized (sum_list (map bw (map (ev \<rho>) es))) (concat_bv (map (ev \<rho>) es))"
    using es by (intro concat_bv_sized) (auto dest: sized_well)
  then show ?thesis unfolding w ev_concat [OF ne] .
qed

text \<open>A typed expression has a value of its width.\<close>

lemma typing_sound:
  assumes "env_typed \<Gamma> \<rho>"
  shows "(\<forall>w. synth \<Gamma> e = Some w \<longrightarrow> sized w (ev \<rho> e)) \<and> (\<forall>w. fits \<Gamma> e w \<longrightarrow> bn (ev \<rho> e) < 2 ^ w)"
proof (induction e)
  case (Ref r)
  then show ?case using assms by (auto simp: env_typed_def ev_ref sized_def)
next
  case (MatchE k s arms d)
  note IH = MatchE.IH
  have arms: "synth \<Gamma> e = Some w \<Longrightarrow> sized w (ev \<rho> e)" "fits \<Gamma> e w \<Longrightarrow> bn (ev \<rho> e) < 2 ^ w"
    if "(p, e) \<in> set arms" for p e w
    using IH(3) [of "(p, e)" e] that by auto
  show ?case
    using match_sized [of \<Gamma> k s arms d _ \<rho>] match_fits [of \<Gamma> k s arms d _ \<rho>] IH(4) arms by blast
next
  case (Concat es)
  then show ?case using concat_sized [of \<Gamma> es _ \<rho>] by (simp add: sized_def)
next
  case (SliceE e hi lo)
  then show ?case
    by (auto simp: ev_slice sized_def split: option.splits if_splits)
next
  case (BNot e)
  then show ?case by (auto simp: ev_not sized_def well_sized_def)
next
  case (BOr a b)
  then show ?case by (auto simp: ev_or sized_def or_less_pow split: if_splits)
next
  case (BAnd a b)
  then show ?case by (auto simp: ev_and sized_def and_less_pow split: if_splits)
next
  case (BitE e i)
  then show ?case by (auto simp: ev_bit sized_def split: option.splits if_splits)
qed (auto simp: ev_basic ev_hex ev_bin ev_dec lit_ok_def sized_def split: option.splits if_splits)

lemmas synth_sound = typing_sound [THEN conjunct1, rule_format]
lemmas fits_sound = typing_sound [THEN conjunct2, rule_format]

end

section \<open>Packages\<close>

text \<open>
  A package declares enums, structs and buses. A \<open>Handshake n send ready ps\<close> is a channel \<open>n\<close> of a
  bus: sent or received by the initiator, with or without a ready signal, and the payload \<open>ps\<close> with
  the number of blanks the emitter pads each member with.
\<close>

datatype handshake = Handshake string bool bool "(string \<times> nat \<times> nat) list"

datatype pitem =
    EnumP string "string list"
  | StructP string "(string \<times> nat) list"
  | BusP string "handshake list"

record apackage =
  ap_name :: string
  ap_items :: "pitem list"

fun variant_lines :: "string list \<Rightarrow> string list" where
  "variant_lines [] = []"
| "variant_lines (v # vs) = (''    '' @ v @ (if vs \<noteq> [] then '','' else [])) # variant_lines vs"

fun handshake_lines :: "handshake \<Rightarrow> string list" where
  "handshake_lines (Handshake n send ready ps) =
     [''    handshake '' @ n @ '': '' @ (if send then ''send'' else ''receive'') @ '' kind: ''
        @ (if ready then ''valid_ready'' else ''valid_only'')]
     @ map (\<lambda>(m, k, w). ''      '' @ m @ '':'' @ blanks k @ render_ty (TUInt w) @ '';'') ps
     @ [''    end handshake '' @ n]"

fun paragraphs :: "string list list \<Rightarrow> string list" where
  "paragraphs [] = []"
| "paragraphs [ls] = ls"
| "paragraphs (ls # lss) = ls @ [[]] @ paragraphs lss"

fun render_pitem :: "pitem \<Rightarrow> string list" where
  "render_pitem (EnumP n vs) = [''  enum '' @ n] @ variant_lines vs @ [''  end enum '' @ n]"
| "render_pitem (StructP n ms) =
     [''  struct '' @ n] @ map (\<lambda>(m, w). ''    '' @ m @ '': '' @ render_ty (TUInt w) @ '';'') ms
     @ [''  end struct '' @ n]"
| "render_pitem (BusP n hs) = [''  bus '' @ n] @ paragraphs (map handshake_lines hs) @ [''  end bus '' @ n]"

definition render_package :: "apackage \<Rightarrow> string" where
  "render_package p = join newline
     ([''package '' @ ap_name p, []] @ concat (map (\<lambda>i. render_pitem i @ [[]]) (ap_items p))
      @ [''end package '' @ ap_name p, []])"

section \<open>The signals a module declares\<close>

datatype role = Input | Output | Register | Local

type_synonym decl = "aref \<times> nat \<times> role"

text \<open>
  The signals of a bus as its target sees them (docstring of \<^verbatim>\<open>emit_csr_file.py\<close>): of a channel the
  initiator sends, \<^verbatim>\<open>valid\<close> and the payload are inputs and \<^verbatim>\<open>ready\<close> is an output; the other way round
  of a channel it receives.
\<close>

fun handshake_decls :: "string \<Rightarrow> handshake \<Rightarrow> decl list" where
  "handshake_decls x (Handshake n send ready ps) =
     (let fwd = if send then Input else Output; bwd = if send then Output else Input in
      (Mem x (n @ ''_valid''), 1, fwd)
      # (if ready then [(Mem x (n @ ''_ready''), 1, bwd)] else [])
      @ map (\<lambda>(m, k, w). (Mem x (n @ ''_'' @ m), w, fwd)) ps)"

fun struct_of :: "string \<Rightarrow> pitem \<Rightarrow> (string \<times> nat) list option" where
  "struct_of n (StructP m ms) = (if m = n then Some ms else None)"
| "struct_of n _ = None"

fun bus_of :: "string \<Rightarrow> pitem \<Rightarrow> handshake list option" where
  "bus_of n (BusP m hs) = (if m = n then Some hs else None)"
| "bus_of n _ = None"

fun first_some :: "('a \<Rightarrow> 'b option) \<Rightarrow> 'a list \<Rightarrow> 'b option" where
  "first_some f [] = None"
| "first_some f (x # xs) = (case f x of None \<Rightarrow> first_some f xs | Some y \<Rightarrow> Some y)"

text \<open>The text of a port is its direction and its type, with blanks around them.\<close>

definition first_word :: "string \<Rightarrow> string" where
  "first_word t = takeWhile (\<lambda>c. c \<noteq> CHR '' '') (dropWhile (\<lambda>c. c = CHR '' '') t)"

definition port_type :: "string \<Rightarrow> string" where
  "port_type t = dropWhile (\<lambda>c. c = CHR '' '')
     (dropWhile (\<lambda>c. c \<noteq> CHR '' '') (dropWhile (\<lambda>c. c = CHR '' '') t))"

definition timing_type :: "string \<Rightarrow> bool" where
  "timing_type t \<longleftrightarrow> startswith ''Clock<'' t \<or> startswith ''Reset<'' t"

definition scalar_width :: "string \<Rightarrow> nat option" where
  "scalar_width t =
     (if t = ''Bool'' then Some 1
      else if startswith ''UInt<'' t \<and> endswith ''>'' t then read_digits 10 0 False (butlast (drop 5 t))
      else None)"

definition port_decls :: "pitem list \<Rightarrow> string \<Rightarrow> string \<Rightarrow> decl list" where
  "port_decls ps x t =
     (let ty = port_type t; dir = (if first_word t = ''out'' then Output else Input) in
      case scalar_width ty of
        Some w \<Rightarrow> [(Sig x, w, dir)]
      | None \<Rightarrow>
          if timing_type ty then []
          else (case first_some (struct_of ty) ps of
             Some ms \<Rightarrow> map (\<lambda>(m, w). (Mem x m, w, dir)) ms
           | None \<Rightarrow>
               (case first_some (bus_of ty) ps of
                  Some hs \<Rightarrow> concat (map (handshake_decls x) hs)
                | None \<Rightarrow> [])))"

lemma scalar_port:
  "scalar_width (port_type t) = Some w \<Longrightarrow>
   port_decls ps x t = [(Sig x, w, if first_word t = ''out'' then Output else Input)]"
  by (simp add: port_decls_def)

fun item_decls :: "pitem list \<Rightarrow> aitem \<Rightarrow> decl list" where
  "item_decls ps (PortI x t) = port_decls ps x t"
| "item_decls ps (RegStructI x st fs) =
     (case first_some (struct_of st) ps of None \<Rightarrow> [] | Some ms \<Rightarrow> map (\<lambda>(m, w). (Mem x m, w, Register)) ms)"
| "item_decls ps (RegI x t e) = [(Sig x, ty_width t, Register)]"
| "item_decls ps (LetI x k t e) = [(Sig x, ty_width t, Local)]"
| "item_decls ps _ = []"

text \<open>A package is in scope where the module uses it.\<close>

definition in_scope :: "apackage \<Rightarrow> amodule \<Rightarrow> pitem list" where
  "in_scope p m = (if am_use m = Some (ap_name p) then ap_items p else [])"

definition module_decls :: "apackage \<Rightarrow> amodule \<Rightarrow> decl list" where
  "module_decls p m = concat (map (item_decls (in_scope p m)) (am_items m))"

definition module_env :: "apackage \<Rightarrow> amodule \<Rightarrow> tenv" where
  "module_env p m = map_of (map (\<lambda>(r, w, k). (r, w)) (module_decls p m))"

section \<open>Well-typed modules\<close>

fun stmt_typed :: "tenv \<Rightarrow> aref set \<Rightarrow> astmt \<Rightarrow> bool" where
  "stmt_typed \<Gamma> regs (Assign r e) \<longleftrightarrow> r \<in> regs \<and> (case \<Gamma> r of None \<Rightarrow> False | Some w \<Rightarrow> fits \<Gamma> e w)"
| "stmt_typed \<Gamma> regs (IfS c b) \<longleftrightarrow> synth \<Gamma> c = Some 1 \<and> (\<forall>s \<in> set b. stmt_typed \<Gamma> regs s)"

fun item_typed :: "pitem list \<Rightarrow> tenv \<Rightarrow> aref set \<Rightarrow> aitem \<Rightarrow> bool" where
  "item_typed ps \<Gamma> regs (RegStructI x st fs) \<longleftrightarrow>
     (case first_some (struct_of st) ps of None \<Rightarrow> False
      | Some ms \<Rightarrow> list_all2 (\<lambda>(m, w) (n, v). n = m \<and> v < 2 ^ w) ms fs)"
| "item_typed ps \<Gamma> regs (RegI x t e) \<longleftrightarrow> fits \<Gamma> e (ty_width t)"
| "item_typed ps \<Gamma> regs (LetI x k t e) \<longleftrightarrow> fits \<Gamma> e (ty_width t)"
| "item_typed ps \<Gamma> regs (SeqI ss) \<longleftrightarrow> (\<forall>s \<in> set ss. stmt_typed \<Gamma> regs s)"
| "item_typed ps \<Gamma> regs (CombI cs) \<longleftrightarrow>
     (\<forall>(r, k, e) \<in> set cs. case \<Gamma> r of None \<Rightarrow> False | Some w \<Rightarrow> fits \<Gamma> e w)"
| "item_typed ps \<Gamma> regs _ \<longleftrightarrow> True"

definition refs_of :: "role \<Rightarrow> decl list \<Rightarrow> aref list" where
  "refs_of k ds = map fst (filter (\<lambda>(r, w, k'). k' = k) ds)"

fun item_names :: "aitem \<Rightarrow> string list" where
  "item_names (PortI x t) = [x]"
| "item_names (RegStructI x st fs) = [x]"
| "item_names (RegI x t e) = [x]"
| "item_names (LetI x k t e) = [x]"
| "item_names _ = []"

definition module_names :: "amodule \<Rightarrow> string list" where
  "module_names m = concat (map item_names (am_items m))"

text \<open>
  A well-typed module: no two declarations of one name or signal, every \<^verbatim>\<open>let\<close> bound before its use, every item
  typed, and every output driven exactly once.
\<close>

definition well_typed :: "apackage \<Rightarrow> amodule \<Rightarrow> bool" where
  "well_typed p m \<longleftrightarrow>
     (let ds = module_decls p m; \<Gamma> = module_env p m in
      distinct (module_names m) \<and> distinct (map fst ds) \<and> lets_ok (am_items m)
      \<and> list_all (item_typed (in_scope p m) \<Gamma> (set (refs_of Register ds))) (am_items m)
      \<and> distinct (map fst (module_drives m))
      \<and> set (map fst (module_drives m)) = set (refs_of Output ds))"

text \<open>With distinct declarations the environment has exactly the declared widths.\<close>

lemma map_of_decls:
  "distinct (map fst ds) \<Longrightarrow> (r, w, k) \<in> set ds \<Longrightarrow> map_of (map (\<lambda>(r, w, k). (r, w)) ds) r = Some w"
proof -
  assume d: "distinct (map fst ds)" and m: "(r, w, k) \<in> set ds"
  have "map fst (map (\<lambda>(r, w, k). (r, w)) ds) = map fst ds" by auto
  moreover have "(r, w) \<in> set (map (\<lambda>(r, w, k). (r, w)) ds)" using m by force
  ultimately show ?thesis using d by (metis map_of_is_SomeI)
qed

lemma module_env_decl:
  "distinct (map fst (module_decls p m)) \<Longrightarrow> (r, w, k) \<in> set (module_decls p m) \<Longrightarrow> module_env p m r = Some w"
  unfolding module_env_def by (rule map_of_decls)

section \<open>Well-typed modules lose no bits\<close>

text \<open>Every signal that is not bound inside the module holds a value of its declared width.\<close>

definition signals_sized :: "decl list \<Rightarrow> env \<Rightarrow> bool" where
  "signals_sized ds \<rho> \<longleftrightarrow> (\<forall>(r, w, k) \<in> set ds. k \<noteq> Local \<longrightarrow> sized w (\<rho> r))"

text \<open>All signals zero.\<close>

definition zero_env :: "decl list \<Rightarrow> env" where
  "zero_env ds r = (case map_of (map (\<lambda>(r, w, k). (r, w)) ds) r of None \<Rightarrow> BV 0 0 | Some w \<Rightarrow> BV w 0)"

lemma zero_env_sized: "distinct (map fst ds) \<Longrightarrow> signals_sized ds (zero_env ds)"
  by (auto simp: signals_sized_def zero_env_def map_of_decls)

fun assigns :: "astmt \<Rightarrow> (aref \<times> aexpr) list" where
  "assigns (Assign r e) = [(r, e)]"
| "assigns (IfS c b) = concat (map assigns b)"

lemma stmt_typed_assigns:
  "stmt_typed \<Gamma> regs s \<Longrightarrow> (r, e) \<in> set (assigns s) \<Longrightarrow> \<exists>w. r \<in> regs \<and> \<Gamma> r = Some w \<and> fits \<Gamma> e w"
  by (induction s) (auto split: option.splits)

lemma decls_of_item: "i \<in> set (am_items m) \<Longrightarrow> t \<in> set (item_decls (in_scope p m) i) \<Longrightarrow> t \<in> set (module_decls p m)"
  by (auto simp: module_decls_def)

lemma port_decls_role: "(r, w, k) \<in> set (port_decls ps x t) \<Longrightarrow> k = Input \<or> k = Output"
proof -
  have "(r, w, k) \<in> set (handshake_decls x h) \<Longrightarrow> k = Input \<or> k = Output" for h
    by (cases h) (auto simp: Let_def split: if_splits)
  then show "(r, w, k) \<in> set (port_decls ps x t) \<Longrightarrow> k = Input \<or> k = Output"
    by (auto simp: port_decls_def Let_def split: option.splits if_splits)
qed

lemma local_decl:
  "(r, w, Local) \<in> set (item_decls ps i) \<Longrightarrow> \<exists>x k t e. i = LetI x k t e \<and> r = Sig x \<and> w = ty_width t"
  by (cases i) (auto dest: port_decls_role split: option.splits)

lemma item_lets_iff: "x \<in> item_lets is \<longleftrightarrow> (\<exists>k t e. LetI x k t e \<in> set is)"
  by (induction "is" rule: item_lets.induct) auto

lemma distinct_keys: "distinct (map fst ds) \<Longrightarrow> (r, a) \<in> set ds \<Longrightarrow> (r, b) \<in> set ds \<Longrightarrow> a = b"
  by (metis eq_key_imp_eq_value)

context arch_hdl
begin

lemma well_typed_env:
  assumes wt: "well_typed p m" and env: "signals_sized (module_decls p m) \<rho>"
  shows "env_typed (module_env p m) (bind_lets ev \<rho> (am_items m))"
proof -
  let ?ds = "module_decls p m" and ?\<sigma> = "bind_lets ev \<rho> (am_items m)"
  have dist: "distinct (map fst ?ds)" and lets: "lets_ok (am_items m)"
    using wt by (simp_all add: well_typed_def Let_def)
  have "sized w (?\<sigma> r)" if mem: "(r, w, k) \<in> set ?ds" for r w k
  proof (cases "k = Local")
    case True
    with mem obtain x k' t e where i: "LetI x k' t e \<in> set (am_items m)" "r = Sig x" "w = ty_width t"
      by (auto simp: module_decls_def dest: local_decl)
    from bind_lets_equation [OF lets i(1), of \<rho>] show ?thesis by (simp add: i)
  next
    case False
    have "?\<sigma> r = \<rho> r"
    proof (cases r)
      case (Sig x)
      have "x \<notin> item_lets (am_items m)"
      proof
        assume "x \<in> item_lets (am_items m)"
        then obtain k' t e where "LetI x k' t e \<in> set (am_items m)" by (auto simp: item_lets_iff)
        then have "(r, ty_width t, Local) \<in> set ?ds" by (rule decls_of_item) (simp add: Sig)
        from distinct_keys [OF dist mem this] False show False by simp
      qed
      then show ?thesis by (simp add: Sig bind_lets_frame_Sig)
    qed simp
    with env mem False show ?thesis by (auto simp: signals_sized_def)
  qed
  moreover have "\<exists>k. (r, w, k) \<in> set ?ds" if "module_env p m r = Some w" for r w
    using map_of_SomeD [OF that [unfolded module_env_def]] by auto
  ultimately show ?thesis unfolding env_typed_def by blast
qed

lemma well_typed_out:
  assumes wt: "well_typed p m" and env: "signals_sized (module_decls p m) \<rho>" and out: "(r, w, Output) \<in> set (module_decls p m)"
  shows "\<exists>v. module_out ev m \<rho> r = Some v \<and> bn v < 2 ^ w"
proof -
  let ?\<Gamma> = "module_env p m"
  have dist: "distinct (map fst (module_decls p m))" using wt by (simp add: well_typed_def Let_def)
  have "r \<in> set (refs_of Output (module_decls p m))" using out by (force simp: refs_of_def)
  then have "r \<in> fst ` set (module_drives m)" using wt by (simp add: well_typed_def Let_def)
  then obtain e where e: "map_of (module_drives m) r = Some e" by (metis map_of_eq_None_iff not_Some_eq)
  from map_of_SomeD [OF e] obtain i where i: "i \<in> set (am_items m)" "(r, e) \<in> set (item_drives i)"
    by (auto simp: module_drives_def)
  then have "item_typed (in_scope p m) ?\<Gamma> (set (refs_of Register (module_decls p m))) i"
    using wt by (auto simp: well_typed_def Let_def list_all_iff)
  with i(2) module_env_decl [OF dist out] have "fits ?\<Gamma> e w" by (cases i) auto
  from fits_sound [OF well_typed_env [OF wt env] this] e show ?thesis by (simp add: module_out_def)
qed

lemma well_typed_assign:
  assumes wt: "well_typed p m" and env: "signals_sized (module_decls p m) \<rho>"
    and st: "(r, e) \<in> set (concat (map assigns (module_stmts m)))"
  shows "bn (ev (bind_lets ev \<rho> (am_items m)) e) < 2 ^ bw (\<rho> r)"
proof -
  let ?\<Gamma> = "module_env p m" and ?ds = "module_decls p m"
  from st obtain i s where i: "i \<in> set (am_items m)" "s \<in> set (item_stmts i)" "(r, e) \<in> set (assigns s)"
    by (auto simp: module_stmts_def)
  then have "item_typed (in_scope p m) ?\<Gamma> (set (refs_of Register ?ds)) i"
    using wt by (auto simp: well_typed_def Let_def list_all_iff)
  with i(2) have "stmt_typed ?\<Gamma> (set (refs_of Register ?ds)) s" by (cases i) auto
  from stmt_typed_assigns [OF this i(3)] obtain w where
    r: "r \<in> set (refs_of Register ?ds)" "?\<Gamma> r = Some w" "fits ?\<Gamma> e w" by blast
  from r(1) obtain w' where mem: "(r, w', Register) \<in> set ?ds" by (auto simp: refs_of_def)
  have "w' = w" using wt r(2) module_env_decl [OF _ mem] by (simp add: well_typed_def Let_def)
  with mem env have "bw (\<rho> r) = w" by (auto simp: signals_sized_def sized_def)
  with fits_sound [OF well_typed_env [OF wt env] r(3)] show ?thesis by simp
qed

lemma well_typed_next:
  assumes wt: "well_typed p m" and env: "signals_sized (module_decls p m) \<rho>"
    and reg: "(r, w, Register) \<in> set (module_decls p m)"
  shows "sized w (module_next ev nxt m \<rho> r)"
proof -
  let ?\<sigma> = "bind_lets ev \<rho> (am_items m)"
  have "module_env p m r = Some w"
    using wt reg by (intro module_env_decl) (simp_all add: well_typed_def Let_def)
  with well_typed_env [OF wt env] have s: "sized w (?\<sigma> r)" by (auto simp: env_typed_def)
  have "bw (arch_run ev ?\<sigma> ?\<sigma> ss r) = w" "well_sized (arch_run ev ?\<sigma> ?\<sigma> ss r)" for ss
    using arch_run_bw [of ?\<sigma> r ?\<sigma> ev ss] arch_run_well_sized [of ?\<sigma> r ev ?\<sigma> ss] s by (auto simp: sized_def well_sized_def)
  then show ?thesis by (simp add: module_next_def nxt_run sized_def well_sized_def)
qed

end

end
