(* ===== verification/CsrScope.thy ===== *)
theory CsrScope
  imports CsrRead TrapCoord Typing
begin

text \<open>
  The declarations of the generated package (\<^verbatim>\<open>emit_csr_package.py\<close>): \<open>csr_package\<close> is its syntax tree,
  \<open>package_text\<close> says that rendering it gives the emitted text. \<open>csr_module_decls\<close> computes the signals
  the CSR file declares against this package, \<open>csr_decls_distinct\<close> that none is declared twice.
\<close>

section \<open>The package\<close>

definition or_reserved :: "(string \<times> nat) list \<Rightarrow> (string \<times> nat) list" where
  "or_reserved ms = (if ms = [] then [(''_reserved'', 1)] else ms)"

definition cmd_channel :: "csr_design \<Rightarrow> handshake" where
  "cmd_channel design =
     Handshake ''cmd'' True True [(''addr'', 2, 12), (''op'', 4, 2), (''wdata'', 1, d_xlen design)]"

definition rsp_channel :: "csr_design \<Rightarrow> handshake" where
  "rsp_channel design = Handshake ''rsp'' False False [(''rdata'', 1, d_xlen design)]"

definition reg_struct :: "csr_reg \<Rightarrow> pitem" where
  "reg_struct reg = StructP (r_struct_name reg) (map (\<lambda>f. (f_name f, f_width f)) (r_fields reg))"

definition csr_package :: "csr_design \<Rightarrow> apackage" where
  "csr_package design = \<lparr>ap_name = d_package_name design, ap_items =
     [EnumP (d_csr_enum_name design) (map r_enum_variant (d_regs design))]
     @ map reg_struct (d_regs design)
     @ [StructP (d_hwif_in_struct design) (or_reserved (hwif_in_members design)),
        StructP (d_hwif_out_struct design) (or_reserved (hwif_out_members design)),
        BusP (d_csr_file_bus design) [cmd_channel design, rsp_channel design]]\<rparr>"

lemma enum_variants: "enum_lines regs = variant_lines (map r_enum_variant regs)"
  by (induction regs) auto

lemma member_text:
  "map (\<lambda>(m, w). ''    '' @ m @ '': '' @ render_ty (TUInt w) @ '';'') (or_reserved ms) = member_lines ms"
  by (auto simp: or_reserved_def member_lines_def uint_def nat_dec_small)

lemma struct_text: "render_pitem (reg_struct reg) @ [[]] = struct_lines reg"
  by (simp add: reg_struct_def struct_lines_def uint_def comp_def)

lemma package_text: "emit_package design = render_package (csr_package design)"
proof -
  have structs: "concat (map (\<lambda>i. render_pitem i @ [[]]) (map reg_struct regs)) = concat (map struct_lines regs)"
    for regs using struct_text by (induction regs) auto
  show ?thesis
    unfolding emit_package_def render_package_def
    by (rule arg_cong [where f = "join newline"])
      (simp add: csr_package_def structs enum_variants member_text [simplified] cmd_channel_def
        rsp_channel_def uint_def del: map_map)
qed

section \<open>Names\<close>

text \<open>A type name that a port can mention: it does not start with a blank and is no built-in type.\<close>

definition type_name :: "string \<Rightarrow> bool" where
  "type_name n \<longleftrightarrow> clean n \<and> scalar_width n = None \<and> \<not> timing_type n"

lemma port_words:
  "first_word ('' in '' @ n) = ''in''" "first_word (''  in '' @ n) = ''in''"
  "first_word (''  in  '' @ n) = ''in''"
  "first_word ('' out '' @ n) = ''out''" "first_word ('' target '' @ n) = ''target''"
  by (simp_all add: first_word_def)

lemma port_types:
  assumes "clean n"
  shows "port_type ('' in '' @ n) = n" "port_type (''  in '' @ n) = n" "port_type (''  in  '' @ n) = n"
    "port_type ('' out '' @ n) = n" "port_type ('' target '' @ n) = n"
proof -
  have "dropWhile (\<lambda>c. c = CHR '' '') n = n" using assms by (cases n) (auto simp: clean_def)
  then show "port_type ('' in '' @ n) = n" "port_type (''  in '' @ n) = n" "port_type (''  in  '' @ n) = n"
    "port_type ('' out '' @ n) = n" "port_type ('' target '' @ n) = n" by (simp_all add: port_type_def)
qed

lemma uint_width: "clean (uint w)" "scalar_width (uint w) = Some w"
proof -
  show "clean (uint w)" by (simp add: uint_def clean_def)
  have "read_digits 10 0 False (nat_dec w) = Some w"
    using nat_dec_nonempty [of w] read_nat_dec [of w] by (cases "nat_dec w") (auto split: option.splits if_splits)
  then show "scalar_width (uint w) = Some w"
    by (auto simp: scalar_width_def uint_def endswith_iff startswith_iff)
qed

section \<open>The signals of the CSR file\<close>

text \<open>The names the CSR file declares, and what has to hold of the names and reset values of a design.\<close>

definition csr_names :: "csr_design \<Rightarrow> string list" where
  "csr_names d =
     [''clk'', ''rst'', ''csr'', ''granted''] @ trap_signals d @ increment_enables d
     @ [''hwif_in'', ''hwif_out''] @ map r_state_name (d_regs d)
     @ map (\<lambda>s. s @ ''_r'') (trap_signals d) @ [''csr_rdata_mux'']"

definition typable :: "csr_design \<Rightarrow> bool" where
  "typable d \<longleftrightarrow>
     d_regs d \<noteq> [] \<and> distinct (csr_names d)
     \<and> distinct (map fst (hwif_in_members d)) \<and> distinct (map fst (hwif_out_members d))
     \<and> distinct (map r_struct_name (d_regs d) @ [d_hwif_in_struct d, d_hwif_out_struct d, d_csr_file_bus d])
     \<and> list_all type_name [d_hwif_in_struct d, d_hwif_out_struct d, d_csr_file_bus d]
     \<and> (\<forall>reg \<in> set (d_regs d). \<forall>f \<in> set (r_fields reg). f_reset f < 2 ^ f_width f)"

definition csr_decls :: "csr_design \<Rightarrow> decl list" where
  "csr_decls d =
     [(Mem ''csr'' ''cmd_valid'', 1, Input), (Mem ''csr'' ''cmd_ready'', 1, Output),
      (Mem ''csr'' ''cmd_addr'', 12, Input), (Mem ''csr'' ''cmd_op'', 2, Input),
      (Mem ''csr'' ''cmd_wdata'', d_xlen d, Input), (Mem ''csr'' ''rsp_valid'', 1, Output),
      (Mem ''csr'' ''rsp_rdata'', d_xlen d, Output), (Sig ''granted'', 1, Input)]
     @ map (\<lambda>s. (Sig s, 1, Output)) (trap_signals d)
     @ map (\<lambda>p. (Sig p, 1, Input)) (increment_enables d)
     @ map (\<lambda>(m, w). (Mem ''hwif_in'' m, w, Input)) (or_reserved (hwif_in_members d))
     @ map (\<lambda>(m, w). (Mem ''hwif_out'' m, w, Output)) (or_reserved (hwif_out_members d))
     @ concat (map (\<lambda>reg. map (\<lambda>f. (fref reg f, f_width f, Register)) (r_fields reg)) (d_regs d))
     @ map (\<lambda>s. (Sig (s @ ''_r''), 1, Register)) (trap_signals d)
     @ [(Sig ''csr_rdata_mux'', d_xlen d, Local)]"

lemma first_some_append: "first_some f (xs @ ys) = (case first_some f xs of None \<Rightarrow> first_some f ys | Some y \<Rightarrow> Some y)"
  by (induction xs) (auto split: option.splits)

lemma first_some_none: "(\<And>x. x \<in> set xs \<Longrightarrow> f x = None) \<Longrightarrow> first_some f xs = None"
  by (induction xs) auto

lemma regs_struct: "n \<notin> set (map r_struct_name regs) \<Longrightarrow> first_some (struct_of n) (map reg_struct regs) = None"
  by (rule first_some_none) (auto simp: reg_struct_def)

lemma regs_bus: "first_some (bus_of n) (map reg_struct regs) = None"
  by (rule first_some_none) (auto simp: reg_struct_def)

lemma reg_struct_lookup:
  "distinct (map r_struct_name regs) \<Longrightarrow> reg \<in> set regs \<Longrightarrow>
   first_some (struct_of (r_struct_name reg)) (map reg_struct regs) = Some (map (\<lambda>f. (f_name f, f_width f)) (r_fields reg))"
  by (induction regs) (auto simp: reg_struct_def)

lemma package_structs:
  assumes ok: "typable d"
  shows
  "first_some (struct_of (d_hwif_in_struct d)) (ap_items (csr_package d)) = Some (or_reserved (hwif_in_members d))"
  "first_some (struct_of (d_hwif_out_struct d)) (ap_items (csr_package d)) = Some (or_reserved (hwif_out_members d))"
  "first_some (struct_of (d_csr_file_bus d)) (ap_items (csr_package d)) = None"
  "first_some (bus_of (d_csr_file_bus d)) (ap_items (csr_package d)) = Some [cmd_channel d, rsp_channel d]"
  "reg \<in> set (d_regs d) \<Longrightarrow> first_some (struct_of (r_struct_name reg)) (ap_items (csr_package d))
     = Some (map (\<lambda>f. (f_name f, f_width f)) (r_fields reg))"
  using ok by (auto simp: typable_def csr_package_def first_some_append regs_struct regs_bus reg_struct_lookup)

definition csr_module_of :: "csr_design \<Rightarrow> amodule" where
  "csr_module_of d = \<lparr>am_use = Some (d_package_name d), am_name = d_module_name d, am_items = csr_items_of d\<rparr>"

lemma type_nameD: "type_name n \<Longrightarrow> scalar_width n = None" "type_name n \<Longrightarrow> clean n" "type_name n \<Longrightarrow> \<not> timing_type n"
  by (simp_all add: type_name_def)

lemma builtin_ports [simp]:
  "port_decls ps x '' in Bool'' = [(Sig x, 1, Input)]" "port_decls ps x '' out Bool'' = [(Sig x, 1, Output)]"
  "port_decls ps x '' in Clock<SysDomain>'' = []" "port_decls ps x '' in Reset<Async, Low>'' = []"
  by (simp_all add: port_decls_def port_type_def first_word_def scalar_width_def timing_type_def startswith_def)

lemma concat_singletons: "concat (map (\<lambda>x. [f x]) xs) = map f xs"
  by (induction xs) auto

lemma csr_module_decls:
  assumes "typable d"
  shows "module_decls (csr_package d) (csr_module_of d) = csr_decls d"
proof -
  let ?ps = "ap_items (csr_package d)"
  have scope: "in_scope (csr_package d) (csr_module_of d) = ?ps"
    by (simp add: in_scope_def csr_package_def csr_module_of_def)
  have tn: "type_name (d_hwif_in_struct d)" "type_name (d_hwif_out_struct d)" "type_name (d_csr_file_bus d)"
    using assms by (simp_all add: typable_def)
  have regs: "concat (map (\<lambda>reg. item_decls ?ps (RegStructI (r_state_name reg) (r_struct_name reg)
        (map (\<lambda>f. (f_name f, f_reset f)) (r_fields reg)))) (d_regs d))
      = concat (map (\<lambda>reg. map (\<lambda>f. (fref reg f, f_width f, Register)) (r_fields reg)) (d_regs d))"
    by (rule arg_cong [where f = concat], rule map_cong [OF refl])
      (simp add: package_structs [OF assms] comp_def)
  have ports: "port_decls ?ps ''hwif_in'' (''  in '' @ d_hwif_in_struct d) = map (\<lambda>(m, w). (Mem ''hwif_in'' m, w, Input)) (or_reserved (hwif_in_members d))"
    "port_decls ?ps ''hwif_out'' ('' out '' @ d_hwif_out_struct d) = map (\<lambda>(m, w). (Mem ''hwif_out'' m, w, Output)) (or_reserved (hwif_out_members d))"
    "port_decls ?ps ''csr'' ('' target '' @ d_csr_file_bus d) = concat (map (handshake_decls ''csr'') [cmd_channel d, rsp_channel d])"
    using tn [THEN type_nameD(1)] tn [THEN type_nameD(2)] tn [THEN type_nameD(3)]
    by (simp_all add: port_decls_def port_types [simplified] port_words [simplified] package_structs [OF assms])
  show ?thesis
    unfolding module_decls_def scope
    unfolding csr_module_of_def csr_items_of_def csr_items_def
    by (simp add: ports [simplified] regs [simplified] comp_def concat_singletons csr_decls_def
        cmd_channel_def rsp_channel_def Let_def)
qed

lemma csr_module_names: "module_names (csr_module_of d) = csr_names d"
  by (simp add: module_names_def csr_module_of_def csr_items_of_def csr_items_def csr_names_def comp_def
      concat_singletons)

text \<open>A list of lists of pairs whose keys carry the name of their list.\<close>

lemma distinct_mem_concat:
  "distinct (map b xs) \<Longrightarrow> (\<And>x. x \<in> set xs \<Longrightarrow> distinct (map g (fs x))) \<Longrightarrow>
   distinct (concat (map (\<lambda>x. map (\<lambda>f. Mem (b x) (g f)) (fs x)) xs))"
  by (induction xs) (auto simp: distinct_map inj_on_def)

lemma or_reserved_keys: "distinct (map fst ms) \<Longrightarrow> distinct (map fst (or_reserved ms))"
  by (simp add: or_reserved_def)

lemma csr_decl_keys: "map fst (csr_decls d) =
    map (Mem ''csr'') [''cmd_valid'', ''cmd_ready'', ''cmd_addr'', ''cmd_op'', ''cmd_wdata'', ''rsp_valid'', ''rsp_rdata'']
    @ map Sig ([''granted''] @ trap_signals d @ increment_enables d)
    @ map (Mem ''hwif_in'') (map fst (or_reserved (hwif_in_members d)))
    @ map (Mem ''hwif_out'') (map fst (or_reserved (hwif_out_members d)))
    @ concat (map (\<lambda>reg. map (\<lambda>f. fref reg f) (r_fields reg)) (d_regs d))
    @ map Sig (map (\<lambda>s. s @ ''_r'') (trap_signals d) @ [''csr_rdata_mux''])"
  by (simp add: csr_decls_def map_concat comp_def case_prod_beta)

lemma distinct_map_inj [simp]: "distinct (map Sig xs) = distinct xs" "distinct (map (Mem b) xs) = distinct xs"
  by (simp_all add: distinct_map inj_on_def)

lemma csr_decls_distinct:
  assumes "wf_design d" and "typable d"
  shows "distinct (map fst (csr_decls d))"
proof -
  have n: "distinct (csr_names d)" and i: "distinct (map fst (or_reserved (hwif_in_members d)))"
    and out: "distinct (map fst (or_reserved (hwif_out_members d)))"
    using assms(2) by (simp_all add: typable_def or_reserved_keys)
  have "distinct (map r_state_name (d_regs d))" using n by (simp add: csr_names_def)
  then have regs: "distinct (concat (map (\<lambda>reg. map (\<lambda>f. fref reg f) (r_fields reg)) (d_regs d)))"
    using wf_designD(3) [OF assms(1)] by (intro distinct_mem_concat) (auto simp: reg_layout_def)
  have names: "''csr'' \<notin> r_state_name ` set (d_regs d)" "''hwif_in'' \<notin> r_state_name ` set (d_regs d)"
     "''hwif_out'' \<notin> r_state_name ` set (d_regs d)"
    and sigs: "distinct (''granted'' # trap_signals d @ increment_enables d @ map (\<lambda>s. s @ ''_r'') (trap_signals d) @ [''csr_rdata_mux''])"
    using n unfolding csr_names_def by auto
  show ?thesis
    unfolding csr_decl_keys distinct_append distinct_map_inj
    using names sigs i out regs by (auto simp: image_iff)
qed

end
