(* ===== verification/CsrTypes.thy ===== *)
theory CsrTypes
  imports CsrScope
begin

text \<open>
  The CSR file is well typed against its package (\<open>csr_well_typed\<close>): the width of every expression the
  emitter builds, the typing of every statement, and the drives of the outputs.
\<close>

section \<open>Typing the expressions\<close>

text \<open>What the typing environment of the CSR file gives.\<close>

definition csr_tenv :: "csr_design \<Rightarrow> tenv \<Rightarrow> bool" where
  "csr_tenv d \<Gamma> \<longleftrightarrow> (\<forall>(r, w, k) \<in> set (csr_decls d). \<Gamma> r = Some w)"

lemma csr_module_tenv:
  assumes "wf_design d" and "typable d"
  shows "csr_tenv d (module_env (csr_package d) (csr_module_of d))"
proof -
  have "distinct (map fst (module_decls (csr_package d) (csr_module_of d)))"
    using csr_decls_distinct [OF assms] by (simp add: csr_module_decls [OF assms(2)])
  from module_env_decl [OF this] show ?thesis
    by (auto simp: csr_tenv_def csr_module_decls [OF assms(2)])
qed

lemma csr_tenvD:
  assumes "csr_tenv d \<Gamma>"
  shows "\<Gamma> (Mem ''csr'' ''cmd_valid'') = Some 1" "\<Gamma> (Mem ''csr'' ''cmd_ready'') = Some 1"
    "\<Gamma> (Mem ''csr'' ''cmd_addr'') = Some 12" "\<Gamma> (Mem ''csr'' ''cmd_op'') = Some 2"
    "\<Gamma> (Mem ''csr'' ''cmd_wdata'') = Some (d_xlen d)" "\<Gamma> (Mem ''csr'' ''rsp_valid'') = Some 1"
    "\<Gamma> (Mem ''csr'' ''rsp_rdata'') = Some (d_xlen d)"
    "\<Gamma> (Sig ''granted'') = Some 1" "\<Gamma> (Sig ''csr_rdata_mux'') = Some (d_xlen d)"
  using assms unfolding csr_tenv_def csr_decls_def by simp_all

lemma csr_tenv_signals:
  assumes "csr_tenv d \<Gamma>"
  shows "s \<in> set (trap_signals d) \<Longrightarrow> \<Gamma> (Sig s) = Some 1"
    and "s \<in> set (trap_signals d) \<Longrightarrow> \<Gamma> (Sig (s @ ''_r'')) = Some 1"
    and "p \<in> set (increment_enables d) \<Longrightarrow> \<Gamma> (Sig p) = Some 1"
    and "(m, w) \<in> set (hwif_in_members d) \<Longrightarrow> \<Gamma> (Mem ''hwif_in'' m) = Some w"
    and "(m, w) \<in> set (hwif_out_members d) \<Longrightarrow> \<Gamma> (Mem ''hwif_out'' m) = Some w"
    and "reg \<in> set (d_regs d) \<Longrightarrow> f \<in> set (r_fields reg) \<Longrightarrow> \<Gamma> (fref reg f) = Some (f_width f)"
proof -
  have r: "ms \<noteq> [] \<Longrightarrow> or_reserved ms = ms" for ms by (simp add: or_reserved_def)
  have D: "(r, w, k) \<in> set (csr_decls d) \<Longrightarrow> \<Gamma> r = Some w" for r w k
    using assms by (auto simp: csr_tenv_def)
  show "s \<in> set (trap_signals d) \<Longrightarrow> \<Gamma> (Sig s) = Some 1"
    by (rule D [where k = Output]) (simp add: csr_decls_def image_iff)
  show "s \<in> set (trap_signals d) \<Longrightarrow> \<Gamma> (Sig (s @ ''_r'')) = Some 1"
    by (rule D [where k = Register]) (simp add: csr_decls_def image_iff)
  show "p \<in> set (increment_enables d) \<Longrightarrow> \<Gamma> (Sig p) = Some 1"
    by (rule D [where k = Input]) (simp add: csr_decls_def image_iff)
  show "(m, w) \<in> set (hwif_in_members d) \<Longrightarrow> \<Gamma> (Mem ''hwif_in'' m) = Some w"
    by (rule D [where k = Input]) (subst csr_decls_def, subst r, auto)
  show "(m, w) \<in> set (hwif_out_members d) \<Longrightarrow> \<Gamma> (Mem ''hwif_out'' m) = Some w"
    by (rule D [where k = Output]) (subst csr_decls_def, subst (2) r, auto)
  show "reg \<in> set (d_regs d) \<Longrightarrow> f \<in> set (r_fields reg) \<Longrightarrow> \<Gamma> (fref reg f) = Some (f_width f)"
    by (rule D [where k = Register]) (auto simp: csr_decls_def)
qed

lemma synth_slice:
  assumes "field_layout reg f" and "f_msb f < xlen" and "\<Gamma> (Mem ''csr'' ''cmd_wdata'') = Some xlen"
  shows "synth \<Gamma> (slice_expr f) = Some (f_width f)"
  using assms by (auto simp: slice_expr_def field_layout_def)

lemma synth_op_match:
  assumes "field_layout reg f" and "f_msb f < xlen" and "\<Gamma> (Mem ''csr'' ''cmd_wdata'') = Some xlen"
    and "\<Gamma> (Mem ''csr'' ''cmd_op'') = Some 2" and "\<Gamma> old = Some (f_width f)"
  shows "synth \<Gamma> (op_match_expr f old) = Some (f_width f)"
  using assms by (simp add: op_match_expr_def synth_slice [where \<Gamma> = \<Gamma>, OF assms(1-3)])

lemma synth_field_write:
  assumes "field_layout reg f" and "f_msb f < xlen" and "\<Gamma> (Mem ''csr'' ''cmd_wdata'') = Some xlen"
    and "\<Gamma> (Mem ''csr'' ''cmd_op'') = Some 2" and "\<Gamma> old = Some (f_width f)" and "warl_fits f"
  shows "synth \<Gamma> (field_write_expr f old) = Some (f_width f)"
proof -
  note m = synth_op_match [where \<Gamma> = \<Gamma>, OF assms(1-5)]
  have lit: "lit_ok 16 (f_width f) (int_hex v)" if "f_warl f = Some (Enum xs)" "v \<in> set xs" for xs v
    using assms(6) that by (auto simp: warl_fits_def int_hex_def nat_less_iff)
  have hd: "hd (sort (remdups xs)) \<in> set xs" if "xs \<noteq> []" for xs :: "int list"
    using that by (metis hd_in_set set_remdups set_sort sort_remdups_Nil)
  have ne: "xs \<noteq> []" if "f_warl f = Some (Enum xs)" for xs
    using assms(6) that by (simp add: warl_fits_def)
  show ?thesis
    using lit hd ne
    by (auto simp: field_write_expr_def m mask_value_less Let_def list_all_iff split: option.splits warl.splits)
qed

lemma synth_zero: "synth \<Gamma> (zero_expr w) = Some w"
  by (simp add: zero_expr_def)

lemma synth_field_read: "\<Gamma> (Mem st (f_name f)) = Some (f_width f) \<Longrightarrow> synth \<Gamma> (field_read_expr f st) = Some (f_width f)"
  by (simp add: field_read_expr_def synth_zero)

text \<open>The parts of a read: their widths add up to the width of the register.\<close>

definition parts_width :: "tenv \<Rightarrow> aexpr list \<Rightarrow> nat option" where
  "parts_width \<Gamma> es = (if \<exists>e \<in> set es. synth \<Gamma> e = None then None
     else Some (sum_list (map (\<lambda>e. the (synth \<Gamma> e)) es)))"

lemma parts_width_append:
  "parts_width \<Gamma> xs = Some m \<Longrightarrow> parts_width \<Gamma> ys = Some n \<Longrightarrow> parts_width \<Gamma> (xs @ ys) = Some (m + n)"
  by (auto simp: parts_width_def split: if_splits)

lemma parts_gap: "parts_width \<Gamma> (gap_expr n) = Some (nat n)"
  by (simp add: gap_expr_def parts_width_def)

lemma parts_one: "synth \<Gamma> e = Some w \<Longrightarrow> parts_width \<Gamma> [e] = Some w"
  by (simp add: parts_width_def)

lemma parts_concat: "parts_width \<Gamma> es = Some w \<Longrightarrow> es \<noteq> [] \<Longrightarrow> synth \<Gamma> (Concat es) = Some w"
  by (auto simp: parts_width_def split: if_splits)

lemma parts_read:
  "descending n fs \<Longrightarrow> \<forall>f \<in> set fs. \<Gamma> (Mem st (f_name f)) = Some (f_width f) \<Longrightarrow>
   parts_width \<Gamma> (read_part_exprs st (int n - 1) fs) = Some n"
proof (induction fs arbitrary: n)
  case Nil
  then show ?case by (simp add: parts_gap)
next
  case (Cons f fs)
  have rest: "parts_width \<Gamma> (read_part_exprs st (int (f_lsb f) - 1) fs) = Some (f_lsb f)"
    using Cons by simp
  have f: "parts_width \<Gamma> [field_read_expr f st] = Some (f_width f)"
    using Cons.prems(2) by (simp add: parts_one synth_field_read)
  have "nat (int n - 1 - int (f_msb f)) + (f_width f + f_lsb f) = n" using Cons.prems(1) by auto
  with parts_width_append [OF parts_gap parts_width_append [OF f rest]] show ?case by simp
qed

lemma synth_reg_value:
  assumes wf: "wf_design d" and env: "csr_tenv d \<Gamma>" and reg: "reg \<in> set (d_regs d)"
  shows "synth \<Gamma> (reg_value_expr reg (d_xlen d)) = Some (d_xlen d)"
proof (cases "r_fields reg = []")
  case False
  let ?w = "r_regwidth reg" and ?fs = "sort_key_desc f_lsb (r_fields reg)"
  let ?es = "read_part_exprs (r_state_name reg) (int ?w - 1) ?fs"
  let ?body = "if length ?es = 1 then hd ?es else Concat ?es"
  have parts: "parts_width \<Gamma> ?es = Some ?w"
    using csr_tenv_signals(6) [OF env reg] by (intro parts_read reg_descending wf_designD(3) [OF wf reg]) auto
  have "length ?fs > 0" using False by simp
  then have ne: "?es \<noteq> []" by (cases ?fs) auto
  have body: "synth \<Gamma> ?body = Some ?w"
  proof (cases "length ?es = 1")
    case True
    then obtain e where e: "?es = [e]" by (auto simp: length_Suc_conv)
    with parts show ?thesis by (auto simp: parts_width_def split: if_splits)
  qed (simp del: synth.simps add: parts_concat [OF parts ne])
  have wide: "synth \<Gamma> (Concat [HexLit (d_xlen d - ?w) ''0'', ?body]) = Some (d_xlen d - ?w + ?w)"
    using parts_concat [OF parts_width_append [OF parts_one parts_one [OF body]], of "HexLit (d_xlen d - ?w) ''0''" "d_xlen d - ?w"]
    by simp
  have e: "reg_value_expr reg (d_xlen d) =
      (if ?w < d_xlen d then Concat [HexLit (d_xlen d - ?w) ''0'', ?body] else ?body)"
    using False by (simp add: reg_value_expr_def Let_def)
  show ?thesis
  proof (cases "?w < d_xlen d")
    case True
    then have "d_xlen d - ?w + ?w = d_xlen d" by simp
    with True show ?thesis by (simp only: e wide if_True)
  next
    case False
    then have "?w = d_xlen d" using wf_designD(6) [OF wf reg] by simp
    with False body show ?thesis by (simp only: e if_False)
  qed
qed (simp add: reg_value_expr_def synth_zero)

section \<open>Typing the statements\<close>

definition csr_regs :: "csr_design \<Rightarrow> aref set" where
  "csr_regs d = {fref reg f | reg f. reg \<in> set (d_regs d) \<and> f \<in> set (r_fields reg)}
     \<union> {Sig (s @ ''_r'') | s. s \<in> set (trap_signals d)}"

lemma refs_of_simps [simp]:
  "refs_of k [] = []"
  "refs_of k ((r, w, k') # ds) = (if k' = k then r # refs_of k ds else refs_of k ds)"
  "refs_of k (ds @ es) = refs_of k ds @ refs_of k es"
  by (simp_all add: refs_of_def)

lemma refs_of_maps [simp]:
  "refs_of k (map (\<lambda>x. (g x, h x, k')) xs) = (if k' = k then map g xs else [])"
  "refs_of k (map (\<lambda>(m, w). (Mem b m, w, k')) ms) = (if k' = k then map (Mem b) (map fst ms) else [])"
proof -
  show "refs_of k (map (\<lambda>x. (g x, h x, k')) xs) = (if k' = k then map g xs else [])"
    by (induction xs) auto
  show "refs_of k (map (\<lambda>(m, w). (Mem b m, w, k')) ms) = (if k' = k then map (Mem b) (map fst ms) else [])"
    by (induction ms) auto
qed

lemma refs_of_concat: "refs_of k (concat (map f xs)) = concat (map (\<lambda>x. refs_of k (f x)) xs)"
  by (induction xs) auto

lemma csr_register_refs: "set (refs_of Register (csr_decls d)) = csr_regs d"
  by (auto simp: csr_decls_def csr_regs_def refs_of_concat)

lemma csr_output_refs: "refs_of Output (csr_decls d) =
    [Mem ''csr'' ''cmd_ready'', Mem ''csr'' ''rsp_valid'', Mem ''csr'' ''rsp_rdata'']
    @ map Sig (trap_signals d) @ map (Mem ''hwif_out'') (map fst (or_reserved (hwif_out_members d)))"
  by (simp add: csr_decls_def refs_of_concat del: map_map)

lemma trap_signal_set:
  assumes "reg \<in> set (d_regs d)"
  shows "truthy (r_trap_signal reg) \<Longrightarrow> the (r_trap_signal reg) \<in> set (trap_signals d)"
    and "f \<in> set (r_fields reg) \<Longrightarrow> truthy (f_trap_signal f) \<Longrightarrow> the (f_trap_signal f) \<in> set (trap_signals d)"
  using assms by (auto simp: trap_signals_def all_trap_signals_def)

lemma increment_enable_set:
  "reg \<in> set (d_regs d) \<Longrightarrow> f \<in> set (r_fields reg) \<Longrightarrow> truthy (f_hw_increment_when f) \<Longrightarrow>
   the (f_hw_increment_when f) \<in> set (increment_enables d)"
  by (auto simp: increment_enables_def)

lemma pulse_typed:
  assumes "csr_tenv d \<Gamma>" and "truthy s \<Longrightarrow> the s \<in> set (trap_signals d)"
  shows "\<forall>st \<in> set (pulse_stmts s). stmt_typed \<Gamma> (csr_regs d) st"
  using assms csr_tenv_signals(2) [OF assms(1)] by (auto simp: pulse_stmts_def csr_regs_def)

lemma assign_typed:
  assumes "csr_tenv d \<Gamma>" and "reg \<in> set (d_regs d)" and "f \<in> set (r_fields reg)" and "synth \<Gamma> e = Some (f_width f)"
  shows "stmt_typed \<Gamma> (csr_regs d) (Assign (fref reg f) e)"
  using assms csr_tenv_signals(6) [OF assms(1-3)] by (auto simp: csr_regs_def synth_fits)

lemma reg_stmts_typed:
  assumes wf: "wf_design d" and env: "csr_tenv d \<Gamma>" and reg: "reg \<in> set (d_regs d)"
  shows "\<forall>st \<in> set (reg_stmts reg). stmt_typed \<Gamma> (csr_regs d) st"
proof -
  have "\<forall>st \<in> set (field_stmts reg f). stmt_typed \<Gamma> (csr_regs d) st" if f: "f \<in> set (r_fields reg)" for f
  proof -
    note w = wf_fieldD [OF wf reg f]
    have "stmt_typed \<Gamma> (csr_regs d) (Assign (fref reg f) (field_write_expr f (fref reg f)))"
      by (rule assign_typed [OF env reg f],
          rule synth_field_write [OF w(2) w(6) csr_tenvD(5) [OF env] csr_tenvD(4) [OF env]
            csr_tenv_signals(6) [OF env reg f] w(3)])
    with pulse_typed [OF env trap_signal_set(2) [OF reg f]] show ?thesis
      by (auto simp: field_stmts_def simp del: stmt_typed.simps)
  qed
  with pulse_typed [OF env trap_signal_set(1) [OF reg]] show ?thesis
    by (auto simp: reg_stmts_def)
qed

lemma write_typed:
  assumes wf: "wf_design d" and env: "csr_tenv d \<Gamma>"
  shows "\<forall>st \<in> set (write_stmts d). stmt_typed \<Gamma> (csr_regs d) st"
proof -
  have "stmt_typed \<Gamma> (csr_regs d) (reg_write_stmt reg)" if "reg \<in> set (written_regs d)" for reg
  proof -
    from that have reg: "reg \<in> set (d_regs d)" by (simp add: written_regs_def)
    show ?thesis
      using reg_stmts_typed [OF wf env reg] wf_designD(2) [OF wf reg] csr_tenvD(3) [OF env]
      by (simp add: reg_write_stmt_def)
  qed
  then show ?thesis
    using csr_tenvD [OF env] by (auto simp: write_stmts_def)
qed

lemma hwif_typed:
  assumes env: "csr_tenv d \<Gamma>" and reg: "reg \<in> set (d_regs d)" and f: "f \<in> set (r_fields reg)"
  shows "\<forall>st \<in> set (hwif_stmts reg f). stmt_typed \<Gamma> (csr_regs d) st"
proof -
  have "synth \<Gamma> (Ref (Mem ''hwif_in'' (r_name reg @ ''_'' @ f_name f))) = Some (f_width f)" if "f_hw_writable f"
    using csr_tenv_signals(4) [OF env, of "r_name reg @ ''_'' @ f_name f" "f_width f"] reg f that
    by (auto simp: hwif_in_members_set)
  with assign_typed [OF env reg f] show ?thesis by (auto simp: hwif_stmts_def simp del: stmt_typed.simps)
qed

lemma incr_typed:
  assumes wf: "wf_design d" and env: "csr_tenv d \<Gamma>" and reg: "reg \<in> set (d_regs d)" and f: "f \<in> set (r_fields reg)"
  shows "\<forall>st \<in> set (incr_stmts d reg f). stmt_typed \<Gamma> (csr_regs d) st"
proof -
  have "1 < (2::nat) ^ f_width f" using wf_fieldD(4) [OF wf reg f] by (intro one_less_power) auto
  then have "synth \<Gamma> (AddW (Ref (fref reg f)) (Num 1)) = Some (f_width f)"
    using csr_tenv_signals(6) [OF env reg f] by simp
  then have bump: "stmt_typed \<Gamma> (csr_regs d) (bump_stmt reg f)"
    unfolding bump_stmt_def by (rule assign_typed [OF env reg f])
  consider (low) "truthy (f_hw_increment_when f)"
    | (high) "\<not> truthy (f_hw_increment_when f)" "truthy (f_hw_increment_high_of f)"
    | (none) "\<not> truthy (f_hw_increment_when f)" "\<not> truthy (f_hw_increment_high_of f)" by blast
  then show ?thesis
  proof cases
    case low
    then show ?thesis
      using bump csr_tenv_signals(3) [OF env increment_enable_set [OF reg f low]] by (simp add: incr_stmts_def)
  next
    case high
    from wf_fieldD(1) [OF wf reg f] high(2) obtain low_reg low where
      l: "find_reg d (the (f_hw_increment_high_of f)) = Some low_reg"
         "low_counter_fields low_reg = [low]" "f_width low = f_width f"
      by (auto simp: valid_field_def valid_high_of_def)
    have lr: "low_reg \<in> set (d_regs d)" using l(1) by (auto simp: find_reg_def dest: find_Some_set)
    have "low \<in> set (low_counter_fields low_reg)" using l(2) by simp
    then have lf: "low \<in> set (r_fields low_reg)" "truthy (f_hw_increment_when low)"
      by (simp_all add: low_counter_fields_def)
    have "4 \<le> f_width low" using wf_fieldD(7) [OF wf reg f high(2)] l(3) by simp
    then have "synth \<Gamma> (carry_expr low_reg low) = Some 1"
      using csr_tenv_signals(3) [OF env increment_enable_set [OF lr lf]] csr_tenv_signals(6) [OF env lr lf(1)]
      by (simp add: carry_expr_def lit_low_max)
    with bump high l show ?thesis by (simp add: incr_stmts_def)
  next
    case none
    then show ?thesis by (simp add: incr_stmts_def)
  qed
qed

lemma seq_typed:
  assumes wf: "wf_design d" and env: "csr_tenv d \<Gamma>"
  shows "\<forall>st \<in> set (seq_stmts d (map (\<lambda>reg. concat (map (incr_stmts d reg) (r_fields reg))) (d_regs d))).
    stmt_typed \<Gamma> (csr_regs d) st"
  using write_typed [OF assms] hwif_typed [OF env] incr_typed [OF assms] csr_tenv_signals(2) [OF env]
  by (auto simp: seq_stmts_def csr_regs_def)

section \<open>The CSR file is well typed\<close>

lemma hwif_out_width:
  assumes wf: "wf_design d" and env: "csr_tenv d \<Gamma>" and "(r, k, e) \<in> set (hwif_out_drives d)"
  shows "case \<Gamma> r of None \<Rightarrow> False | Some w \<Rightarrow> fits \<Gamma> e w"
proof -
  from assms(3) consider (fld) reg f where "reg \<in> set (d_regs d)" "f \<in> set (r_fields reg)" "f_hw_readable f"
      "r = Mem ''hwif_out'' (r_name reg @ ''_'' @ f_name f)" "e = Ref (fref reg f)"
    | (flat) reg where "reg \<in> set (d_regs d)" "r = Mem ''hwif_out'' (r_name reg @ ''_rdata_flat'')"
      "e = reg_value_expr reg (d_xlen d)"
    by (auto simp: hwif_out_drives_def split: if_splits)
  then show ?thesis
  proof cases
    case fld
    then have "(r_name reg @ ''_'' @ f_name f, f_width f) \<in> set (hwif_out_members d)"
      by (force simp: hwif_out_members_def)
    from csr_tenv_signals(5) [OF env this] csr_tenv_signals(6) [OF env fld(1,2)] show ?thesis
      by (simp add: fld)
  next
    case flat
    then have "(r_name reg @ ''_rdata_flat'', d_xlen d) \<in> set (hwif_out_members d)"
      by (force simp: hwif_out_members_def)
    from csr_tenv_signals(5) [OF env this] synth_fits [OF synth_reg_value [OF wf env flat(1)]] show ?thesis
      by (simp add: flat)
  qed
qed

lemma lets_ok_map:
  "(\<And>x. x \<in> set xs \<Longrightarrow> item_lets [g x] = {} \<and> let_refs [g x] = {}) \<Longrightarrow>
   lets_ok (map g xs) \<and> item_lets (map g xs) = {} \<and> let_refs (map g xs) = {}"
proof (induction xs)
  case (Cons x xs)
  have "item_lets [g x] = {} \<and> let_refs [g x] = {}" by (rule Cons.prems) simp
  moreover have "lets_ok (map g xs) \<and> item_lets (map g xs) = {} \<and> let_refs (map g xs) = {}"
    using Cons by simp
  moreover have "lets_ok [g x]" using calculation(1) by (cases "g x") auto
  ultimately show ?case using lets_ok_append [of "[g x]" "map g xs"] item_lets_append [of "[g x]" "map g xs"]
      let_refs_append [of "[g x]" "map g xs"] by simp
qed simp

lemma read_refs: "e \<in> set (read_part_exprs st n fs) \<Longrightarrow> expr_refs e \<subseteq> range (Mem st)"
  by (induction st n fs rule: read_part_exprs.induct)
    (auto simp: gap_expr_def field_read_expr_def zero_expr_def split: if_splits)

lemma reg_value_refs: "Sig s \<notin> expr_refs (reg_value_expr reg xlen)"
proof -
  let ?es = "read_part_exprs (r_state_name reg) (int (r_regwidth reg) - 1) (sort_key_desc f_lsb (r_fields reg))"
  have "Sig s \<notin> expr_refs e" if "e \<in> set ?es" for e using read_refs [OF that] by blast
  moreover have "?es \<noteq> []" if "r_fields reg \<noteq> []"
    using that by (cases "sort_key_desc f_lsb (r_fields reg)") (auto dest: arg_cong [where f = length])
  ultimately show ?thesis by (auto simp: reg_value_expr_def Let_def zero_expr_def)
qed

lemma csr_lets_ok: "lets_ok (csr_items_of d)"
  using reg_value_refs by (simp add: csr_items_of_def csr_items_def lets_ok_map)

lemma csr_drive_keys:
  assumes "d_regs d \<noteq> []"
  shows "map fst (concat (map item_drives (csr_items_of d))) = refs_of Output (csr_decls d)"
proof -
  have "hwif_out_members d \<noteq> []" using assms by (cases "d_regs d") (auto simp: hwif_out_members_def)
  then have "or_reserved (hwif_out_members d) = hwif_out_members d" by (simp add: or_reserved_def)
  moreover have "map fst (map (\<lambda>(r, k, e). (r, e)) (hwif_out_drives d)) = map (Mem ''hwif_out'') (map fst (hwif_out_members d))"
    using hwif_out_keys [of d] by (simp add: comp_def case_prod_beta)
  moreover have "map fst (map (\<lambda>s. (Sig s, sig (s @ ''_r''))) ss) = map Sig ss" for ss by simp
  ultimately show ?thesis
    by (simp add: csr_items_drives csr_output_refs del: map_map)
qed

lemma distinct_refs_of: "distinct (map fst ds) \<Longrightarrow> distinct (refs_of k ds)"
  unfolding refs_of_def by (induction ds) auto

lemma csr_items_typed:
  assumes wf: "wf_design d" and ok: "typable d"
  shows "list_all (item_typed (ap_items (csr_package d)) (module_env (csr_package d) (csr_module_of d)) (csr_regs d))
    (csr_items_of d)"
proof -
  let ?ps = "ap_items (csr_package d)" and ?\<Gamma> = "module_env (csr_package d) (csr_module_of d)"
  have env: "csr_tenv d ?\<Gamma>" by (rule csr_module_tenv [OF assms])
  note D = csr_tenvD [OF env] and S = csr_tenv_signals [OF env]
  have regs: "item_typed ?ps ?\<Gamma> (csr_regs d) (RegStructI (r_state_name reg) (r_struct_name reg)
      (map (\<lambda>f. (f_name f, f_reset f)) (r_fields reg)))" if "reg \<in> set (d_regs d)" for reg
    using ok that
    by (simp add: package_structs(5) [OF ok that] typable_def list_all2_map1 list_all2_map2 list_all2_same)
  have arms: "item_typed ?ps ?\<Gamma> (csr_regs d) (LetI ''csr_rdata_mux'' 1 (TUInt (d_xlen d)) (MatchE 1 (csr_port ''cmd_addr'')
      (map (\<lambda>reg. (HexLit 12 (nat_hex (r_address reg)), reg_value_expr reg (d_xlen d))) (d_regs d)) (Num 0)))"
    using wf_designD(2) [OF wf] synth_fits [OF synth_reg_value [OF wf env]] D by (simp add: list_all_iff)
  have seqs: "item_typed ?ps ?\<Gamma> (csr_regs d)
      (SeqI (seq_stmts d (map (\<lambda>reg. concat (map (incr_stmts d reg) (r_fields reg))) (d_regs d))))"
    using seq_typed [OF wf env] by simp
  have combs: "item_typed ?ps ?\<Gamma> (csr_regs d) (CombI ([(Mem ''csr'' ''cmd_ready'', 1, TrueE),
                (Mem ''csr'' ''rsp_valid'', 1, csr_port ''cmd_valid''),
                (Mem ''csr'' ''rsp_rdata'', 1,
                   CondE (csr_port ''cmd_valid'') (sig ''csr_rdata_mux'') (Num 0))]
          @ map (\<lambda>s. (Sig s, 1, sig (s @ ''_r''))) (trap_signals d) @ hwif_out_drives d))"
    using hwif_out_width [OF wf env] D S(1,2) by fastforce
  show ?thesis
    unfolding csr_items_of_def csr_items_def list_all_append
    using regs arms seqs combs by (simp add: list_all_iff del: item_typed.simps(1,2,3,4,5)) auto
qed

lemma csr_well_typed:
  assumes wf: "wf_design d" and ok: "typable d"
  shows "well_typed (csr_package d) (csr_module_of d)"
proof -
  let ?p = "csr_package d" and ?m = "csr_module_of d"
  have scope: "in_scope ?p ?m = ap_items ?p" and items: "am_items ?m = csr_items_of d"
    by (simp_all add: in_scope_def csr_package_def csr_module_of_def)
  have ne: "d_regs d \<noteq> []" and names: "distinct (csr_names d)" using ok by (simp_all add: typable_def)
  have drives: "map fst (module_drives ?m) = refs_of Output (csr_decls d)"
    unfolding module_drives_def items by (rule csr_drive_keys [OF ne])
  show ?thesis
    unfolding well_typed_def Let_def csr_module_decls [OF ok] csr_module_names scope csr_register_refs drives items
    by (intro conjI names csr_lets_ok csr_items_typed [OF assms] csr_decls_distinct [OF assms]
        distinct_refs_of refl)
qed

end
