(* ===== verification/CsrDemo.thy ===== *)
theory CsrDemo
  imports CsrRead
begin

text \<open>
  The CSR file of the demonstration design in a concrete cycle: the scanned design as a table, an
  environment of its ports and registers, and the facts the concrete runs of the theorems need.
\<close>

section \<open>The design as a table\<close>

definition field_view :: "csr_field \<Rightarrow> string \<times> nat \<times> nat \<times> warl option \<times> nat \<times> bool list \<times> string option list" where
  "field_view f = (f_name f, f_width f, f_lsb f, f_warl f, f_reset f,
     [sw_writes f, f_sw_readable f, f_wpri f, f_hw_writable f, f_hw_readable f, counter_tag f],
     [f_trap_signal f, f_hw_increment_when f, f_hw_increment_high_of f])"

definition reg_view :: "csr_reg \<Rightarrow> string \<times> string \<times> nat \<times> (string \<times> nat \<times> nat \<times> warl option \<times> nat \<times> bool list \<times> string option list) list" where
  "reg_view reg = (r_state_name reg, r_name reg, r_address reg, map field_view (r_fields reg))"

lemma demo_view: "map reg_view (d_regs demo_design) =
  [(''mstatus_r'', ''mstatus'', 768,
     [(''mie'', 1, 3, None, 0, [True, True, False, True, True, False], [None, None, None]),
      (''mpie'', 1, 7, None, 0, [True, True, False, True, True, False], [None, None, None]),
      (''mpp'', 2, 11, Some (Mask 3), 0, [True, True, False, True, True, False], [None, None, None]),
      (''wpri_hi'', 19, 13, None, 0, [False, True, True, False, True, False], [None, None, None])]),
   (''mtvec_r'', ''mtvec'', 773,
     [(''mode'', 2, 0, Some (Enum [0, 1, 3]), 0, [True, True, False, False, True, False], [None, None, None]),
      (''base'', 30, 2, None, 0, [True, True, False, False, True, False], [Some ''mtvec_write'', None, None])]),
   (''mip_r'', ''mip'', 836, [(''msip'', 1, 3, None, 0, [False, True, False, True, True, False], [None, None, None])]),
   (''mcycle_r'', ''mcycle'', 2816, [(''count'', 32, 0, None, 0, [True, True, False, False, True, True], [None, Some ''cycle_en'', None])]),
   (''mcycleh_r'', ''mcycleh'', 2944, [(''count'', 32, 0, None, 0, [True, True, False, False, True, True], [None, None, Some ''mcycle''])]),
   (''mvendorid_r'', ''mvendorid'', 3857, [(''id'', 32, 0, None, 66, [False, True, False, False, True, False], [None, None, None])])]"
  by code_simp

definition demo_reg :: "nat \<Rightarrow> csr_reg" where
  "demo_reg i = d_regs demo_design ! i"

definition demo_fld :: "nat \<Rightarrow> nat \<Rightarrow> csr_field" where
  "demo_fld i j = r_fields (demo_reg i) ! j"

lemma demo_count [simp]: "length (d_regs demo_design) = 6"
  using arg_cong [OF demo_view, of length] by simp

lemma demo_reg_view: "i < 6 \<Longrightarrow> reg_view (demo_reg i) = map reg_view (d_regs demo_design) ! i"
  by (simp add: demo_reg_def)

lemma demo_fld_view:
  "j < length (r_fields (demo_reg i)) \<Longrightarrow> field_view (demo_fld i j) = snd (snd (snd (reg_view (demo_reg i)))) ! j"
  by (simp add: demo_fld_def reg_view_def)

lemma demo_nth: "i < 6 \<Longrightarrow> demo_reg i \<in> set (d_regs demo_design)"
  "j < length (r_fields (demo_reg i)) \<Longrightarrow> demo_fld i j \<in> set (r_fields (demo_reg i))"
  by (simp_all add: demo_reg_def demo_fld_def)

lemma demo_mstatus:
  "r_state_name (demo_reg 0) = ''mstatus_r''" "r_name (demo_reg 0) = ''mstatus''"
  "r_address (demo_reg 0) = 768" "length (r_fields (demo_reg 0)) = 4"
  using demo_reg_view [of 0] by (auto simp: demo_view reg_view_def map_eq_Cons_conv)

lemma demo_mpp:
  "f_name (demo_fld 0 2) = ''mpp''" "f_width (demo_fld 0 2) = 2" "f_lsb (demo_fld 0 2) = 11"
  "f_warl (demo_fld 0 2) = Some (Mask 3)" "sw_writes (demo_fld 0 2)" "f_hw_readable (demo_fld 0 2)"
  "f_sw_readable (demo_fld 0 2)" "\<not> f_wpri (demo_fld 0 2)" "f_hw_writable (demo_fld 0 2)"
  using demo_fld_view [of 2 0] demo_mstatus
  by (simp_all add: demo_reg_view [of 0] demo_view field_view_def)

lemma demo_wpri:
  "f_name (demo_fld 0 3) = ''wpri_hi''" "f_width (demo_fld 0 3) = 19" "f_lsb (demo_fld 0 3) = 13"
  "\<not> sw_writes (demo_fld 0 3)" "f_wpri (demo_fld 0 3)" "\<not> f_hw_writable (demo_fld 0 3)"
  "\<not> counter_tag (demo_fld 0 3)"
  using demo_fld_view [of 3 0] demo_mstatus
  by (simp_all add: demo_reg_view [of 0] demo_view field_view_def)

lemma demo_mtvec:
  "r_state_name (demo_reg (Suc 0)) = ''mtvec_r''" "r_name (demo_reg (Suc 0)) = ''mtvec''"
  "r_address (demo_reg (Suc 0)) = 773" "length (r_fields (demo_reg (Suc 0))) = 2"
  using demo_reg_view [of 1] by (auto simp: demo_view reg_view_def map_eq_Cons_conv)

lemma demo_mode:
  "f_name (demo_fld (Suc 0) 0) = ''mode''" "f_width (demo_fld (Suc 0) 0) = 2" "f_lsb (demo_fld (Suc 0) 0) = 0"
  "f_warl (demo_fld (Suc 0) 0) = Some (Enum [0, 1, 3])" "sw_writes (demo_fld (Suc 0) 0)" "f_reset (demo_fld (Suc 0) 0) = 0"
  "f_sw_readable (demo_fld (Suc 0) 0)" "\<not> f_wpri (demo_fld (Suc 0) 0)" "\<not> f_hw_writable (demo_fld (Suc 0) 0)"
  "\<not> counter_tag (demo_fld (Suc 0) 0)"
  using demo_fld_view [of 0 1] demo_mtvec
  by (simp_all add: demo_reg_view [of "Suc 0"] demo_view field_view_def)

lemma demo_mie:
  "f_name (demo_fld 0 0) = ''mie''" "f_width (demo_fld 0 0) = Suc 0" "f_lsb (demo_fld 0 0) = 3"
  "f_warl (demo_fld 0 0) = None" "sw_writes (demo_fld 0 0)"
  using demo_fld_view [of 0 0] demo_mstatus
  by (simp_all add: demo_reg_view [of 0] demo_view field_view_def)

lemma demo_base:
  "f_name (demo_fld (Suc 0) (Suc 0)) = ''base''" "sw_writes (demo_fld (Suc 0) (Suc 0))"
  "f_trap_signal (demo_fld (Suc 0) (Suc 0)) = Some ''mtvec_write''"
  using demo_fld_view [of "Suc 0" 1] demo_mtvec
  by (simp_all add: demo_reg_view [of "Suc 0"] demo_view field_view_def)

lemma demo_mcycle:
  "r_state_name (demo_reg 3) = ''mcycle_r''" "r_name (demo_reg 3) = ''mcycle''"
  "r_address (demo_reg 3) = 2816" "length (r_fields (demo_reg 3)) = Suc 0"
  "r_state_name (demo_reg 4) = ''mcycleh_r''" "r_name (demo_reg 4) = ''mcycleh''"
  "r_address (demo_reg 4) = 2944" "length (r_fields (demo_reg 4)) = Suc 0"
  using demo_reg_view [of 3] demo_reg_view [of 4] by (auto simp: demo_view reg_view_def map_eq_Cons_conv)

lemma demo_counts:
  "f_name (demo_fld 3 0) = ''count''" "f_width (demo_fld 3 0) = 32"
  "f_hw_increment_when (demo_fld 3 0) = Some ''cycle_en''"
  "f_name (demo_fld 4 0) = ''count''" "f_width (demo_fld 4 0) = 32"
  "f_hw_increment_when (demo_fld 4 0) = None" "f_hw_increment_high_of (demo_fld 4 0) = Some ''mcycle''"
  using demo_fld_view [of 0 3] demo_fld_view [of 0 4] demo_mcycle
  by (simp_all add: demo_reg_view [of 3] demo_reg_view [of 4] demo_view field_view_def)

lemma demo_names: "distinct (map r_name (d_regs demo_design))"
proof -
  have "map r_name (d_regs demo_design) = map (\<lambda>v. fst (snd v)) (map reg_view (d_regs demo_design))"
    by (simp add: reg_view_def)
  then show ?thesis by (simp add: demo_view)
qed

section \<open>A concrete cycle\<close>

definition demo_csr_module :: amodule where
  "demo_csr_module = (case csr_module demo_design of Inr m \<Rightarrow> m)"

text \<open>
  A command with the given verdict, address, opcode and data; the counter enables are high and the
  low counter is at its maximum.
\<close>

definition demo_env :: "nat \<Rightarrow> nat \<Rightarrow> nat \<Rightarrow> nat \<Rightarrow> env" where
  "demo_env granted addr opc wdata r =
     (case r of
        Sig s \<Rightarrow> if s = ''granted'' then BV 1 granted else BV 1 1
      | Mem b m \<Rightarrow>
          if b = ''csr'' then
            (if m = ''cmd_valid'' then BV 1 1 else if m = ''cmd_addr'' then BV 12 addr
             else if m = ''cmd_op'' then BV 2 opc else BV 32 wdata)
          else if m = ''wpri_hi'' then BV 19 0x5
          else if m = ''mpp'' \<or> m = ''mode'' \<or> m = ''mstatus_mpp'' then BV 2 1
          else if m = ''base'' then BV 30 7
          else if m = ''count'' then (if b = ''mcycle_r'' then BV 32 0xFFFFFFFF else BV 32 8)
          else if m = ''id'' then BV 32 0x42
          else BV 1 0)"

lemma csr_env_view:
  "csr_env d \<rho> \<longleftrightarrow>
     sized 1 (\<rho> (Mem ''csr'' ''cmd_valid'')) \<and> sized 12 (\<rho> (Mem ''csr'' ''cmd_addr''))
     \<and> sized 2 (\<rho> (Mem ''csr'' ''cmd_op'')) \<and> sized (d_xlen d) (\<rho> (Mem ''csr'' ''cmd_wdata''))
     \<and> sized 1 (\<rho> (Sig ''granted''))
     \<and> (\<forall>(st, r, a, fs) \<in> set (map reg_view (d_regs d)). \<forall>(f, w, l, x, v, bs, ts) \<in> set fs.
          sized w (\<rho> (Mem st f)) \<and> (bs ! 3 \<longrightarrow> sized w (\<rho> (Mem ''hwif_in'' (r @ ''_'' @ f)))))"
  by (simp add: csr_env_def reg_view_def field_view_def)

lemma demo_xlen: "d_xlen demo_design = 32"
  by code_simp

lemma demo_csr_env:
  assumes "g < 2" "addr < 2 ^ 12" "opc < 4" "wdata < 2 ^ 32"
  shows "csr_env demo_design (demo_env g addr opc wdata)"
  using assms unfolding csr_env_view demo_view demo_xlen by (simp add: demo_env_def)

lemma demo_wf: "wf_design demo_design"
  by code_simp

lemma demo_module: "csr_module demo_design = Inr demo_csr_module"
  using csr_module_wf [OF demo_wf] by (simp add: demo_csr_module_def)

end
