(* ===== verification/CsrRun.thy ===== *)
theory CsrRun
  imports CsrDemo
begin

text \<open>
  The CSR file over time: what one step means for a field nothing else drives, bit by bit;
  the reachable states and field invariants; split counters as one number.
\<close>

section \<open>Consequences of the step rule\<close>

lemma csr_next_no_write: "\<not> sw_hits \<rho> reg \<or> \<not> sw_writes f \<Longrightarrow> csr_next d \<rho> reg f =
   (if bumps d \<rho> f then (bn (\<rho> (fref reg f)) + 1) mod 2 ^ f_width f
    else if f_hw_writable f then bn (\<rho> (Mem ''hwif_in'' (r_name reg @ ''_'' @ f_name f)))
    else bn (\<rho> (fref reg f)))"
  by (auto simp: csr_next_def Let_def)

text \<open>A field nothing but software drives.\<close>

definition sw_only :: "csr_field \<Rightarrow> bool" where
  "sw_only f \<longleftrightarrow> \<not> f_hw_writable f \<and> \<not> counter_tag f"

lemma sw_only_no_bump: "sw_only f \<Longrightarrow> \<not> bumps d \<rho> f"
  by (simp add: sw_only_def counter_tag_def bumps_def)

lemma sw_only_holds:
  assumes "arch_hdl ev nxt" and "wf_design d" and "csr_env d \<rho>" and "csr_module d = Inr m"
    and "reg \<in> set (d_regs d)" and "f \<in> set (r_fields reg)"
    and "\<not> sw_hits \<rho> reg \<or> \<not> sw_writes f" and "sw_only f"
  shows "module_next ev nxt m \<rho> (fref reg f) = \<rho> (fref reg f)"
proof -
  have "csr_next d \<rho> reg f = bn (\<rho> (fref reg f))"
    using assms(7,8) sw_only_no_bump [OF assms(8)] by (simp add: csr_next_no_write sw_only_def)
  moreover have "bw (\<rho> (fref reg f)) = f_width f" using assms(3,5,6) by (auto simp: csr_env_def sized_def)
  ultimately show ?thesis
    by (simp add: arch_hdl.field_step [OF assms(1-6)]) (metis bv.collapse)
qed

lemma op_value_bits:
  assumes "old < 2 ^ w" and "new < 2 ^ w" and "i < w"
  shows "bit (op_value w 1 old new) i \<longleftrightarrow> bit new i"
    and "bit (op_value w 2 old new) i \<longleftrightarrow> bit old i \<or> bit new i"
    and "bit (op_value w 3 old new) i \<longleftrightarrow> bit old i \<and> \<not> bit new i"
proof -
  have n: "bit ((2::nat) ^ w - 1 - new) i \<longleftrightarrow> \<not> bit new i"
    unfolding bit_complement [OF assms(2)] using assms(3) by simp
  show "bit (op_value w 1 old new) i \<longleftrightarrow> bit new i"
    "bit (op_value w 2 old new) i \<longleftrightarrow> bit old i \<or> bit new i"
    "bit (op_value w 3 old new) i \<longleftrightarrow> bit old i \<and> \<not> bit new i"
    using n by (simp_all add: op_value_def bit_or_iff bit_and_iff)
qed

lemma field_slice_bit: "bit (field_slice f v) i \<longleftrightarrow> i < f_width f \<and> bit v (f_lsb f + i)"
  by (simp add: field_slice_def bit_take_bit_iff bit_drop_bit_eq)

lemma csr_next_less:
  assumes wf: "wf_design d" and env: "csr_env d \<rho>"
    and reg: "reg \<in> set (d_regs d)" and f: "f \<in> set (r_fields reg)"
  shows "csr_next d \<rho> reg f < 2 ^ f_width f"
proof -
  have "bn (\<rho> (fref reg f)) < 2 ^ f_width f"
    "f_hw_writable f \<Longrightarrow> bn (\<rho> (Mem ''hwif_in'' (r_name reg @ ''_'' @ f_name f))) < 2 ^ f_width f"
    using env reg f by (auto simp: csr_env_def sized_def)
  then show ?thesis using sw_value_less [OF wf_fieldD(3) [OF wf reg f]]
    by (simp add: csr_next_def Let_def)
qed

section \<open>Reachable states\<close>

text \<open>
  The CSR file over time: registers start at their reset values; in every cycle the inputs are
  arbitrary values of their declared widths and the registers hold what the last edge stored.
\<close>

definition reset_state :: "csr_design \<Rightarrow> env \<Rightarrow> bool" where
  "reset_state d \<sigma> \<longleftrightarrow> (\<forall>reg \<in> set (d_regs d). \<forall>f \<in> set (r_fields reg).
     \<sigma> (fref reg f) = BV (f_width f) (f_reset f))"

definition same_registers :: "csr_design \<Rightarrow> env \<Rightarrow> env \<Rightarrow> bool" where
  "same_registers d \<rho> \<sigma> \<longleftrightarrow> (\<forall>reg \<in> set (d_regs d). \<forall>f \<in> set (r_fields reg). \<rho> (fref reg f) = \<sigma> (fref reg f))"

inductive csr_reach ::
  "(env \<Rightarrow> aexpr \<Rightarrow> bv) \<Rightarrow> (env \<Rightarrow> astmt list \<Rightarrow> env) \<Rightarrow> amodule \<Rightarrow> csr_design \<Rightarrow> env \<Rightarrow> bool"
  for ev nxt m d where
  reset: "reset_state d \<sigma> \<Longrightarrow> csr_reach ev nxt m d \<sigma>"
| clock: "csr_reach ev nxt m d \<sigma> \<Longrightarrow> csr_env d \<rho> \<Longrightarrow> same_registers d \<rho> \<sigma> \<Longrightarrow>
     csr_reach ev nxt m d (module_next ev nxt m \<rho>)"

inductive_cases csr_reachE: "csr_reach ev nxt m d \<sigma>"

context arch_hdl
begin

lemma next_value:
  assumes "wf_design d" "csr_env d \<rho>" "csr_module d = Inr m" "reg \<in> set (d_regs d)" "f \<in> set (r_fields reg)"
  shows "bn (module_next ev nxt m \<rho> (fref reg f)) = csr_next d \<rho> reg f"
  using field_step [OF assms] by simp

text \<open>An invariant of one field: kept by software writes, and nothing else drives the field.\<close>

lemma reach_field_invariant:
  assumes wf: "wf_design d" and m: "csr_module d = Inr m"
    and reg: "reg \<in> set (d_regs d)" and f: "f \<in> set (r_fields reg)" and only: "sw_only f"
    and init: "P (f_reset f)"
    and keep: "\<And>\<rho>. csr_env d \<rho> \<Longrightarrow> P (bn (\<rho> (fref reg f))) \<Longrightarrow>
      P (sw_value f (bn (\<rho> (Mem ''csr'' ''cmd_op''))) (bn (\<rho> (fref reg f))) (bn (\<rho> (Mem ''csr'' ''cmd_wdata''))))"
    and reach: "csr_reach ev nxt m d \<sigma>"
  shows "P (bn (\<sigma> (fref reg f)))"
  using reach
proof induction
  case (reset \<sigma>)
  then show ?case using init reg f by (simp add: reset_state_def)
next
  case (clock \<sigma> \<rho>)
  then have old: "P (bn (\<rho> (fref reg f)))" using reg f by (simp add: same_registers_def)
  have "\<not> f_hw_writable f" using only by (simp add: sw_only_def)
  with old keep [OF clock.hyps(2) old] sw_only_no_bump [OF only] show ?case
    unfolding next_value [OF wf clock.hyps(2) m reg f] by (simp add: csr_next_def Let_def)
qed

text \<open>Widths are kept by every step, so the state of a reachable machine is well sized.\<close>

lemma reach_sized:
  assumes wf: "wf_design d" and m: "csr_module d = Inr m"
    and fits: "\<forall>reg \<in> set (d_regs d). \<forall>f \<in> set (r_fields reg). f_reset f < 2 ^ f_width f"
    and reg: "reg \<in> set (d_regs d)" and f: "f \<in> set (r_fields reg)"
    and reach: "csr_reach ev nxt m d \<sigma>"
  shows "sized (f_width f) (\<sigma> (fref reg f))"
  using reach
proof induction
  case (reset \<sigma>)
  then show ?case using fits reg f by (auto simp: reset_state_def)
next
  case (clock \<sigma> \<rho>)
  have "csr_next d \<rho> reg f < 2 ^ f_width f" by (rule csr_next_less [OF wf clock.hyps(2) reg f])
  then show ?case by (simp add: field_step [OF wf clock.hyps(2) m reg f])
qed

end

section \<open>Split counters\<close>

text \<open>A low half with its enable and the high half linked to it.\<close>

definition linked :: "csr_design \<Rightarrow> csr_reg \<Rightarrow> csr_field \<Rightarrow> csr_reg \<Rightarrow> csr_field \<Rightarrow> bool" where
  "linked d low_reg low high_reg high \<longleftrightarrow>
     low_reg \<in> set (d_regs d) \<and> low \<in> set (r_fields low_reg)
     \<and> high_reg \<in> set (d_regs d) \<and> high \<in> set (r_fields high_reg)
     \<and> find_reg d (r_name low_reg) = Some low_reg \<and> low_counter_fields low_reg = [low]
     \<and> \<not> truthy (f_hw_increment_when high)
     \<and> truthy (f_hw_increment_high_of high) \<and> f_hw_increment_high_of high = Some (r_name low_reg)"

definition counter_value :: "env \<Rightarrow> csr_reg \<Rightarrow> csr_field \<Rightarrow> csr_reg \<Rightarrow> csr_field \<Rightarrow> nat" where
  "counter_value \<rho> low_reg low high_reg high =
     bn (\<rho> (fref high_reg high)) * 2 ^ f_width low + bn (\<rho> (fref low_reg low))"

lemma wide_increment:
  assumes "l < 2 ^ w" and "h < 2 ^ w"
  shows "(if l = 2 ^ w - 1 then (h + 1) mod 2 ^ w else h) * 2 ^ w + (l + 1) mod 2 ^ w
    = (h * 2 ^ w + l + 1) mod (2 ^ (2 * w) :: nat)"
proof (cases "l = 2 ^ w - 1")
  case True
  have "h * 2 ^ w + l + 1 = (h + 1) * 2 ^ w" using True by simp
  moreover have "(2::nat) ^ (2 * w) = 2 ^ w * 2 ^ w" by (simp add: mult_2 power_add)
  moreover have "(l + 1) mod 2 ^ w = 0" using True by simp
  moreover have "(h + 1) mod 2 ^ w * 2 ^ w = (h + 1) * 2 ^ w mod (2 ^ w * 2 ^ w)" by (rule mult_mod_left)
  ultimately show ?thesis using True by (simp only: simp_thms if_True add_0_right)
next
  case False
  then have l: "l + 1 < 2 ^ w" using assms(1) by linarith
  have "h * 2 ^ w + (l + 1) < 2 ^ (w + w)" by (rule concat_bits_less [OF assms(2) l])
  then show ?thesis using False l by (simp add: mult_2)
qed

lemma csr_env_field:
  "csr_env d \<rho> \<Longrightarrow> reg \<in> set (d_regs d) \<Longrightarrow> f \<in> set (r_fields reg) \<Longrightarrow> bn (\<rho> (fref reg f)) < 2 ^ f_width f"
  by (auto simp: csr_env_def sized_def)

context arch_hdl
begin

lemma counter_step:
  assumes wf: "wf_design d" and env: "csr_env d \<rho>" and m: "csr_module d = Inr m"
    and l: "linked d low_reg low high_reg high" and w: "4 dvd f_width low"
    and quiet: "\<not> sw_hits \<rho> low_reg" "\<not> sw_hits \<rho> high_reg"
  shows "counter_value (module_next ev nxt m \<rho>) low_reg low high_reg high =
    (if isset (\<rho> (Sig (the (f_hw_increment_when low))))
     then (counter_value \<rho> low_reg low high_reg high + 1) mod 2 ^ (2 * f_width low)
     else counter_value \<rho> low_reg low high_reg high)"
proof -
  from l have lr: "low_reg \<in> set (d_regs d)" "low \<in> set (r_fields low_reg)"
    and hr: "high_reg \<in> set (d_regs d)" "high \<in> set (r_fields high_reg)"
    and find: "find_reg d (r_name low_reg) = Some low_reg" "low_counter_fields low_reg = [low]"
    and tags: "\<not> truthy (f_hw_increment_when high)" "truthy (f_hw_increment_high_of high)"
      "the (f_hw_increment_high_of high) = r_name low_reg"
    by (auto simp: linked_def)
  have tl: "truthy (f_hw_increment_when low)"
    using arg_cong [OF find(2), of set] by (auto simp: low_counter_fields_def)
  have v: "valid_field d low" "valid_field d high"
    using wf_fieldD(1) [OF wf lr] wf_fieldD(1) [OF wf hr] .
  have same_width: "f_width high = f_width low"
    using v(2) tags find by (auto simp: valid_field_def valid_high_of_def)
  have not_hw: "\<not> f_hw_writable low" "\<not> f_hw_writable high"
    using v tl tags(2) by (auto simp: valid_field_def counter_tag_def)
  have sz: "bn (\<rho> (fref low_reg low)) < 2 ^ f_width low" "bn (\<rho> (fref high_reg high)) < 2 ^ f_width low"
    using csr_env_field [OF env lr] csr_env_field [OF env hr] same_width by simp_all
  have bl: "bumps d \<rho> low \<longleftrightarrow> isset (\<rho> (Sig (the (f_hw_increment_when low))))"
    using tl by (simp add: bumps_def)
  have "4 * (f_width low div 4) = f_width low" using w by simp
  then have bh: "bumps d \<rho> high \<longleftrightarrow> isset (\<rho> (Sig (the (f_hw_increment_when low))))
      \<and> bn (\<rho> (fref low_reg low)) = 2 ^ f_width low - 1"
    using tags find by (simp add: bumps_def)
  have nl: "csr_next d \<rho> low_reg low = (if bumps d \<rho> low then (bn (\<rho> (fref low_reg low)) + 1) mod 2 ^ f_width low
      else bn (\<rho> (fref low_reg low)))"
    using quiet(1) not_hw(1) by (simp add: csr_next_no_write)
  have nh: "csr_next d \<rho> high_reg high = (if bumps d \<rho> high then (bn (\<rho> (fref high_reg high)) + 1) mod 2 ^ f_width low
      else bn (\<rho> (fref high_reg high)))"
    using quiet(2) not_hw(2) same_width by (simp add: csr_next_no_write)
  show ?thesis
  proof (cases "isset (\<rho> (Sig (the (f_hw_increment_when low))))")
    case True
    have "counter_value (module_next ev nxt m \<rho>) low_reg low high_reg high =
        (if bn (\<rho> (fref low_reg low)) = 2 ^ f_width low - 1
         then (bn (\<rho> (fref high_reg high)) + 1) mod 2 ^ f_width low else bn (\<rho> (fref high_reg high)))
          * 2 ^ f_width low + (bn (\<rho> (fref low_reg low)) + 1) mod 2 ^ f_width low"
      unfolding counter_value_def next_value [OF wf env m lr] next_value [OF wf env m hr] nl nh bl bh
      using True by simp
    also have "\<dots> = (bn (\<rho> (fref high_reg high)) * 2 ^ f_width low + bn (\<rho> (fref low_reg low)) + 1)
        mod 2 ^ (2 * f_width low)"
      by (rule wide_increment [OF sz])
    finally show ?thesis using True by (simp add: counter_value_def)
  next
    case False
    then show ?thesis
      unfolding counter_value_def next_value [OF wf env m lr] next_value [OF wf env m hr] nl nh bl bh
      by simp
  qed
qed

end

end
