(* ===== verification/CsrProps.thy ===== *)
theory CsrProps
  imports CsrRun
begin

text \<open>
  The properties of the CSR file, each with a run on the demonstration design.
\<close>

section \<open>Properties\<close>

lemmas demo_assms = arch.arch_hdl_axioms demo_wf demo_csr_env demo_module

lemma demo_fires: "cmd_fires (demo_env g a opc wd) \<longleftrightarrow> g \<noteq> 0 \<and> opc \<noteq> 0"
  by (simp add: cmd_fires_def demo_env_def isset_def)

lemma demo_ports [simp]:
  "demo_env g a opc wd (Mem ''csr'' ''cmd_addr'') = BV 12 a"
  "demo_env g a opc wd (Mem ''csr'' ''cmd_op'') = BV 2 opc"
  "demo_env g a opc wd (Mem ''csr'' ''cmd_wdata'') = BV 32 wd"
  "demo_env g a opc wd (Mem ''csr'' ''cmd_valid'') = BV 1 1"
  "demo_env g a opc wd (Sig ''granted'') = BV 1 g"
  by (simp_all add: demo_env_def)



text \<open>
  A command that is not granted, is read-only or addresses another register leaves a
  register to the hardware: in particular a field only software drives keeps its value.
\<close>

theorem csr_protected:
  assumes "arch_hdl ev nxt" and "wf_design d" and "csr_env d \<rho>" and "csr_module d = Inr m"
    and "reg \<in> set (d_regs d)" and "f \<in> set (r_fields reg)"
    and "\<not> sw_hits \<rho> reg \<or> \<not> sw_writes f" and "sw_only f"
  shows "module_next ev nxt m \<rho> (fref reg f) = \<rho> (fref reg f)"
  by (rule sw_only_holds [OF assms])

theorem csr_protected_witness:
  "module_next arch_eval arch_next demo_csr_module (demo_env 0 0x305 1 3) (Mem ''mtvec_r'' ''mode'') = BV 2 1"
proof -
  have "module_next arch_eval arch_next demo_csr_module (demo_env 0 0x305 1 3) (fref (demo_reg 1) (demo_fld 1 0))
      = demo_env 0 0x305 1 3 (fref (demo_reg 1) (demo_fld 1 0))"
    by (intro csr_protected [where d = demo_design] demo_assms demo_nth) (simp_all add: demo_mtvec sw_hits_def demo_fires sw_only_def demo_mode)
  then show ?thesis by (simp add: demo_mtvec demo_mode demo_env_def)
qed

text \<open>
  C16: The set and clear opcodes work bit by bit on an unconstrained field: a granted set turns on
  exactly the bits that are one in the operand, a granted clear turns off exactly those, a
  granted write copies them; every other bit keeps its value.
\<close>

theorem csr_bits:
  assumes "arch_hdl ev nxt" and "wf_design d" and "csr_env d \<rho>" and "csr_module d = Inr m"
    and "reg \<in> set (d_regs d)" and "f \<in> set (r_fields reg)"
    and "sw_hits \<rho> reg" and "sw_writes f" and "f_warl f = None" and "i < f_width f"
  shows "bit (bn (module_next ev nxt m \<rho> (fref reg f))) i =
    (let old = bit (bn (\<rho> (fref reg f))) i;
         operand = bit (bn (\<rho> (Mem ''csr'' ''cmd_wdata''))) (f_lsb f + i);
         opc = bn (\<rho> (Mem ''csr'' ''cmd_op'')) in
     if opc = 1 then operand else if opc = 2 then old \<or> operand else if opc = 3 then old \<and> \<not> operand else old)"
proof -
  have sz: "bn (\<rho> (fref reg f)) < 2 ^ f_width f" by (rule csr_env_field [OF assms(3,5,6)])
  show ?thesis
    using op_value_bits [OF sz field_slice_less assms(10)] assms(7-10)
    by (simp add: arch_hdl.field_step [OF assms(1-6)] csr_next_def Let_def sw_value_def legalize_def
        field_slice_bit op_value_def [of _ _ _ _] split: if_splits)
qed

theorem csr_bits_witness:
  "bit (bn (module_next arch_eval arch_next demo_csr_module (demo_env 1 0x300 2 8) (Mem ''mstatus_r'' ''mie''))) 0"
proof -
  have "bit (bn (module_next arch_eval arch_next demo_csr_module (demo_env 1 0x300 2 8) (fref (demo_reg 0) (demo_fld 0 0)))) 0
    = (let old = bit (bn (demo_env 1 0x300 2 8 (fref (demo_reg 0) (demo_fld 0 0)))) 0;
         operand = bit (bn (demo_env 1 0x300 2 8 (Mem ''csr'' ''cmd_wdata''))) (f_lsb (demo_fld 0 0) + 0);
         opc = bn (demo_env 1 0x300 2 8 (Mem ''csr'' ''cmd_op'')) in
     if opc = 1 then operand else if opc = 2 then old \<or> operand else if opc = 3 then old \<and> \<not> operand else old)"
    by (intro csr_bits [where d = demo_design] demo_assms demo_nth)
      (simp_all add: demo_mstatus sw_hits_def demo_fires demo_mie)
  then show ?thesis by (simp add: demo_mstatus demo_mie bit_iff_odd)
qed

text \<open>The same cycle without a command.\<close>

definition no_command :: "env \<Rightarrow> env" where
  "no_command \<rho> = \<rho>(Mem ''csr'' ''cmd_valid'' := BV 1 0)"




text \<open>The next cycle: no command, the registers as the last edge left them.\<close>

definition demo_after :: "env \<Rightarrow> env" where
  "demo_after \<rho> r = (case r of
      Sig s \<Rightarrow> BV 1 0
    | Mem b x \<Rightarrow> if b = ''csr'' \<or> b = ''hwif_in'' then demo_env 0 0 0 0 r
                 else module_next arch_eval arch_next demo_csr_module \<rho> r)"

lemma demo_after_env:
  assumes "csr_env demo_design \<rho>"
  shows "csr_env demo_design (demo_after \<rho>)"
    and "same_registers demo_design (demo_after \<rho>) (module_next arch_eval arch_next demo_csr_module \<rho>)"
proof -
  have names: "r_state_name reg \<noteq> ''csr''" "r_state_name reg \<noteq> ''hwif_in''" if "reg \<in> set (d_regs demo_design)" for reg
    by (rule wf_designD(4,5) [OF demo_wf that])+
  then show "same_registers demo_design (demo_after \<rho>) (module_next arch_eval arch_next demo_csr_module \<rho>)"
    by (simp add: same_registers_def demo_after_def)
  have "sized (f_width f) (module_next arch_eval arch_next demo_csr_module \<rho> (fref reg f))"
    if r: "reg \<in> set (d_regs demo_design)" "f \<in> set (r_fields reg)" for reg f
  proof -
    have "csr_next demo_design \<rho> reg f < 2 ^ f_width f"
      using csr_next_less [OF demo_wf assms r] .
    then show ?thesis by (simp add: arch.field_step [OF demo_wf assms demo_module r])
  qed
  moreover have "csr_env demo_design (demo_env 0 0 0 0)" by (rule demo_csr_env) simp_all
  ultimately show "csr_env demo_design (demo_after \<rho>)"
    using names by (auto simp: csr_env_def demo_after_def)
qed


text \<open>
  C11: WARL: in every reachable state, a field that only software drives and whose reset value is
  legal holds a legal value, whatever was written (a mask keeps only its bits, a list only its
  members).
\<close>

theorem csr_warl_invariant:
  assumes "arch_hdl ev nxt" and "wf_design d" and "csr_module d = Inr m"
    and "reg \<in> set (d_regs d)" and "f \<in> set (r_fields reg)" and "sw_only f"
    and "f_reset f < 2 ^ f_width f" and "legal (f_width f) (f_warl f) (f_reset f)"
    and "csr_reach ev nxt m d \<sigma>"
  shows "legal (f_width f) (f_warl f) (bn (\<sigma> (fref reg f)))"
proof (rule arch_hdl.reach_field_invariant [where P = "legal (f_width f) (f_warl f)", OF assms(1-6,8) _ assms(9)])
  fix \<rho> assume env: "csr_env d \<rho>"
  let ?v = "op_value (f_width f) (bn (\<rho> (Mem ''csr'' ''cmd_op''))) (bn (\<rho> (fref reg f)))
      (field_slice f (bn (\<rho> (Mem ''csr'' ''cmd_wdata''))))"
  have "?v < 2 ^ f_width f"
    by (rule op_value_less [OF csr_env_field [OF env assms(4,5)] field_slice_less])
  then show "legal (f_width f) (f_warl f) (sw_value f (bn (\<rho> (Mem ''csr'' ''cmd_op'')))
      (bn (\<rho> (fref reg f))) (bn (\<rho> (Mem ''csr'' ''cmd_wdata''))))"
    unfolding sw_value_def by (rule warl.coerce_ok [OF wf_fieldD(3) [OF assms(2,4,5)]])
qed

text \<open>A two-cycle run of the demonstration design: reset, then a write of the reserved mode 2.\<close>

definition demo_reset :: "env" where
  "demo_reset r = (case find (\<lambda>(reg, f). fref reg f = r)
      (concat (map (\<lambda>reg. map (\<lambda>f. (reg, f)) (r_fields reg)) (d_regs demo_design))) of
     Some (reg, f) \<Rightarrow> BV (f_width f) (f_reset f)
   | None \<Rightarrow> demo_env 1 0x305 1 2 r)"

lemma demo_reset_state: "reset_state demo_design demo_reset"
proof -
  have "demo_reset (fref reg f) = BV (f_width f) (f_reset f)"
    if r: "reg \<in> set (d_regs demo_design)" "f \<in> set (r_fields reg)" for reg f
  proof -
    let ?xs = "concat (map (\<lambda>reg. map (\<lambda>f. (reg, f)) (r_fields reg)) (d_regs demo_design))"
    have mem: "(reg, f) \<in> set ?xs" using r by auto
    then have "\<exists>x \<in> set ?xs. (\<lambda>(reg', f'). fref reg' f' = fref reg f) x" by blast
    then have "find (\<lambda>(reg', f'). fref reg' f' = fref reg f) ?xs \<noteq> None"
      unfolding find_None_iff by blast
    then obtain reg' f' where f: "find (\<lambda>(reg', f'). fref reg' f' = fref reg f) ?xs = Some (reg', f')"
      by auto
    from find_Some_set [OF f] have "reg' \<in> set (d_regs demo_design)" "f' \<in> set (r_fields reg')"
      "fref reg' f' = fref reg f" by auto
    from fref_inj [OF demo_wf r this(1,2)] this(3) f show ?thesis by (simp add: demo_reset_def)
  qed
  then show ?thesis by (simp add: reset_state_def)
qed

definition demo_write :: "env" where
  "demo_write r = (case r of
      Mem b x \<Rightarrow> if b = ''csr'' \<or> b = ''hwif_in'' then demo_env 1 0x305 1 2 r else demo_reset r
    | Sig s \<Rightarrow> demo_env 1 0x305 1 2 r)"

lemma demo_resets_fit:
  assumes "reg \<in> set (d_regs demo_design)" and "f \<in> set (r_fields reg)"
  shows "f_reset f < 2 ^ f_width f"
proof -
  have "\<forall>(st, r, a, fs) \<in> set (map reg_view (d_regs demo_design)). \<forall>(f, w, l, x, v, bs, ts) \<in> set fs. v < 2 ^ w"
    unfolding demo_view by simp
  then show ?thesis using assms by (auto simp: reg_view_def field_view_def)
qed

lemma demo_run: "csr_reach arch_eval arch_next demo_csr_module demo_design
   (module_next arch_eval arch_next demo_csr_module demo_write)"
proof (rule csr_reach.clock [OF csr_reach.reset [OF demo_reset_state]])
  have names: "r_state_name reg \<noteq> ''csr''" "r_state_name reg \<noteq> ''hwif_in''" if "reg \<in> set (d_regs demo_design)" for reg
    by (rule wf_designD(4,5) [OF demo_wf that])+
  then show "same_registers demo_design demo_write demo_reset"
    by (simp add: same_registers_def demo_write_def)
  note fit = demo_resets_fit
  have "csr_env demo_design (demo_env 1 0x305 1 2)" by (rule demo_csr_env) simp_all
  then show "csr_env demo_design demo_write"
    using names fit demo_reset_state by (simp add: csr_env_def demo_write_def reset_state_def)
qed

theorem csr_warl_invariant_witness:
  "legal 2 (Some (Enum [0, 1, 3]))
     (bn (module_next arch_eval arch_next demo_csr_module demo_write (Mem ''mtvec_r'' ''mode'')))"
proof -
  have "legal (f_width (demo_fld 1 0)) (f_warl (demo_fld 1 0))
      (bn (module_next arch_eval arch_next demo_csr_module demo_write (fref (demo_reg 1) (demo_fld 1 0))))"
    by (rule csr_warl_invariant [where d = demo_design, OF arch.arch_hdl_axioms demo_wf demo_module demo_nth])
      (simp_all add: demo_mtvec demo_mode sw_only_def legal_def demo_run)
  then show ?thesis by (simp add: demo_mtvec demo_mode)
qed



lemma demo_linked: "linked demo_design (demo_reg 3) (demo_fld 3 0) (demo_reg 4) (demo_fld 4 0)"
proof -
  have one: "r_fields (demo_reg 3) = [demo_fld 3 0]"
    using demo_mcycle(4) by (auto simp: demo_fld_def length_Suc_conv)
  have "find_reg demo_design (r_name (demo_reg 3)) = Some (demo_reg 3)"
    unfolding find_reg_def by (rule find_unique [OF demo_names demo_nth(1)]) simp
  then show ?thesis
    by (simp add: linked_def demo_nth one low_counter_fields_def demo_counts demo_mcycle)
qed

text \<open>
  C14: A split counter whose low half's width is a multiple of four counts as one number of twice
  the width: with the enable high and no software write to either half, the pair goes up by one
  modulo \<open>2 ^ (2 * w)\<close>, carry included; with the enable low it holds.
\<close>

theorem csr_counter_pair:
  assumes "arch_hdl ev nxt" and "wf_design d" and "csr_env d \<rho>" and "csr_module d = Inr m"
    and "linked d low_reg low high_reg high" and "4 dvd f_width low"
    and "\<not> sw_hits \<rho> low_reg" and "\<not> sw_hits \<rho> high_reg"
  shows "counter_value (module_next ev nxt m \<rho>) low_reg low high_reg high =
    (if isset (\<rho> (Sig (the (f_hw_increment_when low))))
     then (counter_value \<rho> low_reg low high_reg high + 1) mod 2 ^ (2 * f_width low)
     else counter_value \<rho> low_reg low high_reg high)"
  by (rule arch_hdl.counter_step [OF assms])

theorem csr_counter_pair_witness:
  "counter_value (module_next arch_eval arch_next demo_csr_module (demo_env 1 0x300 1 0))
     (demo_reg 3) (demo_fld 3 0) (demo_reg 4) (demo_fld 4 0) = 9 * 2 ^ 32"
proof -
  have "counter_value (module_next arch_eval arch_next demo_csr_module (demo_env 1 0x300 1 0))
      (demo_reg 3) (demo_fld 3 0) (demo_reg 4) (demo_fld 4 0) =
    (if isset (demo_env 1 0x300 1 0 (Sig (the (f_hw_increment_when (demo_fld 3 0)))))
     then (counter_value (demo_env 1 0x300 1 0) (demo_reg 3) (demo_fld 3 0) (demo_reg 4) (demo_fld 4 0) + 1)
       mod 2 ^ (2 * f_width (demo_fld 3 0))
     else counter_value (demo_env 1 0x300 1 0) (demo_reg 3) (demo_fld 3 0) (demo_reg 4) (demo_fld 4 0))"
    by (rule csr_counter_pair [where d = demo_design, OF demo_assms demo_linked])
      (simp_all add: demo_counts sw_hits_def demo_mcycle)
  then show ?thesis
    by (simp add: counter_value_def demo_counts demo_mcycle demo_env_def isset_def)
qed

lemma demo_pulse_env: "pulse_env demo_design (demo_env g a opc wd)"
  by (simp add: pulse_env_def demo_env_def)

lemma demo_trap_signal: "''mtvec_write'' \<in> set (trap_signals demo_design)"
  using demo_nth(1) [of 1] demo_nth(2) [of 1 1] demo_mtvec demo_base
  by (force simp: trap_signals_def all_trap_signals_def)

text \<open>
  C18: A trap-signal output is high for exactly the cycles that follow a granted write to a tagged
  field or register: the pulse register takes the value ``a tagged write fires now'' at every
  edge (so it falls back after one cycle), and the port shows that register.
\<close>

theorem csr_pulse:
  assumes "arch_hdl ev nxt" and "wf_design d" and "csr_env d \<rho>" and "pulse_env d \<rho>"
    and "csr_module d = Inr m" and "s \<in> set (trap_signals d)"
  shows "module_next ev nxt m \<rho> (Sig (s @ ''_r'')) = bit1 (pulse_fires d \<rho> s)
    \<and> module_out ev m \<rho> (Sig s) = Some (\<rho> (Sig (s @ ''_r'')))"
  using arch_hdl.pulse_step [OF assms] by blast

theorem csr_pulse_witness:
  "module_next arch_eval arch_next demo_csr_module (demo_env 1 0x305 1 8) (Sig ''mtvec_write_r'') = bit1 True"
proof -
  have "module_next arch_eval arch_next demo_csr_module (demo_env 1 0x305 1 8) (Sig (''mtvec_write'' @ ''_r''))
      = bit1 (pulse_fires demo_design (demo_env 1 0x305 1 8) ''mtvec_write'')"
    by (rule csr_pulse [OF arch.arch_hdl_axioms demo_wf demo_csr_env demo_pulse_env demo_module demo_trap_signal,
        THEN conjunct1]) simp_all
  moreover have "pulse_fires demo_design (demo_env 1 0x305 1 8) ''mtvec_write''"
    unfolding pulse_fires_def
    by (rule bexI [OF conjI [OF _ disjI2 [OF bexI [where x = "demo_fld 1 1"]]] demo_nth(1) [of 1]])
      (simp_all add: demo_mtvec demo_base sw_hits_def demo_fires demo_nth)
  ultimately show ?thesis by simp
qed

text \<open>
  The bus response: every command is accepted in its cycle and answered in the same cycle
  with the packed value of the first register at its address, zero when there is none or when no
  command is present.
\<close>

theorem csr_response:
  assumes "arch_hdl ev nxt" and "wf_design d" and "csr_env d \<rho>" and "csr_module d = Inr m"
  shows "module_out ev m \<rho> (Mem ''csr'' ''cmd_ready'') = Some (bit1 True)
    \<and> module_out ev m \<rho> (Mem ''csr'' ''rsp_valid'') = Some (\<rho> (Mem ''csr'' ''cmd_valid''))
    \<and> map_option bn (module_out ev m \<rho> (Mem ''csr'' ''rsp_rdata'')) =
        Some (if isset (\<rho> (Mem ''csr'' ''cmd_valid''))
              then csr_rdata d \<rho> (bn (\<rho> (Mem ''csr'' ''cmd_addr''))) else 0)"
  using arch_hdl.handshake_out [OF assms(1,2,4)] arch_hdl.rsp_rdata_out [OF assms] by blast

theorem csr_response_witness:
  "map_option bn (module_out arch_eval demo_csr_module (demo_env 1 0x7C0 0 0) (Mem ''csr'' ''rsp_rdata'')) = Some 0"
proof -
  have "csr_rdata demo_design \<rho> 0x7C0 = 0" for \<rho>
  proof -
    have "\<forall>a \<in> set (map (\<lambda>v. fst (snd (snd v))) (map reg_view (d_regs demo_design))). a \<noteq> 0x7C0"
      unfolding demo_view by simp
    then have "find (\<lambda>reg. r_address reg = 0x7C0) (d_regs demo_design) = None"
      by (auto simp: find_None_iff reg_view_def)
    then show ?thesis by (simp add: csr_rdata_def)
  qed
  moreover have "csr_env demo_design (demo_env 1 0x7C0 0 0)" by (rule demo_csr_env) simp_all
  from csr_response [OF arch.arch_hdl_axioms demo_wf this demo_module]
  have "map_option bn (module_out arch_eval demo_csr_module (demo_env 1 0x7C0 0 0) (Mem ''csr'' ''rsp_rdata''))
      = Some (if isset (demo_env 1 0x7C0 0 0 (Mem ''csr'' ''cmd_valid''))
          then csr_rdata demo_design (demo_env 1 0x7C0 0 0) (bn (demo_env 1 0x7C0 0 0 (Mem ''csr'' ''cmd_addr''))) else 0)"
    by blast
  moreover have "isset (demo_env 1 0x7C0 0 0 (Mem ''csr'' ''cmd_valid''))" by (simp add: isset_def)
  ultimately show ?thesis by (simp only: if_True demo_ports bv.sel)
qed



text \<open>
  C20: The hardware interface is consistent with the storage and with the bus: a
  hardware-readable field's output is its stored value, and the flat output of a register is the
  value software would read from it.
\<close>

theorem csr_hwif_out:
  assumes "arch_hdl ev nxt" and "wf_design d" and "csr_env d \<rho>" and "csr_module d = Inr m"
    and "distinct (map fst (hwif_out_members d))" and "reg \<in> set (d_regs d)"
  shows "module_out ev m \<rho> (Mem ''hwif_out'' (r_name reg @ ''_rdata_flat'')) = Some (BV (d_xlen d) (read_value \<rho> reg))
    \<and> (\<forall>f \<in> set (r_fields reg). f_hw_readable f \<longrightarrow>
         module_out ev m \<rho> (Mem ''hwif_out'' (r_name reg @ ''_'' @ f_name f)) = Some (\<rho> (fref reg f)))"
  using arch_hdl.hwif_out_flat [OF assms(1-6)] arch_hdl.hwif_out_field [OF assms(1,2,4-6)] by blast

lemma hwif_out_names_view: "map fst (hwif_out_members d) =
  concat (map (\<lambda>(st, r, a, fs). concat (map (\<lambda>(f, w, l, x, v, bs, ts). if bs ! 4 then [r @ ''_'' @ f] else []) fs)
    @ [r @ ''_rdata_flat'']) (map reg_view (d_regs d)))"
  unfolding hwif_out_members_def map_concat map_append map_map comp_def if_distrib [where f = "map fst"]
    list.map fst_conv
  by (simp add: reg_view_def field_view_def comp_def)

lemma demo_hwif_distinct: "distinct (map fst (hwif_out_members demo_design))"
  unfolding hwif_out_names_view demo_view by simp

theorem csr_hwif_out_witness:
  "module_out arch_eval demo_csr_module (demo_env 1 0x300 0 0) (Mem ''hwif_out'' ''mstatus_mpp'') = Some (BV 2 1)"
proof -
  have "csr_env demo_design (demo_env 1 0x300 0 0)" by (rule demo_csr_env) simp_all
  from csr_hwif_out [OF arch.arch_hdl_axioms demo_wf this demo_module demo_hwif_distinct demo_nth(1) [of 0]]
    demo_nth(2) [of 2 0] demo_mstatus demo_mpp
  have "module_out arch_eval demo_csr_module (demo_env 1 0x300 0 0)
      (Mem ''hwif_out'' (r_name (demo_reg 0) @ ''_'' @ f_name (demo_fld 0 2)))
    = Some (demo_env 1 0x300 0 0 (fref (demo_reg 0) (demo_fld 0 2)))" by auto
  then show ?thesis by (simp add: demo_mstatus demo_mpp demo_env_def)
qed

section \<open>The emitter returns\<close>

lemma split_on_nonempty: "split_on c s \<noteq> []"
  by (induction s) (auto split: list.splits)

lemma parse_warl_nonempty: "parse_warl s \<noteq> Inr (Enum [])"
proof
  assume "parse_warl s = Inr (Enum [])"
  then have "res_map (\<lambda>p. int0 (strip p)) (split_on (CHR '','') (strip s)) = Inr []"
    by (auto simp: parse_warl_def Let_def split: if_splits)
  then show False using res_map_eq_Inr split_on_nonempty by fastforce
qed

lemma scan_no_empty_warl:
  assumes "scan dr tp mn pn xlen = Inr d" and "reg \<in> set (d_regs d)" and "f \<in> set (r_fields reg)"
  shows "warl_nonempty f"
proof -
  obtain r where r: "scan_reg dr tp r = Inr reg"
    using res_map_memD [OF scan_InrD(5) [OF assms(1)] assms(2)] by blast
  from res_map_memD [OF scan_reg_InrD(6) [OF r] assms(3)]
  obtain g where "scan_field dr g = Inr f" by blast
  then show ?thesis
    by (cases "truthy (fn_warl g)") (auto simp: scan_field_def warl_nonempty_def parse_warl_nonempty)
qed

lemma increment_lines_total:
  assumes "validate d = Inr ()"
  shows "\<exists>incs. res_map (\<lambda>reg. res_bind (res_map (increment_lines d reg) (r_fields reg)) (\<lambda>ls. Inr (concat ls)))
    (d_regs d) = Inr incs"
proof -
  have "\<exists>ls. increment_lines d reg f = Inr ls" if "reg \<in> set (d_regs d)" "f \<in> set (r_fields reg)" for reg f
    using validate_fieldD [OF assms that] by (simp add: increment_text increment_stmts_valid)
  then have "\<exists>ls. res_map (increment_lines d reg) (r_fields reg) = Inr ls" if "reg \<in> set (d_regs d)" for reg
    using that res_map_all_Inr [of "r_fields reg" "increment_lines d reg"] by blast
  then have "\<forall>reg \<in> set (d_regs d). \<exists>ls. res_bind (res_map (increment_lines d reg) (r_fields reg))
      (\<lambda>ls. Inr (concat ls)) = Inr ls" by auto
  then show ?thesis unfolding res_map_all_Inr .
qed

lemma csr_file_returns:
  assumes "scan dr tp mn pn xlen = Inr d" and "validate d = Inr ()"
  shows "\<exists>text. emit_csr_file d = Inr text"
proof -
  have "\<not> warl_bad reg" if "reg \<in> set (d_regs d)" for reg
    using scan_no_empty_warl [OF assms(1) that] by (auto simp: warl_bad_def)
  then have "\<forall>reg \<in> set (d_regs d). \<exists>b. res_bind (reg_block reg) (\<lambda>b. Inr (reg, b)) = Inr b"
    by (simp add: reg_block_eq)
  then obtain blocks where "res_map (\<lambda>reg. res_bind (reg_block reg) (\<lambda>b. Inr (reg, b))) (d_regs d) = Inr blocks"
    unfolding res_map_all_Inr by blast
  moreover obtain incs where "res_map (\<lambda>reg. res_bind (res_map (increment_lines d reg) (r_fields reg))
      (\<lambda>ls. Inr (concat ls))) (d_regs d) = Inr incs"
    using increment_lines_total [OF assms(2)] by blast
  ultimately show ?thesis unfolding emit_csr_file_def Let_def by (simp only: res_bind_simps) blast
qed

text \<open>
  C6: The CSR-file emitter returns on every accepted design: a design the scanner produced and
  the checks accepted makes neither \<^verbatim>\<open>next()\<close> fail on the counter links nor the value list of a
  WARL field empty.
\<close>

theorem csr_emitter_total:
  assumes "scan dr tp mn pn xlen = Inr d" and "validate d = Inr ()"
  shows "\<exists>text. emit_csr_file d = Inr text"
  by (rule csr_file_returns [OF assms])

theorem csr_emitter_total_witness: "\<exists>text. emit_csr_file demo_design = Inr text"
  by (rule csr_emitter_total [OF demo_scan demo_valid])

lemma demo_clean: "\<forall>reg \<in> set (d_regs demo_design). clean_names reg"
  by code_simp

text \<open>
  C5: The text of the CSR-file emitter is, character by character, the rendering of the module
  the semantic properties speak about, and the emitter raises exactly when there is no module.
\<close>

theorem csr_text:
  assumes "\<forall>reg \<in> set (d_regs design). clean_names reg"
  shows "emit_csr_file design = res_bind (csr_module design) (\<lambda>m. Inr (render_module m))"
  by (rule csr_file_text [OF assms])

theorem csr_text_witness: "emit_csr_file demo_design = Inr (render_module demo_csr_module)"
  using csr_text [OF demo_clean] by (simp add: demo_module)

end
