(* ===== verification/System.thy ===== *)
theory System
  imports CsrProps TrapCoord
begin

text \<open>
  The privilege and trap side of the generated system: the decisions of the access controller, the
  routing of the trap coordinator, and what the two do to the CSR file they are wired to.
\<close>

section \<open>The access controller\<close>

text \<open>A request on the ports of the access controller.\<close>

definition access_request :: "nat \<Rightarrow> nat \<Rightarrow> nat \<Rightarrow> env" where
  "access_request addr opc priv r =
     (case r of
        Sig s \<Rightarrow> if s = ''csr_addr'' then BV 12 addr else if s = ''csr_opcode'' then BV 3 opc
                 else if s = ''cur_priv'' then BV 2 priv else BV 1 1
      | Mem b m \<Rightarrow> BV 1 0)"

lemma demo_addresses: "addresses_fit demo_design"
  using demo_wf by (simp add: wf_design_def)



section \<open>The trap coordinator\<close>

lemma demo_members: "hwif_in_members demo_design =
  [(''mstatus_mie'', 1), (''mstatus_mpie'', 1), (''mstatus_mpp'', 2), (''mip_msip'', 1)]"
  by code_simp

lemma demo_names_ok: "names_ok demo_design"
proof -
  have "reg_layout reg" if "reg \<in> set (d_regs demo_design)" for reg
    by (rule wf_designD(3) [OF demo_wf that])
  then show ?thesis by (simp add: names_ok_def demo_names demo_members reg_layout_def)
qed

lemma demo_mpp_tags: "f_save_on_trap (demo_fld 0 2)" "\<not> f_hw_mirror (demo_fld 0 2)"
  by code_simp+

text \<open>
  C10: The trap coordinator drives every hardware-writable field by the promised rule: a mirrored
  field follows its wire in every cycle; otherwise the saved value on trap entry, then the
  restored value on return, and in every other case the live value.
\<close>

theorem trap_routing:
  assumes "arch_hdl ev nxt" and "names_ok design"
    and "reg \<in> set (d_regs design)" and "f \<in> set (r_fields reg)" and "f_hw_writable f"
  shows "module_out ev (trap_module design nm) \<rho> (Mem ''hwif_in_drive'' (member_name reg f)) =
    Some (trap_drive f (isset (\<rho> (Sig ''trap_enter''))) (isset (\<rho> (Sig ''xret_enter'')))
      (\<rho> (Sig (save_port_name reg f))) (\<rho> (Sig (restore_port_name reg f)))
      (\<rho> (Sig (mirror_port_name reg f))) (\<rho> (Mem ''hwif_in_live'' (member_name reg f))))"
  by (rule arch_hdl.trap_routes [OF assms])

definition demo_trap :: "env" where
  "demo_trap r = (case r of
      Sig s \<Rightarrow> if s = ''trap_enter'' \<or> s = ''xret_enter'' then BV 1 1
               else if s = ''save_mstatus_mpp'' then BV 2 3 else BV 2 1
    | Mem b m \<Rightarrow> BV 2 0)"

theorem trap_routing_witness:
  "module_out arch_eval (trap_module demo_design ''T'') demo_trap (Mem ''hwif_in_drive'' ''mstatus_mpp'') = Some (BV 2 3)"
proof -
  have "module_out arch_eval (trap_module demo_design ''T'') demo_trap
      (Mem ''hwif_in_drive'' (member_name (demo_reg 0) (demo_fld 0 2))) =
    Some (trap_drive (demo_fld 0 2) (isset (demo_trap (Sig ''trap_enter''))) (isset (demo_trap (Sig ''xret_enter'')))
      (demo_trap (Sig (save_port_name (demo_reg 0) (demo_fld 0 2))))
      (demo_trap (Sig (restore_port_name (demo_reg 0) (demo_fld 0 2))))
      (demo_trap (Sig (mirror_port_name (demo_reg 0) (demo_fld 0 2))))
      (demo_trap (Mem ''hwif_in_live'' (member_name (demo_reg 0) (demo_fld 0 2)))))"
    by (rule trap_routing [OF arch.arch_hdl_axioms demo_names_ok demo_nth])
      (simp_all add: demo_mstatus demo_mpp)
  then show ?thesis
    by (simp add: member_name_def save_port_name_def demo_mstatus demo_mpp demo_mpp_tags trap_drive_def
        demo_trap_def isset_def)
qed

text \<open>
  The coordinator drives the whole input struct and nothing else: its drives are the members
  of the package's hardware-input struct, each once and in the order of the struct (the reserved
  member when the struct has no other).
\<close>

theorem trap_covers:
  "map fst (module_drives (trap_module design nm)) =
     (if hwif_in_members design = [] then [Mem ''hwif_in_drive'' ''_reserved'']
      else map (\<lambda>(m, w). Mem ''hwif_in_drive'' m) (hwif_in_members design))"
proof -
  have "hwif_in_members design = [] \<longleftrightarrow> all_hwif_in_members design = []"
    by (simp add: all_hwif_members [symmetric])
  then show ?thesis
    by (simp add: trap_module_drives trap_drives_def all_hwif_members [symmetric] case_prod_beta comp_def)
qed

section \<open>The modules together\<close>

text \<open>
  C7: An illegal access is harmless: when the CSR file's verdict port is driven by the access
  controller and the controller finds the access not allowed, no field that only software drives
  changes, whatever the command.
\<close>

theorem illegal_access_harmless:
  assumes "arch_hdl ev nxt" and "wf_design d" and "csr_env d \<rho>" and "csr_module d = Inr m"
    and "access_ports \<rho>a"
    and "module_out ev (access_module d nm) \<rho>a (Sig ''granted'') = Some (\<rho> (Sig ''granted''))"
    and "\<not> access_ok d (bn (\<rho>a (Sig ''csr_addr''))) (bn (\<rho>a (Sig ''csr_opcode''))) (bn (\<rho>a (Sig ''cur_priv'')))"
    and "reg \<in> set (d_regs d)" and "f \<in> set (r_fields reg)" and "sw_only f"
  shows "module_next ev nxt m \<rho> (fref reg f) = \<rho> (fref reg f)"
proof -
  have "addresses_fit d" using assms(2) by (simp add: wf_design_def)
  from arch_hdl.access_outputs(1) [OF assms(1) this assms(5), of nm] assms(6,7)
  have "\<not> isset (\<rho> (Sig ''granted''))" by auto
  then have "\<not> sw_hits \<rho> reg" by (simp add: sw_hits_def cmd_fires_def)
  then show ?thesis using sw_only_holds [OF assms(1-4,8,9) _ assms(10)] by blast
qed

theorem illegal_access_harmless_witness:
  "module_next arch_eval arch_next demo_csr_module (demo_env 0 0x305 1 3) (Mem ''mtvec_r'' ''mode'') = BV 2 1"
proof -
  have env: "csr_env demo_design (demo_env 0 0x305 1 3)" by (rule demo_csr_env) simp_all
  have ports: "access_ports (access_request 0x305 1 0)" by (simp add: access_ports_def access_request_def)
  have priv: "min_priv demo_design 0x305 = 3" by code_simp
  then have no: "\<not> access_ok demo_design 0x305 1 0" by (simp add: access_ok_def)
  have g: "module_out arch_eval (access_module demo_design ''A'') (access_request 0x305 1 0) (Sig ''granted'')
      = Some (demo_env 0 0x305 1 3 (Sig ''granted''))"
    using arch.access_outputs(1) [OF demo_addresses ports, of "''A''"] no
    by (simp add: access_request_def bit1_def)
  have "module_next arch_eval arch_next demo_csr_module (demo_env 0 0x305 1 3) (fref (demo_reg 1) (demo_fld 1 0))
      = demo_env 0 0x305 1 3 (fref (demo_reg 1) (demo_fld 1 0))"
    by (rule illegal_access_harmless [OF arch.arch_hdl_axioms demo_wf env demo_module ports g])
      (use no in \<open>simp_all add: access_request_def demo_nth demo_mtvec demo_mode sw_only_def\<close>)
  then show ?thesis by (simp add: demo_mtvec demo_mode demo_env_def)
qed

text \<open>
  C8: Trap entry stores the trap state: with the CSR file's input struct driven by the
  coordinator, a field tagged for saving holds the value of its save port after the edge at which
  \<^verbatim>\<open>trap_enter\<close> is high, unless software writes the register in that very cycle.
\<close>

theorem trap_entry_saves:
  assumes "arch_hdl ev nxt" and "wf_design d" and "names_ok d" and "csr_env d \<rho>" and "csr_module d = Inr m"
    and "reg \<in> set (d_regs d)" and "f \<in> set (r_fields reg)" and "f_save_on_trap f"
    and "module_out ev (trap_module d nm) \<rho>t (Mem ''hwif_in_drive'' (member_name reg f))
         = Some (\<rho> (Mem ''hwif_in'' (r_name reg @ ''_'' @ f_name f)))"
    and "isset (\<rho>t (Sig ''trap_enter''))" and "\<not> sw_hits \<rho> reg"
  shows "module_next ev nxt m \<rho> (fref reg f) = \<rho>t (Sig (save_port_name reg f))"
proof -
  have v: "valid_field d f" by (rule wf_fieldD(1) [OF assms(2,6,7)])
  then have hw: "f_hw_writable f" and nm: "\<not> f_hw_mirror f" and nc: "\<not> counter_tag f"
    using assms(8) by (auto simp: valid_field_def)
  have drv: "\<rho> (Mem ''hwif_in'' (r_name reg @ ''_'' @ f_name f)) = \<rho>t (Sig (save_port_name reg f))"
    using arch_hdl.trap_routes [OF assms(1,3,6,7) hw, of nm \<rho>t] assms(8,9,10) nm by (simp add: trap_drive_def)
  have "csr_next d \<rho> reg f = bn (\<rho>t (Sig (save_port_name reg f)))"
    using assms(11) hw nc drv by (simp add: csr_next_no_write bumps_def counter_tag_def)
  moreover have "sized (f_width f) (\<rho> (Mem ''hwif_in'' (r_name reg @ ''_'' @ f_name f)))"
    using assms(4,6,7) hw by (auto simp: csr_env_def)
  then have "bw (\<rho>t (Sig (save_port_name reg f))) = f_width f" unfolding drv by (rule sizedD(1))
  ultimately show ?thesis
    by (simp add: arch_hdl.field_step [OF assms(1,2,4-7)]) (metis bv.collapse)
qed

definition demo_entry :: "env" where
  "demo_entry = (demo_env 1 0x344 1 0)(Mem ''hwif_in'' ''mstatus_mpp'' := BV 2 3)"

theorem trap_entry_saves_witness:
  "module_next arch_eval arch_next demo_csr_module demo_entry (Mem ''mstatus_r'' ''mpp'') = BV 2 3"
proof -
  have "csr_env demo_design (demo_env 1 0x344 1 0)" by (rule demo_csr_env) simp_all
  then have env: "csr_env demo_design demo_entry"
    unfolding csr_env_view demo_view demo_xlen by (simp add: demo_entry_def demo_env_def)
  have g: "module_out arch_eval (trap_module demo_design ''T'') demo_trap
      (Mem ''hwif_in_drive'' (member_name (demo_reg 0) (demo_fld 0 2)))
    = Some (demo_entry (Mem ''hwif_in'' (r_name (demo_reg 0) @ ''_'' @ f_name (demo_fld 0 2))))"
    using arch.trap_routes [OF demo_names_ok demo_nth(1) [of 0] demo_nth(2) [of 2 0], of "''T''" demo_trap]
    by (simp add: demo_mstatus demo_mpp demo_mpp_tags trap_drive_def save_port_name_def demo_trap_def
        isset_def demo_entry_def)
  have "module_next arch_eval arch_next demo_csr_module demo_entry (fref (demo_reg 0) (demo_fld 0 2))
      = demo_trap (Sig (save_port_name (demo_reg 0) (demo_fld 0 2)))"
    by (rule trap_entry_saves [OF arch.arch_hdl_axioms demo_wf demo_names_ok env demo_module demo_nth _ g])
      (simp_all add: demo_mstatus demo_mpp_tags demo_trap_def isset_def sw_hits_def demo_entry_def)
  then show ?thesis by (simp add: demo_mstatus demo_mpp save_port_name_def demo_trap_def)
qed

end
