(* ===== verification/Interface.thy ===== *)
theory Interface
  imports CsrTypes System
begin

text \<open>
  The interfaces between the four generated CSR files: the package, the CSR file, the trap coordinator
  and the access controller agree on every name and width, and no value is cut when it crosses from
  one to another.
\<close>

section \<open>The trap coordinator\<close>

definition trap_names :: "csr_design \<Rightarrow> string list" where
  "trap_names d =
     [''clk'', ''rst'', ''trap_enter'', ''xret_enter'']
     @ map (\<lambda>(reg, f). save_port_name reg f) (save_on_trap_fields d)
     @ map (\<lambda>(reg, f). restore_port_name reg f) (restore_on_ret_fields d)
     @ map (\<lambda>(reg, f). mirror_port_name reg f) (hw_mirror_fields d)
     @ [''hwif_in_live'', ''hwif_in_drive'']"

definition port_sigs :: "(csr_reg \<Rightarrow> csr_field \<Rightarrow> string) \<Rightarrow> (csr_reg \<times> csr_field) list \<Rightarrow> decl list" where
  "port_sigs nm fs = map (\<lambda>(reg, f). (Sig (nm reg f), f_width f, Input)) fs"

definition trap_decls :: "csr_design \<Rightarrow> decl list" where
  "trap_decls d =
     [(Sig ''trap_enter'', 1, Input), (Sig ''xret_enter'', 1, Input)]
     @ port_sigs save_port_name (save_on_trap_fields d)
     @ port_sigs restore_port_name (restore_on_ret_fields d)
     @ port_sigs mirror_port_name (hw_mirror_fields d)
     @ map (\<lambda>(m, w). (Mem ''hwif_in_live'' m, w, Input)) (or_reserved (hwif_in_members d))
     @ map (\<lambda>(m, w). (Mem ''hwif_in_drive'' m, w, Output)) (or_reserved (hwif_in_members d))"

lemma uint_port: "port_decls ps x ('' in '' @ uint w) = [(Sig x, w, Input)]"
proof -
  have "port_type ('' in '' @ uint w) = uint w" "first_word ('' in '' @ uint w) = ''in''"
    by (rule port_types [OF uint_width(1)], rule port_words)
  then show ?thesis unfolding port_decls_def by (simp add: uint_width(2))
qed

lemma port_items_decls: "concat (map (item_decls ps) (port_items nm fs)) = port_sigs nm fs"
  by (induction fs) (auto simp: port_items_def port_sigs_def uint_port [simplified])

lemma trap_module_decls:
  assumes "typable d"
  shows "module_decls (csr_package d) (trap_module d nm) = trap_decls d"
proof -
  let ?ps = "ap_items (csr_package d)"
  have scope: "in_scope (csr_package d) (trap_module d nm) = ?ps"
    by (simp add: in_scope_def csr_package_def trap_module_def)
  have tn: "type_name (d_hwif_in_struct d)" using assms by (simp add: typable_def)
  have ports: "port_decls ?ps ''hwif_in_live'' (''  in  '' @ d_hwif_in_struct d)
      = map (\<lambda>(m, w). (Mem ''hwif_in_live'' m, w, Input)) (or_reserved (hwif_in_members d))"
    "port_decls ?ps ''hwif_in_drive'' ('' out '' @ d_hwif_in_struct d)
      = map (\<lambda>(m, w). (Mem ''hwif_in_drive'' m, w, Output)) (or_reserved (hwif_in_members d))"
    using type_nameD [OF tn]
    by (simp_all add: port_decls_def port_types [simplified] port_words [simplified] package_structs [OF assms])
  show ?thesis
    unfolding module_decls_def scope
    by (simp add: trap_module_def port_items_decls ports [simplified] trap_decls_def)
qed

lemma trap_module_names: "module_names (trap_module d nm) = trap_names d"
proof -
  have "concat (map item_names (port_items nm fs)) = map (\<lambda>(reg, f). nm reg f) fs" for nm fs
    by (induction fs) (auto simp: port_items_def)
  then show ?thesis by (simp add: module_names_def trap_module_def trap_names_def)
qed

lemma port_sigs_keys: "map fst (port_sigs nm fs) = map Sig (map (\<lambda>(reg, f). nm reg f) fs)"
  by (simp add: port_sigs_def comp_def case_prod_beta)

lemma trap_decl_keys: "map fst (trap_decls d) =
    map Sig ([''trap_enter'', ''xret_enter'']
      @ map (\<lambda>(reg, f). save_port_name reg f) (save_on_trap_fields d)
      @ map (\<lambda>(reg, f). restore_port_name reg f) (restore_on_ret_fields d)
      @ map (\<lambda>(reg, f). mirror_port_name reg f) (hw_mirror_fields d))
    @ map (Mem ''hwif_in_live'') (map fst (or_reserved (hwif_in_members d)))
    @ map (Mem ''hwif_in_drive'') (map fst (or_reserved (hwif_in_members d)))"
  by (simp add: trap_decls_def port_sigs_keys comp_def case_prod_beta)

lemma trap_decls_distinct:
  assumes "typable d" and "distinct (trap_names d)"
  shows "distinct (map fst (trap_decls d))"
proof -
  have i: "distinct (map fst (or_reserved (hwif_in_members d)))"
    using assms(1) by (simp add: typable_def or_reserved_keys)
  have s: "distinct ([''trap_enter'', ''xret_enter'']
      @ map (\<lambda>(reg, f). save_port_name reg f) (save_on_trap_fields d)
      @ map (\<lambda>(reg, f). restore_port_name reg f) (restore_on_ret_fields d)
      @ map (\<lambda>(reg, f). mirror_port_name reg f) (hw_mirror_fields d))"
    using assms(2) unfolding trap_names_def by (simp add: conj_commute)
  show ?thesis
    unfolding trap_decl_keys distinct_append distinct_map_inj using i s by auto
qed

lemma trap_drive_typed:
  assumes ok: "names_ok d" and \<Gamma>: "\<forall>(r, w, k) \<in> set (trap_decls d). \<Gamma> r = Some w"
    and mem: "(reg, f) \<in> set (all_hwif_in_members d)"
  shows "synth \<Gamma> (drive_expr d reg f) = Some (f_width f)"
    and "\<Gamma> (Mem ''hwif_in_drive'' (member_name reg f)) = Some (f_width f)"
proof -
  have D: "(r, w, k) \<in> set (trap_decls d) \<Longrightarrow> \<Gamma> r = Some w" for r w k using \<Gamma> by auto
  have reg: "reg \<in> set (d_regs d)" and f: "f \<in> set (r_fields reg)"
    using mem by (simp_all add: all_hwif_in_members_def fields_where_set)
  have "(member_name reg f, f_width f) \<in> set (hwif_in_members d)"
    unfolding all_hwif_members [symmetric] using mem by force
  moreover from this have "or_reserved (hwif_in_members d) = hwif_in_members d"
    by (auto simp: or_reserved_def)
  ultimately have m: "(member_name reg f, f_width f) \<in> set (or_reserved (hwif_in_members d))" by simp
  have live: "\<Gamma> (Mem ''hwif_in_live'' (member_name reg f)) = Some (f_width f)"
    by (rule D [where k = Input]) (use m in \<open>force simp: trap_decls_def\<close>)
  show "\<Gamma> (Mem ''hwif_in_drive'' (member_name reg f)) = Some (f_width f)"
    by (rule D [where k = Output]) (use m in \<open>force simp: trap_decls_def\<close>)
  have sigs: "(reg, f) \<in> set fs \<Longrightarrow> (Sig (nm reg f), f_width f, Input) \<in> set (port_sigs nm fs)" for nm fs
    by (force simp: port_sigs_def)
  have save: "f_save_on_trap f \<Longrightarrow> \<Gamma> (Sig (save_port_name reg f)) = Some (f_width f)"
    using sigs [of "save_on_trap_fields d" save_port_name] reg f
    by (intro D [where k = Input]) (simp add: trap_decls_def save_on_trap_fields_def fields_where_set)
  have restore: "f_restore_on_ret f \<Longrightarrow> \<Gamma> (Sig (restore_port_name reg f)) = Some (f_width f)"
    using sigs [of "restore_on_ret_fields d" restore_port_name] reg f
    by (intro D [where k = Input]) (simp add: trap_decls_def restore_on_ret_fields_def fields_where_set)
  have mirror: "f_hw_mirror f \<Longrightarrow> \<Gamma> (Sig (mirror_port_name reg f)) = Some (f_width f)"
    using sigs [of "hw_mirror_fields d" mirror_port_name] reg f
    by (intro D [where k = Input]) (simp add: trap_decls_def hw_mirror_fields_def fields_where_set)
  have enter: "\<Gamma> (Sig ''trap_enter'') = Some 1" "\<Gamma> (Sig ''xret_enter'') = Some 1"
    by (rule D [where k = Input], simp add: trap_decls_def)+
  show "synth \<Gamma> (drive_expr d reg f) = Some (f_width f)"
    using save restore mirror enter live
    by (simp add: drive_expr_def Let_def set_lookups(1-3) in_set_flag [OF ok reg f])
qed

lemma trap_well_typed:
  assumes ok: "typable d" and names: "names_ok d" "distinct (trap_names d)"
  shows "well_typed (csr_package d) (trap_module d nm)"
proof -
  let ?p = "csr_package d" and ?m = "trap_module d nm"
  let ?\<Gamma> = "module_env ?p ?m"
  have dist: "distinct (map fst (trap_decls d))" by (rule trap_decls_distinct [OF ok names(2)])
  have \<Gamma>: "\<forall>(r, w, k) \<in> set (trap_decls d). ?\<Gamma> r = Some w"
    using module_env_decl [of ?p ?m] dist by (auto simp: trap_module_decls [OF ok])
  have empty: "all_hwif_in_members d = [] \<longleftrightarrow> hwif_in_members d = []"
    by (simp add: all_hwif_members [symmetric])
  have keys: "map fst (module_drives ?m) = refs_of Output (trap_decls d)"
  proof -
    have "refs_of Output (port_sigs nm fs) = []" for nm fs
      by (induction fs) (auto simp: port_sigs_def)
    then have "refs_of Output (trap_decls d) = map (Mem ''hwif_in_drive'') (map fst (or_reserved (hwif_in_members d)))"
      by (simp add: trap_decls_def del: map_map)
    moreover have "map fst (module_drives ?m) = map (Mem ''hwif_in_drive'') (map fst (or_reserved (hwif_in_members d)))"
      using empty by (simp add: trap_module_drives trap_drives_def or_reserved_def all_hwif_members [symmetric]
          case_prod_beta comp_def)
    ultimately show ?thesis by simp
  qed
  have comb: "item_typed ps ?\<Gamma> regs (CombI (trap_drives d))" for ps regs
  proof (cases "all_hwif_in_members d = []")
    case True
    then have "or_reserved (hwif_in_members d) = [(''_reserved'', 1)]" using empty by (simp add: or_reserved_def)
    with True \<Gamma> show ?thesis by (simp add: trap_drives_def trap_decls_def)
  next
    case False
    then show ?thesis
      using trap_drive_typed [OF names(1) \<Gamma>] by (auto simp: trap_drives_def synth_fits)
  qed
  have lets: "lets_ok (am_items ?m)"
    by (simp add: trap_module_def port_items_def lets_ok_map case_prod_beta)
  have items: "list_all (item_typed (in_scope ?p ?m) ?\<Gamma> regs) (am_items ?m)" for regs
    using comb by (simp add: trap_module_def port_items_def list_all_iff del: item_typed.simps(5)) auto
  show ?thesis
    unfolding well_typed_def Let_def trap_module_decls [OF ok] trap_module_names keys
    using names(2) dist lets items distinct_refs_of [OF dist] by blast
qed

section \<open>The access controller\<close>

definition access_decls :: "decl list" where
  "access_decls =
     [(Sig ''csr_addr'', 12, Input), (Sig ''csr_opcode'', 3, Input), (Sig ''cur_priv'', 2, Input),
      (Sig ''valid'', 1, Input), (Sig ''granted'', 1, Output), (Sig ''illegal'', 1, Output),
      (Sig ''cause'', 5, Output), (Sig ''min_priv'', 2, Local), (Sig ''is_ro'', 1, Local),
      (Sig ''is_write'', 1, Local), (Sig ''priv_ok'', 1, Local), (Sig ''access_ok'', 1, Local)]"

lemma access_module_decls: "module_decls p (access_module d nm) = access_decls"
proof -
  have w: "scalar_width (port_type ''   in  UInt<12>'') = Some 12" "scalar_width (port_type '' in  UInt<3>'') = Some 3"
    "scalar_width (port_type ''   in  UInt<2>'') = Some 2" "scalar_width (port_type ''      in  Bool'') = Some 1"
    "scalar_width (port_type ''    out Bool'') = Some 1" "scalar_width (port_type ''      out UInt<5>'') = Some 5"
    by code_simp+
  have words: "first_word ''   in  UInt<12>'' \<noteq> ''out''" "first_word '' in  UInt<3>'' \<noteq> ''out''"
    "first_word ''   in  UInt<2>'' \<noteq> ''out''" "first_word ''      in  Bool'' \<noteq> ''out''"
    "first_word ''    out Bool'' = ''out''" "first_word ''      out UInt<5>'' = ''out''"
    by code_simp+
  have ports: "port_decls ps x ''   in  UInt<12>'' = [(Sig x, 12, Input)]" "port_decls ps x '' in  UInt<3>'' = [(Sig x, 3, Input)]"
    "port_decls ps x ''   in  UInt<2>'' = [(Sig x, 2, Input)]" "port_decls ps x ''      in  Bool'' = [(Sig x, 1, Input)]"
    "port_decls ps x ''    out Bool'' = [(Sig x, 1, Output)]" "port_decls ps x ''      out UInt<5>'' = [(Sig x, 5, Output)]"
    for ps x
    using w words by (simp_all only: scalar_port if_True if_False refl)
  show ?thesis
    by (simp add: module_decls_def access_module_def access_decls_def ports)
qed

lemma access_well_typed:
  assumes "addresses_fit d"
  shows "well_typed p (access_module d nm)"
proof -
  let ?\<Gamma> = "module_env p (access_module d nm)"
  have dist: "distinct (map fst access_decls)" by code_simp
  have \<Gamma>: "\<forall>(r, w, k) \<in> set access_decls. ?\<Gamma> r = Some w"
    using module_env_decl [of p "access_module d nm"] dist by (auto simp: access_module_decls)
  have arm: "fits ?\<Gamma> a 12 \<and> synth ?\<Gamma> e = Some 2 \<and> expr_refs a = {} \<and> expr_refs e = {}"
    if "(a, e) \<in> set (override_arms d)" for a e
    using that assms by (auto simp: override_arms_def priv_digits_def addresses_fit_def split: option.splits if_splits)
  have mp: "synth ?\<Gamma> (min_priv_expr d) = Some 2" "expr_refs (min_priv_expr d) = {Sig ''csr_addr''}"
    using \<Gamma> arm by (auto simp: min_priv_expr_def access_decls_def list_all_iff)
  have outs: "map fst (module_drives (access_module d nm)) = refs_of Output access_decls"
    by (simp add: module_drives_def access_module_def access_decls_def)
  have names: "distinct (module_names (access_module d nm))"
    by (simp add: module_names_def access_module_def)
  have lets: "lets_ok (am_items (access_module d nm))"
    by (simp add: access_module_def mp(2))
  have items: "list_all (item_typed ps ?\<Gamma> regs) (am_items (access_module d nm))" for ps regs
    using \<Gamma> synth_fits [OF mp(1)] by (simp add: access_module_def access_decls_def)
  show ?thesis
    unfolding well_typed_def Let_def access_module_decls outs
    using names dist lets items distinct_refs_of [OF dist] by blast
qed

section \<open>The generated files agree\<close>

lemma demo_signals: "trap_signals demo_design = [''mtvec_write'']" "increment_enables demo_design = [''cycle_en'']"
  by code_simp+

lemma demo_structs: "map r_struct_name (d_regs demo_design)
    = [''MstatusReg'', ''MtvecReg'', ''MipReg'', ''McycleReg'', ''McyclehReg'', ''MvendoridReg'']"
  by code_simp

lemma demo_type_names: "d_hwif_in_struct demo_design = ''MTrapCsrFileHwifIn''"
  "d_hwif_out_struct demo_design = ''MTrapCsrFileHwifOut''" "d_csr_file_bus demo_design = ''MTrapCsrFileBus''"
  by code_simp+

lemma demo_out_members: "map fst (hwif_out_members demo_design) =
  [''mstatus_mie'', ''mstatus_mpie'', ''mstatus_mpp'', ''mstatus_wpri_hi'', ''mstatus_rdata_flat'',
   ''mtvec_mode'', ''mtvec_base'', ''mtvec_rdata_flat'', ''mip_msip'', ''mip_rdata_flat'',
   ''mcycle_count'', ''mcycle_rdata_flat'', ''mcycleh_count'', ''mcycleh_rdata_flat'',
   ''mvendorid_id'', ''mvendorid_rdata_flat'']"
  by code_simp

lemma demo_trap_names: "distinct (trap_names demo_design)"
  by code_simp

lemma demo_states: "map r_state_name (d_regs demo_design)
    = [''mstatus_r'', ''mtvec_r'', ''mip_r'', ''mcycle_r'', ''mcycleh_r'', ''mvendorid_r'']"
  using arg_cong [OF demo_view, of "map fst"] by (simp add: reg_view_def comp_def)

lemma demo_typable: "typable demo_design"
proof -
  have "type_name ''MTrapCsrFileHwifIn''" "type_name ''MTrapCsrFileHwifOut''" "type_name ''MTrapCsrFileBus''"
    by code_simp+
  moreover have "distinct (csr_names demo_design)"
    by (simp add: csr_names_def demo_signals demo_states)
  moreover have "d_regs demo_design \<noteq> []" using demo_count by (metis list.size(3) zero_neq_numeral)
  ultimately show ?thesis
    using demo_resets_fit by (simp add: typable_def demo_structs demo_type_names demo_members demo_out_members)
qed

lemma emitted_modules_typed:
  assumes "wf_design d" and "typable d" and "names_ok d" and "distinct (trap_names d)" and "csr_module d = Inr mc"
    and "m \<in> {mc, trap_module d nt, access_module d na}"
  shows "well_typed (csr_package d) m"
proof -
  have "mc = csr_module_of d" using csr_module_wf [OF assms(1)] assms(5) by (simp add: csr_module_of_def)
  moreover have "addresses_fit d" using assms(1) by (simp add: wf_design_def)
  ultimately show ?thesis
    using csr_well_typed [OF assms(1,2)] trap_well_typed [OF assms(2-4)] access_well_typed assms(6) by blast
qed

text \<open>
  What the hypotheses rule out, and the checks of the generator do not: a trap signal named like a port
  of the module, two fields whose hardware-interface members get the same name, and a design without
  registers, whose output struct has a member that nothing drives.
\<close>

definition one_reg :: "string \<Rightarrow> nat \<Rightarrow> rdl_field \<Rightarrow> rdl_node" where
  "one_reg nm addr fld = RegNode (rdl_reg0 nm addr [fld])"

definition tree_of :: "rdl_node list \<Rightarrow> rdl_top" where
  "tree_of ns = \<lparr>tn_inst_name = ''t'', tn_children = ns\<rparr>"

definition passes :: "rdl_top \<Rightarrow> (csr_design \<Rightarrow> bool) \<Rightarrow> bool" where
  "passes tp P = (case scan demo_deref tp None None 32 of Inl _ \<Rightarrow> False | Inr d \<Rightarrow> validate d = Inr () \<and> P d)"

lemma port_clash: "passes
   (tree_of [one_reg ''mtvec'' 0x305 ((rdl_field0 ''base'' 31 2)\<lparr>fn_trap_signal := Some ''granted''\<rparr>)])
   (\<lambda>d. \<not> distinct (csr_names d))"
  by code_simp

lemma member_clash: "passes
   (tree_of [one_reg ''a_b'' 0x300 ((rdl_field0 ''c'' 0 0)\<lparr>fn_hw_writable := True\<rparr>),
            one_reg ''a'' 0x301 ((rdl_field0 ''b_c'' 0 0)\<lparr>fn_hw_writable := True\<rparr>)])
   (\<lambda>d. \<not> distinct (map fst (hwif_in_members d)))"
  by code_simp

lemma empty_undriven: "passes (tree_of [])
   (\<lambda>d. case csr_module d of Inl _ \<Rightarrow> False
      | Inr m \<Rightarrow> (Mem ''hwif_out'' ''_reserved'', 1, Output) \<in> set (module_decls (csr_package d) m)
          \<and> map_of (module_drives m) (Mem ''hwif_out'' ''_reserved'') = None)"
  by code_simp

text \<open>
  C3: The emitted files agree: the text of the package is the rendering of its declarations, and the
  CSR file, the trap coordinator and the access controller are well typed against them. Every signal
  they use is declared once, with the width it is used at; every register reset matches the struct of
  its register; and every output, of a port struct member by member, is driven exactly once.
\<close>

theorem emitted_typed:
  assumes "wf_design d" and "typable d" and "names_ok d" and "distinct (trap_names d)" and "csr_module d = Inr m"
  shows "emit_package d = render_package (csr_package d)
    \<and> well_typed (csr_package d) m
    \<and> well_typed (csr_package d) (trap_module d nt)
    \<and> well_typed (csr_package d) (access_module d na)"
  using emitted_modules_typed [OF assms] package_text by blast

theorem emitted_typed_witness: "well_typed (csr_package demo_design) demo_csr_module"
  using emitted_typed [OF demo_wf demo_typable demo_names_ok demo_trap_names demo_module] by blast

text \<open>
  C13: No value is truncated on its way through the emitted modules: when every signal holds a value of
  its declared width, every output is driven with a value of its declared width, every value assigned
  to a register fits it, and every register has its declared width again after the clock edge.
\<close>

theorem emitted_exact:
  assumes "arch_hdl ev nxt" and "wf_design d" and "typable d" and "names_ok d" and "distinct (trap_names d)"
    and "csr_module d = Inr mc" and "m \<in> {mc, trap_module d nt, access_module d na}"
    and "signals_sized (module_decls (csr_package d) m) \<rho>"
  shows "(\<forall>(r, w, k) \<in> set (module_decls (csr_package d) m).
      (k = Output \<longrightarrow> (\<exists>v. module_out ev m \<rho> r = Some v \<and> bn v < 2 ^ w))
      \<and> (k = Register \<longrightarrow> sized w (module_next ev nxt m \<rho> r)))
    \<and> (\<forall>(r, e) \<in> set (concat (map assigns (module_stmts m))).
        bn (ev (bind_lets ev \<rho> (am_items m)) e) < 2 ^ bw (\<rho> r))"
proof -
  note wt = emitted_modules_typed [OF assms(2-7)]
  note out = arch_hdl.well_typed_out [OF assms(1) wt assms(8)]
    and next_state = arch_hdl.well_typed_next [OF assms(1) wt assms(8)]
    and assign = arch_hdl.well_typed_assign [OF assms(1) wt assms(8)]
  show ?thesis using out next_state assign by (intro conjI ballI) blast+
qed

theorem emitted_exact_witness:
  "\<exists>v. module_out arch_eval demo_csr_module (zero_env (csr_decls demo_design)) (Mem ''csr'' ''rsp_rdata'') = Some v \<and> bn v < 2 ^ 32"
proof -
  have m: "demo_csr_module = csr_module_of demo_design"
    using demo_module csr_module_wf [OF demo_wf] by (simp add: csr_module_of_def)
  have ds: "module_decls (csr_package demo_design) demo_csr_module = csr_decls demo_design"
    unfolding m by (rule csr_module_decls [OF demo_typable])
  have "signals_sized (csr_decls demo_design) (zero_env (csr_decls demo_design))"
    by (rule zero_env_sized [OF csr_decls_distinct [OF demo_wf demo_typable]])
  from emitted_exact [OF arch.arch_hdl_axioms demo_wf demo_typable demo_names_ok demo_trap_names demo_module
      _ this [folded ds], of "[]" "[]", THEN conjunct1]
  have "\<forall>(r, w, k) \<in> set (csr_decls demo_design). k = Output \<longrightarrow>
      (\<exists>v. module_out arch_eval demo_csr_module (zero_env (csr_decls demo_design)) r = Some v \<and> bn v < 2 ^ w)"
    unfolding ds by auto
  moreover have "(Mem ''csr'' ''rsp_rdata'', 32, Output) \<in> set (csr_decls demo_design)"
    using demo_xlen by (simp add: csr_decls_def)
  ultimately show ?thesis by fastforce
qed

end
