(* ===== verification/Clint.thy ===== *)
theory Clint
  imports AccessCtl Fixtures
begin

text \<open>
  The timer device (\<^verbatim>\<open>emit_clint_logic.py\<close>): the scan of its registers, the emitted text, the module
  the text denotes, and what the module computes: a 64-bit timer kept in two 32-bit registers, its
  comparison with the 64-bit comparator, and the software-interrupt line.
\<close>

section \<open>Scanning\<close>

record clint_model =
  cm_top :: rdl_top
  cm_module_name :: string
  cm_package_name :: string
  cm_hwif_in_struct :: string
  cm_hwif_out_struct :: string
  cm_msip :: "rdl_reg option"
  cm_mtimecmp_lo :: "rdl_reg option"
  cm_mtimecmp_hi :: "rdl_reg option"
  cm_mtime_lo :: "rdl_reg option"
  cm_mtime_hi :: "rdl_reg option"

text \<open>Direct children only: a register inside a register file is not seen.\<close>

fun clint_bucket :: "clint_model \<Rightarrow> rdl_node \<Rightarrow> clint_model" where
  "clint_bucket model (RegNode child) =
     (case rn_clint_role child of
        None \<Rightarrow> model
      | Some role \<Rightarrow>
          if role = ''msip'' then model\<lparr>cm_msip := Some child\<rparr>
          else if role = ''mtimecmp_lo'' then model\<lparr>cm_mtimecmp_lo := Some child\<rparr>
          else if role = ''mtimecmp_hi'' then model\<lparr>cm_mtimecmp_hi := Some child\<rparr>
          else if role = ''mtime_lo'' then model\<lparr>cm_mtime_lo := Some child\<rparr>
          else if role = ''mtime_hi'' then model\<lparr>cm_mtime_hi := Some child\<rparr>
          else model)"
| "clint_bucket model _ = model"

definition scan_clint :: "rdl_top \<Rightarrow> string \<Rightarrow> string \<Rightarrow> clint_model" where
  "scan_clint tp module_name package_name =
     foldl clint_bucket
       \<lparr>cm_top = tp, cm_module_name = module_name, cm_package_name = package_name,
        cm_hwif_in_struct = module_name @ ''HwifIn'', cm_hwif_out_struct = module_name @ ''HwifOut'',
        cm_msip = None, cm_mtimecmp_lo = None, cm_mtimecmp_hi = None, cm_mtime_lo = None,
        cm_mtime_hi = None\<rparr>
       (tn_children tp)"

section \<open>The emitter\<close>

text \<open>\<^verbatim>\<open>next(iter(reg.fields())).inst_name\<close>\<close>

definition first_field :: "rdl_reg \<Rightarrow> string res" where
  "first_field reg = (case rn_fields reg of [] \<Rightarrow> Inl StopIteration | f # _ \<Rightarrow> Inr (fn_inst_name f))"

definition reg_field_hwif_out :: "rdl_reg \<Rightarrow> string \<Rightarrow> string" where
  "reg_field_hwif_out reg field_name = rn_inst_name reg @ ''_'' @ field_name"

text \<open>The five member names, or the exception of the checks and of the field look-ups.\<close>

record clint_names =
  cn_msip :: string
  cn_cmp_lo :: string
  cn_cmp_hi :: string
  cn_time_lo :: string
  cn_time_hi :: string

definition clint_check :: "clint_model \<Rightarrow> unit res" where
  "clint_check model =
     res_bind (raise_if (cm_msip model = None)
       (ValueError (''CLINT fixture is missing an `msip` reg (role = '' @ sq @ ''msip'' @ sq @ '')''))) (\<lambda>_.
     res_bind (raise_if (cm_mtimecmp_lo model = None \<or> cm_mtimecmp_hi model = None)
       (ValueError (''CLINT fixture must declare both mtimecmp_lo and mtimecmp_hi regs (role = '' @ sq
         @ ''mtimecmp_lo'' @ sq @ '' / '' @ sq @ ''mtimecmp_hi'' @ sq @ '')''))) (\<lambda>_.
     raise_if (cm_mtime_lo model = None \<or> cm_mtime_hi model = None)
       (ValueError (''CLINT fixture must declare both mtime_lo and mtime_hi regs (role = '' @ sq
         @ ''mtime_lo'' @ sq @ '' / '' @ sq @ ''mtime_hi'' @ sq @ '')''))))"

definition clint_names_of :: "clint_model \<Rightarrow> clint_names res" where
  "clint_names_of model =
     res_bind (clint_check model) (\<lambda>_.
     let msip = the (cm_msip model); cmp_lo = the (cm_mtimecmp_lo model);
         cmp_hi = the (cm_mtimecmp_hi model); time_lo = the (cm_mtime_lo model);
         time_hi = the (cm_mtime_hi model) in
     res_bind (first_field msip) (\<lambda>msip_field.
     res_bind (first_field cmp_lo) (\<lambda>cmp_lo_field.
     res_bind (first_field cmp_hi) (\<lambda>cmp_hi_field.
     res_bind (first_field time_lo) (\<lambda>time_lo_field.
     res_bind (first_field time_hi) (\<lambda>time_hi_field.
     Inr \<lparr>cn_msip = reg_field_hwif_out msip msip_field,
          cn_cmp_lo = reg_field_hwif_out cmp_lo cmp_lo_field,
          cn_cmp_hi = reg_field_hwif_out cmp_hi cmp_hi_field,
          cn_time_lo = reg_field_hwif_out time_lo time_lo_field,
          cn_time_hi = reg_field_hwif_out time_hi time_hi_field\<rparr>))))))"

definition emit_clint_logic :: "clint_model \<Rightarrow> string \<Rightarrow> string res" where
  "emit_clint_logic model logic_module_name =
     res_bind (clint_names_of model) (\<lambda>n. Inr (join newline
       [''use '' @ cm_package_name model @ '';'',
        [],
        ''module '' @ logic_module_name,
        ''  port clk:        in Clock<SysDomain>;'',
        ''  port rst:        in Reset<Async, Low>;'',
        ''  port mtime_tick: in Bool;'',
        ''  port hwif_out:   in  '' @ cm_hwif_out_struct model @ '';'',
        ''  port hwif_in:    out '' @ cm_hwif_in_struct model @ '';'',
        ''  port msip_out:   out Bool;'',
        ''  port mtip_out:   out Bool;'',
        [],
        ''  let mtime:    UInt<64> = {hwif_out.'' @ cn_time_hi n @ '', hwif_out.'' @ cn_time_lo n @ ''};'',
        ''  let mtimecmp: UInt<64> = {hwif_out.'' @ cn_cmp_hi n @ '', hwif_out.'' @ cn_cmp_lo n @ ''};'',
        ''  let next_mtime: UInt<64> = mtime_tick ? (mtime +% 64'' @ sq @ ''h1) : mtime;'',
        [],
        ''  comb'',
        ''    hwif_in.'' @ cn_time_lo n @ '' = next_mtime[31:0];'',
        ''    hwif_in.'' @ cn_time_hi n @ '' = next_mtime[63:32];'',
        ''    msip_out = hwif_out.'' @ cn_msip n @ '' != 1'' @ sq @ ''h0;'',
        ''    mtip_out = mtime >= mtimecmp;'',
        ''  end comb'',
        ''end module '' @ logic_module_name,
        []]))"

section \<open>The module it denotes\<close>

abbreviation hwif :: "string \<Rightarrow> aexpr" where
  "hwif x \<equiv> Ref (Mem ''hwif_out'' x)"

definition clint_items :: "clint_model \<Rightarrow> clint_names \<Rightarrow> aitem list" where
  "clint_items model n =
     [PortI ''clk'' ''        in Clock<SysDomain>'', PortI ''rst'' ''        in Reset<Async, Low>'',
      PortI ''mtime_tick'' '' in Bool'',
      PortI ''hwif_out'' (''   in  '' @ cm_hwif_out_struct model),
      PortI ''hwif_in'' (''    out '' @ cm_hwif_in_struct model),
      PortI ''msip_out'' ''   out Bool'', PortI ''mtip_out'' ''   out Bool'', Blank,
      LetI ''mtime'' 4 (TUInt 64) (Concat [hwif (cn_time_hi n), hwif (cn_time_lo n)]),
      LetI ''mtimecmp'' 1 (TUInt 64) (Concat [hwif (cn_cmp_hi n), hwif (cn_cmp_lo n)]),
      LetI ''next_mtime'' 1 (TUInt 64)
        (CondE (sig ''mtime_tick'') (Paren (AddW (sig ''mtime'') (HexLit 64 ''1''))) (sig ''mtime'')),
      Blank,
      CombI [(Mem ''hwif_in'' (cn_time_lo n), 1, SliceE (sig ''next_mtime'') 31 0),
             (Mem ''hwif_in'' (cn_time_hi n), 1, SliceE (sig ''next_mtime'') 63 32),
             (Sig ''msip_out'', 1, NeqE (hwif (cn_msip n)) (HexLit 1 ''0'')),
             (Sig ''mtip_out'', 1, GeE (sig ''mtime'') (sig ''mtimecmp''))]]"

definition clint_module :: "clint_model \<Rightarrow> string \<Rightarrow> amodule res" where
  "clint_module model nm = res_bind (clint_names_of model) (\<lambda>n.
     Inr \<lparr>am_use = Some (cm_package_name model), am_name = nm, am_items = clint_items model n\<rparr>)"

lemma clint_render:
  "emit_clint_logic model nm = res_bind (clint_module model nm) (\<lambda>m. Inr (render_module m))"
  by (cases "clint_names_of model")
    (simp_all add: emit_clint_logic_def clint_module_def render_module_def clint_items_def)

section \<open>What the module computes\<close>

definition clint_env :: "clint_names \<Rightarrow> env \<Rightarrow> bool" where
  "clint_env n \<rho> \<longleftrightarrow>
     sized 32 (\<rho> (Mem ''hwif_out'' (cn_time_lo n))) \<and> sized 32 (\<rho> (Mem ''hwif_out'' (cn_time_hi n)))
     \<and> sized 32 (\<rho> (Mem ''hwif_out'' (cn_cmp_lo n))) \<and> sized 32 (\<rho> (Mem ''hwif_out'' (cn_cmp_hi n)))
     \<and> sized 1 (\<rho> (Sig ''mtime_tick'')) \<and> cn_time_lo n \<noteq> cn_time_hi n"

definition mtime :: "clint_names \<Rightarrow> env \<Rightarrow> nat" where
  "mtime n \<rho> = bn (\<rho> (Mem ''hwif_out'' (cn_time_hi n))) * 2 ^ 32 + bn (\<rho> (Mem ''hwif_out'' (cn_time_lo n)))"

definition mtimecmp :: "clint_names \<Rightarrow> env \<Rightarrow> nat" where
  "mtimecmp n \<rho> = bn (\<rho> (Mem ''hwif_out'' (cn_cmp_hi n))) * 2 ^ 32 + bn (\<rho> (Mem ''hwif_out'' (cn_cmp_lo n)))"

definition mtime_next :: "clint_names \<Rightarrow> env \<Rightarrow> nat" where
  "mtime_next n \<rho> = (if isset (\<rho> (Sig ''mtime_tick'')) then (mtime n \<rho> + 1) mod 2 ^ 64 else mtime n \<rho>)"

lemma mtime_less: "clint_env n \<rho> \<Longrightarrow> mtime n \<rho> < 2 ^ 64" "clint_env n \<rho> \<Longrightarrow> mtimecmp n \<rho> < 2 ^ 64"
  using concat_bits_less [of _ 32 _ 32] by (simp_all add: clint_env_def sized_def mtime_def mtimecmp_def)

text \<open>The \<^verbatim>\<open>let\<close> bindings do not touch what these read.\<close>

lemma clint_let_frame [simp]:
  "mtime n (\<rho>(Sig x := v)) = mtime n \<rho>" "mtimecmp n (\<rho>(Sig x := v)) = mtimecmp n \<rho>"
  "x \<noteq> ''mtime_tick'' \<Longrightarrow> clint_env n (\<rho>(Sig x := v)) = clint_env n \<rho>"
  by (simp_all add: mtime_def mtimecmp_def clint_env_def)

context arch_hdl
begin

lemma ev_pair:
  "sized 32 (\<rho> hi) \<Longrightarrow> sized 32 (\<rho> lo) \<Longrightarrow>
   ev \<rho> (Concat [Ref hi, Ref lo]) = BV 64 (bn (\<rho> hi) * 2 ^ 32 + bn (\<rho> lo))"
  by (simp add: ev_concat_cons ev_concat_one ev_ref sized_def)

lemma ev_timers:
  "clint_env n \<rho> \<Longrightarrow> ev \<rho> (Concat [hwif (cn_time_hi n), hwif (cn_time_lo n)]) = BV 64 (mtime n \<rho>)"
  "clint_env n \<rho> \<Longrightarrow> ev \<rho> (Concat [hwif (cn_cmp_hi n), hwif (cn_cmp_lo n)]) = BV 64 (mtimecmp n \<rho>)"
  unfolding clint_env_def mtime_def mtimecmp_def by (rule ev_pair; simp)+

lemma clint_outputs:
  assumes m: "clint_module model nm = Inr m" and n: "clint_names_of model = Inr n" and env: "clint_env n \<rho>"
  shows "module_out ev m \<rho> (Mem ''hwif_in'' (cn_time_lo n)) = Some (BV 32 (mtime_next n \<rho> mod 2 ^ 32))"
    and "module_out ev m \<rho> (Mem ''hwif_in'' (cn_time_hi n)) = Some (BV 32 (mtime_next n \<rho> div 2 ^ 32))"
    and "module_out ev m \<rho> (Sig ''msip_out'') = Some (bit1 (isset (\<rho> (Mem ''hwif_out'' (cn_msip n)))))"
    and "module_out ev m \<rho> (Sig ''mtip_out'') = Some (bit1 (mtimecmp n \<rho> \<le> mtime n \<rho>))"
proof -
  have items: "am_items m = clint_items model n" using m n by (auto simp: clint_module_def)
  let ?\<rho> = "bind_lets ev \<rho> (clint_items model n)"
  from env have sz: "sized 32 (\<rho> (Mem ''hwif_out'' (cn_time_lo n)))" "sized 32 (\<rho> (Mem ''hwif_out'' (cn_time_hi n)))"
    "sized 32 (\<rho> (Mem ''hwif_out'' (cn_cmp_lo n)))" "sized 32 (\<rho> (Mem ''hwif_out'' (cn_cmp_hi n)))"
    and diff: "cn_time_lo n \<noteq> cn_time_hi n"
    by (simp_all add: clint_env_def)
  have one: "ev \<sigma> (HexLit 64 ''1'') = BV 64 1" for \<sigma>
  proof -
    have "''1'' = nat_hex 1" by code_simp
    then show ?thesis using ev_hex_value [of 1 64 \<sigma>] by simp
  qed
  let ?r1 = "\<rho>(Sig ''mtime'' := BV 64 (mtime n \<rho>))"
  let ?r2 = "?r1(Sig ''mtimecmp'' := BV 64 (mtimecmp n \<rho>))"
  have fit64: "v < 2 ^ 64 \<Longrightarrow> fit 64 (BV 64 v) = BV 64 v" for v by (simp add: fit_def)
  have nx: "ev ?r2 (CondE (sig ''mtime_tick'') (Paren (AddW (sig ''mtime'') (HexLit 64 ''1''))) (sig ''mtime''))
      = BV 64 (mtime_next n \<rho>)"
    by (simp only: ev_cond ev_paren ev_addw ev_ref one) (simp add: mtime_next_def)
  have less: "mtime_next n \<rho> < 2 ^ 64" using mtime_less(1) [OF env] by (simp add: mtime_next_def)
  have e1: "clint_env n ?r1" using env by simp
  have c1: "ev ?r1 (Concat [hwif (cn_cmp_hi n), hwif (cn_cmp_lo n)]) = BV 64 (mtimecmp n \<rho>)"
    using ev_timers(2) [OF e1] by simp
  have binds: "?\<rho> = ?r2(Sig ''next_mtime'' := BV 64 (mtime_next n \<rho>))"
    unfolding clint_items_def
    by (simp only: bind_lets.simps ty_width.simps ev_timers(1) [OF env] fit64 [OF mtime_less(1) [OF env]] c1
        fit64 [OF mtime_less(2) [OF env]] nx fit64 [OF less])
  have t: "?\<rho> (Sig ''mtime'') = BV 64 (mtime n \<rho>)" and c: "?\<rho> (Sig ''mtimecmp'') = BV 64 (mtimecmp n \<rho>)"
    and nx: "?\<rho> (Sig ''next_mtime'') = BV 64 (mtime_next n \<rho>)"
    unfolding binds by simp_all
  have dr: "concat (map item_drives (clint_items model n)) =
      [(Mem ''hwif_in'' (cn_time_lo n), SliceE (sig ''next_mtime'') 31 0),
       (Mem ''hwif_in'' (cn_time_hi n), SliceE (sig ''next_mtime'') 63 32),
       (Sig ''msip_out'', NeqE (hwif (cn_msip n)) (HexLit 1 ''0'')),
       (Sig ''mtip_out'', GeE (sig ''mtime'') (sig ''mtimecmp''))]"
    by (simp add: clint_items_def)
  have hi: "take_bit 32 (drop_bit 32 (mtime_next n \<rho>)) = mtime_next n \<rho> div 2 ^ 32"
    using div_pow_less [of "mtime_next n \<rho>" 32 32] less
    by (simp add: drop_bit_eq_div take_bit_nat_eq_self)
  show "module_out ev m \<rho> (Mem ''hwif_in'' (cn_time_lo n)) = Some (BV 32 (mtime_next n \<rho> mod 2 ^ 32))"
    by (simp add: module_out_def module_drives_def items dr ev_slice ev_ref nx take_bit_eq_mod)
  show "module_out ev m \<rho> (Mem ''hwif_in'' (cn_time_hi n)) = Some (BV 32 (mtime_next n \<rho> div 2 ^ 32))"
    using diff hi by (simp add: module_out_def module_drives_def items dr ev_slice ev_ref nx)
  show "module_out ev m \<rho> (Sig ''msip_out'') = Some (bit1 (isset (\<rho> (Mem ''hwif_out'' (cn_msip n)))))"
    by (simp add: module_out_def module_drives_def items dr ev_neq ev_ref ev_hex isset_def)
  show "module_out ev m \<rho> (Sig ''mtip_out'') = Some (bit1 (mtimecmp n \<rho> \<le> mtime n \<rho>))"
    by (simp add: module_out_def module_drives_def items dr ev_ge ev_ref t c)
qed

end

section \<open>A concrete device\<close>

definition demo_clint_reg :: "string \<Rightarrow> string \<Rightarrow> nat \<Rightarrow> rdl_reg" where
  "demo_clint_reg nm fld msb = (rdl_reg0 nm 0 [rdl_field0 fld msb 0])\<lparr>rn_clint_role := Some nm\<rparr>"

definition demo_clint_top :: rdl_top where
  "demo_clint_top = \<lparr>tn_inst_name = ''clint_basic'', tn_children =
     [RegNode (demo_clint_reg ''msip'' ''value'' 0), LeafNode,
      RegNode (demo_clint_reg ''mtimecmp_lo'' ''v'' 31), RegNode (demo_clint_reg ''mtimecmp_hi'' ''v'' 31),
      RegNode (demo_clint_reg ''mtime_lo'' ''v'' 31), RegNode (demo_clint_reg ''mtime_hi'' ''v'' 31)]\<rparr>"

definition demo_clint :: clint_model where
  "demo_clint = scan_clint demo_clint_top ''ClintBasic'' ''ClintBasicPkg''"

definition demo_clint_names :: clint_names where
  "demo_clint_names = \<lparr>cn_msip = ''msip_value'', cn_cmp_lo = ''mtimecmp_lo_v'', cn_cmp_hi = ''mtimecmp_hi_v'',
     cn_time_lo = ''mtime_lo_v'', cn_time_hi = ''mtime_hi_v''\<rparr>"

lemma demo_clint_names: "clint_names_of demo_clint = Inr demo_clint_names"
  by code_simp

definition demo_clint_module :: amodule where
  "demo_clint_module = \<lparr>am_use = Some ''ClintBasicPkg'', am_name = ''ClintBasicLogic'',
     am_items = clint_items demo_clint demo_clint_names\<rparr>"

lemma demo_clint_module: "clint_module demo_clint ''ClintBasicLogic'' = Inr demo_clint_module"
proof -
  have "cm_package_name demo_clint = ''ClintBasicPkg''" by code_simp
  then show ?thesis by (simp add: clint_module_def demo_clint_names demo_clint_module_def)
qed

text \<open>Cycle \<open>k\<close> of a run: the timer started at 98, the comparator holds 100.\<close>

definition demo_clint_run :: "nat \<Rightarrow> env" where
  "demo_clint_run k r =
     (case r of
        Sig s \<Rightarrow> BV 1 1
      | Mem b x \<Rightarrow> if x = ''mtime_lo_v'' then BV 32 ((98 + k) mod 2 ^ 64 mod 2 ^ 32)
          else if x = ''mtime_hi_v'' then BV 32 ((98 + k) mod 2 ^ 64 div 2 ^ 32)
          else if x = ''mtimecmp_lo_v'' then BV 32 100
          else if x = ''mtimecmp_hi_v'' then BV 32 0 else BV 1 1)"

lemma demo_clint_env: "clint_env demo_clint_names (demo_clint_run k)"
  using div_pow_less [of "(98 + k) mod 2 ^ 64" 32 32]
  by (simp add: clint_env_def demo_clint_names_def demo_clint_run_def)

lemma demo_clint_time: "mtime demo_clint_names (demo_clint_run k) = (98 + k) mod 2 ^ 64"
  "mtimecmp demo_clint_names (demo_clint_run k) = 100"
  by (simp_all only: mtime_def mtimecmp_def demo_clint_names_def clint_names.simps demo_clint_run_def aref.case)
    (simp_all add: div_mult_mod_eq [of _ 4294967296, unfolded mult.commute [of _ 4294967296]])

section \<open>Properties\<close>

text \<open>
  C25: The timer: the two halves the logic writes back to the register block, put together, are
  the 64-bit \<^verbatim>\<open>mtime\<close> plus one when the tick is high (modulo \<open>2 ^ 64\<close>, the carry crosses from
  the low half into the high half) and \<^verbatim>\<open>mtime\<close> itself when it is low.
\<close>

theorem clint_timer:
  assumes "arch_hdl ev nxt" and "clint_module model nm = Inr m" and "clint_names_of model = Inr n"
    and "clint_env n \<rho>"
  shows "\<exists>lo hi. module_out ev m \<rho> (Mem ''hwif_in'' (cn_time_lo n)) = Some (BV 32 lo)
    \<and> module_out ev m \<rho> (Mem ''hwif_in'' (cn_time_hi n)) = Some (BV 32 hi)
    \<and> lo < 2 ^ 32 \<and> hi < 2 ^ 32
    \<and> hi * 2 ^ 32 + lo = (if isset (\<rho> (Sig ''mtime_tick'')) then (mtime n \<rho> + 1) mod 2 ^ 64 else mtime n \<rho>)"
proof -
  have "mtime_next n \<rho> < 2 ^ 64" using mtime_less(1) [OF assms(4)] by (simp add: mtime_next_def)
  then have "mtime_next n \<rho> div 2 ^ 32 < 2 ^ 32" using div_pow_less [of "mtime_next n \<rho>" 32 32] by simp
  moreover have "mtime_next n \<rho> div 2 ^ 32 * 2 ^ 32 + mtime_next n \<rho> mod 2 ^ 32 = mtime_next n \<rho>"
    by (rule div_mult_mod_eq)
  ultimately show ?thesis
    using arch_hdl.clint_outputs(1,2) [OF assms] by (auto simp: mtime_next_def)
qed

theorem clint_timer_witness:
  "\<exists>lo hi. module_out arch_eval demo_clint_module (demo_clint_run 1) (Mem ''hwif_in'' ''mtime_lo_v'') = Some (BV 32 lo)
    \<and> module_out arch_eval demo_clint_module (demo_clint_run 1) (Mem ''hwif_in'' ''mtime_hi_v'') = Some (BV 32 hi)
    \<and> hi * 2 ^ 32 + lo = 100"
proof -
  have tick: "isset (demo_clint_run 1 (Sig ''mtime_tick''))" by (simp add: demo_clint_run_def isset_def)
  have t: "(mtime demo_clint_names (demo_clint_run 1) + 1) mod 2 ^ 64 = 100" by (simp add: demo_clint_time)
  from clint_timer [OF arch.arch_hdl_axioms demo_clint_module demo_clint_names demo_clint_env [of 1]]
  show ?thesis unfolding if_P [OF tick] t by (auto simp: demo_clint_names_def)
qed

text \<open>
  The interrupt lines: \<^verbatim>\<open>msip_out\<close> is the software-interrupt bit, \<^verbatim>\<open>mtip_out\<close> is high exactly
  when the 64-bit timer has reached the 64-bit comparator.
\<close>

theorem clint_interrupts:
  assumes "arch_hdl ev nxt" and "clint_module model nm = Inr m" and "clint_names_of model = Inr n"
    and "clint_env n \<rho>"
  shows "module_out ev m \<rho> (Sig ''msip_out'') = Some (bit1 (isset (\<rho> (Mem ''hwif_out'' (cn_msip n)))))
    \<and> module_out ev m \<rho> (Sig ''mtip_out'') = Some (bit1 (mtimecmp n \<rho> \<le> mtime n \<rho>))"
  using arch_hdl.clint_outputs(3,4) [OF assms] by blast

theorem clint_interrupts_witness:
  "module_out arch_eval demo_clint_module (demo_clint_run 1) (Sig ''mtip_out'') = Some (bit1 False)"
proof -
  have "\<not> mtimecmp demo_clint_names (demo_clint_run 1) \<le> mtime demo_clint_names (demo_clint_run 1)"
    by (simp add: demo_clint_time)
  then show ?thesis
    using clint_interrupts [OF arch.arch_hdl_axioms demo_clint_module demo_clint_names demo_clint_env [of 1]]
    by simp
qed

text \<open>A register block that stores what the logic drives back, software being silent.\<close>

definition clint_feedback :: "(env \<Rightarrow> aexpr \<Rightarrow> bv) \<Rightarrow> amodule \<Rightarrow> clint_names \<Rightarrow> (nat \<Rightarrow> env) \<Rightarrow> bool" where
  "clint_feedback ev m n run \<longleftrightarrow>
     (\<forall>k. clint_env n (run k)
        \<and> module_out ev m (run k) (Mem ''hwif_in'' (cn_time_lo n)) = Some (run (Suc k) (Mem ''hwif_out'' (cn_time_lo n)))
        \<and> module_out ev m (run k) (Mem ''hwif_in'' (cn_time_hi n)) = Some (run (Suc k) (Mem ''hwif_out'' (cn_time_hi n))))"

lemma clint_run_step:
  assumes "arch_hdl ev nxt" and "clint_module model nm = Inr m" and "clint_names_of model = Inr n"
    and "clint_feedback ev m n run"
  shows "mtime n (run (Suc k)) = mtime_next n (run k)"
proof -
  have env: "clint_env n (run k)" using assms(4) by (simp add: clint_feedback_def)
  have "run (Suc k) (Mem ''hwif_out'' (cn_time_lo n)) = BV 32 (mtime_next n (run k) mod 2 ^ 32)"
    "run (Suc k) (Mem ''hwif_out'' (cn_time_hi n)) = BV 32 (mtime_next n (run k) div 2 ^ 32)"
    using arch_hdl.clint_outputs(1,2) [OF assms(1-3) env] assms(4) by (simp_all add: clint_feedback_def)
  then show ?thesis unfolding mtime_def [of n "run (Suc k)"] by (simp only: bv.sel div_mult_mod_eq)
qed

lemma clint_run_time:
  assumes "arch_hdl ev nxt" and "clint_module model nm = Inr m" and "clint_names_of model = Inr n"
    and "clint_feedback ev m n run" and "\<forall>k. isset (run k (Sig ''mtime_tick''))"
  shows "mtime n (run k) = (mtime n (run 0) + k) mod 2 ^ 64"
proof (induction k)
  case 0
  have "clint_env n (run 0)" using assms(4) by (simp add: clint_feedback_def)
  then show ?case using mtime_less(1) by simp
next
  case (Suc k)
  then show ?case
    using clint_run_step [OF assms(1-4), of k] assms(5) by (simp add: mtime_next_def mod_Suc_eq)
qed

text \<open>
  C26: The timer interrupt arrives on time: with the register block storing the drive back, the
  tick held high and the comparator left alone, cycle \<open>k\<close> raises \<^verbatim>\<open>mtip_out\<close> exactly when the
  start time plus \<open>k\<close> has reached the comparator: never early, and never late.
\<close>

theorem clint_alarm:
  assumes "arch_hdl ev nxt" and "clint_module model nm = Inr m" and "clint_names_of model = Inr n"
    and "clint_feedback ev m n run" and "\<forall>k. isset (run k (Sig ''mtime_tick''))"
    and "\<forall>k. mtimecmp n (run k) = c" and "mtime n (run 0) + k < 2 ^ 64"
  shows "module_out ev m (run k) (Sig ''mtip_out'') = Some (bit1 (c \<le> mtime n (run 0) + k))"
proof -
  have "clint_env n (run k)" using assms(4) by (simp add: clint_feedback_def)
  from arch_hdl.clint_outputs(4) [OF assms(1-3) this] clint_run_time [OF assms(1-5), of k] assms(6,7)
  show ?thesis by simp
qed

lemma demo_clint_feedback: "clint_feedback arch_eval demo_clint_module demo_clint_names demo_clint_run"
  unfolding clint_feedback_def
proof (intro allI conjI)
  fix k
  show env: "clint_env demo_clint_names (demo_clint_run k)" by (rule demo_clint_env)
  have "isset (demo_clint_run k (Sig ''mtime_tick''))" by (simp add: demo_clint_run_def isset_def)
  then have t: "mtime_next demo_clint_names (demo_clint_run k) = (98 + Suc k) mod 2 ^ 64"
    by (simp add: mtime_next_def demo_clint_time mod_Suc_eq)
  note out = arch.clint_outputs [OF demo_clint_module demo_clint_names env, unfolded t]
  show "module_out arch_eval demo_clint_module (demo_clint_run k) (Mem ''hwif_in'' (cn_time_lo demo_clint_names))
      = Some (demo_clint_run (Suc k) (Mem ''hwif_out'' (cn_time_lo demo_clint_names)))"
    unfolding out(1) by (simp add: demo_clint_run_def demo_clint_names_def)
  show "module_out arch_eval demo_clint_module (demo_clint_run k) (Mem ''hwif_in'' (cn_time_hi demo_clint_names))
      = Some (demo_clint_run (Suc k) (Mem ''hwif_out'' (cn_time_hi demo_clint_names)))"
    unfolding out(2) by (simp add: demo_clint_run_def demo_clint_names_def)
qed

theorem clint_alarm_witness:
  "module_out arch_eval demo_clint_module (demo_clint_run 2) (Sig ''mtip_out'') = Some (bit1 True)"
proof -
  have "module_out arch_eval demo_clint_module (demo_clint_run 2) (Sig ''mtip_out'')
      = Some (bit1 (100 \<le> mtime demo_clint_names (demo_clint_run 0) + 2))"
    by (rule clint_alarm [OF arch.arch_hdl_axioms demo_clint_module demo_clint_names demo_clint_feedback])
      (simp_all add: demo_clint_time demo_clint_run_def isset_def)
  then show ?thesis by (simp add: demo_clint_time)
qed

text \<open>
  C27: The CLINT emitter returns exactly for a model with all five roles, each with a field, and
  what it returns is the rendering of the module; otherwise it raises (a \<^verbatim>\<open>ValueError\<close> when a
  role is missing).
\<close>

theorem clint_emitter:
  "emit_clint_logic model nm = res_bind (clint_module model nm) (\<lambda>m. Inr (render_module m))
   \<and> ((\<exists>text. emit_clint_logic model nm = Inr text) \<longleftrightarrow>
      (\<forall>r \<in> {cm_msip model, cm_mtimecmp_lo model, cm_mtimecmp_hi model, cm_mtime_lo model, cm_mtime_hi model}.
         \<exists>reg. r = Some reg \<and> rn_fields reg \<noteq> []))"
proof
  show "emit_clint_logic model nm = res_bind (clint_module model nm) (\<lambda>m. Inr (render_module m))"
    by (rule clint_render)
  have ff: "(\<exists>x. first_field r = Inr x) \<longleftrightarrow> rn_fields r \<noteq> []" for r
    by (cases "rn_fields r") (simp_all add: first_field_def)
  have "(\<exists>text. emit_clint_logic model nm = Inr text) \<longleftrightarrow> (\<exists>n. clint_names_of model = Inr n)"
    by (simp add: emit_clint_logic_def)
  also have "\<dots> \<longleftrightarrow> (cm_msip model \<noteq> None \<and> cm_mtimecmp_lo model \<noteq> None \<and> cm_mtimecmp_hi model \<noteq> None
      \<and> cm_mtime_lo model \<noteq> None \<and> cm_mtime_hi model \<noteq> None)
      \<and> rn_fields (the (cm_msip model)) \<noteq> [] \<and> rn_fields (the (cm_mtimecmp_lo model)) \<noteq> []
      \<and> rn_fields (the (cm_mtimecmp_hi model)) \<noteq> [] \<and> rn_fields (the (cm_mtime_lo model)) \<noteq> []
      \<and> rn_fields (the (cm_mtime_hi model)) \<noteq> []"
    unfolding clint_names_of_def clint_check_def Let_def by (auto simp: ff [symmetric])
  finally show "(\<exists>text. emit_clint_logic model nm = Inr text) \<longleftrightarrow>
      (\<forall>r \<in> {cm_msip model, cm_mtimecmp_lo model, cm_mtimecmp_hi model, cm_mtime_lo model, cm_mtime_hi model}.
         \<exists>reg. r = Some reg \<and> rn_fields reg \<noteq> [])"
    by (auto simp: not_None_eq)
qed

theorem clint_emitter_witness: "\<exists>text. emit_clint_logic demo_clint ''ClintBasicLogic'' = Inr text"
  using clint_emitter [of demo_clint "''ClintBasicLogic''"] demo_clint_module by simp

definition direct_regs :: "rdl_node list \<Rightarrow> rdl_reg list" where
  "direct_regs ns = concat (map (\<lambda>c. case c of RegNode r \<Rightarrow> [r] | _ \<Rightarrow> []) ns)"

definition last_with :: "string \<Rightarrow> rdl_reg list \<Rightarrow> rdl_reg option" where
  "last_with role rs = find (\<lambda>r. rn_clint_role r = Some role) (rev rs)"

lemma clint_bucket_fields:
  "cm_msip (clint_bucket m (RegNode r)) = (if rn_clint_role r = Some ''msip'' then Some r else cm_msip m)"
  "cm_mtimecmp_lo (clint_bucket m (RegNode r)) = (if rn_clint_role r = Some ''mtimecmp_lo'' then Some r else cm_mtimecmp_lo m)"
  "cm_mtimecmp_hi (clint_bucket m (RegNode r)) = (if rn_clint_role r = Some ''mtimecmp_hi'' then Some r else cm_mtimecmp_hi m)"
  "cm_mtime_lo (clint_bucket m (RegNode r)) = (if rn_clint_role r = Some ''mtime_lo'' then Some r else cm_mtime_lo m)"
  "cm_mtime_hi (clint_bucket m (RegNode r)) = (if rn_clint_role r = Some ''mtime_hi'' then Some r else cm_mtime_hi m)"
  by (cases "rn_clint_role r"; simp)+

text \<open>
  The CLINT scanner assigns to every role the last direct register child that carries it,
  and nothing when there is none; nested registers and registers without a role are ignored.
\<close>

theorem clint_scan:
  "cm_msip (scan_clint tp mn pn) = last_with ''msip'' (direct_regs (tn_children tp))
   \<and> cm_mtimecmp_lo (scan_clint tp mn pn) = last_with ''mtimecmp_lo'' (direct_regs (tn_children tp))
   \<and> cm_mtimecmp_hi (scan_clint tp mn pn) = last_with ''mtimecmp_hi'' (direct_regs (tn_children tp))
   \<and> cm_mtime_lo (scan_clint tp mn pn) = last_with ''mtime_lo'' (direct_regs (tn_children tp))
   \<and> cm_mtime_hi (scan_clint tp mn pn) = last_with ''mtime_hi'' (direct_regs (tn_children tp))"
proof -
  have "cm_msip (foldl clint_bucket m ns) = last_with ''msip'' (direct_regs ns)
     \<and> cm_mtimecmp_lo (foldl clint_bucket m ns) = last_with ''mtimecmp_lo'' (direct_regs ns)
     \<and> cm_mtimecmp_hi (foldl clint_bucket m ns) = last_with ''mtimecmp_hi'' (direct_regs ns)
     \<and> cm_mtime_lo (foldl clint_bucket m ns) = last_with ''mtime_lo'' (direct_regs ns)
     \<and> cm_mtime_hi (foldl clint_bucket m ns) = last_with ''mtime_hi'' (direct_regs ns)"
    if "cm_msip m = None" "cm_mtimecmp_lo m = None" "cm_mtimecmp_hi m = None" "cm_mtime_lo m = None"
      "cm_mtime_hi m = None" for m ns
  proof (induction ns rule: rev_induct)
    case Nil
    then show ?case using that by (simp add: last_with_def direct_regs_def)
  next
    case (snoc c ns)
    then show ?case
      by (cases c) (simp_all add: clint_bucket_fields last_with_def direct_regs_def del: clint_bucket.simps(1))
  qed
  then show ?thesis by (simp add: scan_clint_def)
qed

end
