(* ===== verification/Plic.thy ===== *)
theory Plic
  imports Clint
begin

text \<open>
  The interrupt controller (\<^verbatim>\<open>emit_plic_logic.py\<close>), syntax: the scan of its registers, the checks, the
  emitted text, the module the text denotes, and the proof that the text is the rendering of the
  module. Strings are UTF-8: the rules in the context comments are three bytes each. The tree the
  scanner walks is \<^verbatim>\<open>top.children(unroll=True)\<close>, a result of the third-party \<^verbatim>\<open>systemrdl\<close>: it is the
  argument \<open>unrolled\<close>.
\<close>

section \<open>Scanning\<close>

record plic_model =
  pm_top :: rdl_top
  pm_module_name :: string
  pm_package_name :: string
  pm_hwif_in_struct :: string
  pm_hwif_out_struct :: string
  pm_pending :: "rdl_reg option"
  pm_enables :: "rdl_reg list"
  pm_thresholds :: "rdl_reg list"
  pm_claims :: "rdl_reg list"
  pm_priorities :: "rdl_reg list"
  pm_n_sources :: int

definition n_contexts :: "plic_model \<Rightarrow> nat" where
  "n_contexts model = length (pm_thresholds model)"

fun plic_bucket :: "plic_model \<Rightarrow> rdl_node \<Rightarrow> plic_model" where
  "plic_bucket model (RegNode child) =
     (case rn_plic_role child of
        None \<Rightarrow> model
      | Some role \<Rightarrow>
          if role = ''priority'' then model\<lparr>pm_priorities := pm_priorities model @ [child]\<rparr>
          else if role = ''pending'' then model\<lparr>pm_pending := Some child\<rparr>
          else if role = ''enable'' then model\<lparr>pm_enables := pm_enables model @ [child]\<rparr>
          else if role = ''threshold'' then model\<lparr>pm_thresholds := pm_thresholds model @ [child]\<rparr>
          else if role = ''claim'' then model\<lparr>pm_claims := pm_claims model @ [child]\<rparr>
          else model)"
| "plic_bucket model _ = model"

text \<open>\<open>_idx\<close>: \<^verbatim>\<open>current_idx[-1]\<close> raises on an empty tuple.\<close>

definition source_idx :: "rdl_reg \<Rightarrow> nat res" where
  "source_idx r = (case rn_current_idx r of
      None \<Rightarrow> Inr 0
    | Some is \<Rightarrow> if is = [] then Inl IndexError else Inr (last is))"

definition source_key :: "rdl_reg \<Rightarrow> nat" where
  "source_key r = (case source_idx r of Inl e \<Rightarrow> 0 | Inr i \<Rightarrow> i)"

definition scan_plic ::
  "(rdl_top \<Rightarrow> rdl_node list) \<Rightarrow> rdl_top \<Rightarrow> string \<Rightarrow> string \<Rightarrow> plic_model res" where
  "scan_plic unrolled tp module_name package_name =
     (let model = foldl plic_bucket
        \<lparr>pm_top = tp, pm_module_name = module_name, pm_package_name = package_name,
         pm_hwif_in_struct = module_name @ ''HwifIn'', pm_hwif_out_struct = module_name @ ''HwifOut'',
         pm_pending = None, pm_enables = [], pm_thresholds = [], pm_claims = [], pm_priorities = [],
         pm_n_sources = 0\<rparr>
        (unrolled tp) in
      res_bind (res_map source_idx (pm_priorities model)) (\<lambda>_. Inr
        (model\<lparr>pm_priorities := sort_key source_key (pm_priorities model),
               pm_enables := sort_key rn_absolute_address (pm_enables model),
               pm_thresholds := sort_key rn_absolute_address (pm_thresholds model),
               pm_claims := sort_key rn_absolute_address (pm_claims model),
               pm_n_sources := int (length (pm_priorities model)) - 1\<rparr>)))"

section \<open>Checks\<close>

definition claim_check :: "nat \<times> rdl_reg \<Rightarrow> unit res" where
  "claim_check = (\<lambda>(ctx, claim).
     res_bind (raise_if (\<not> flag (rn_emit_read_pulse claim))
       (ValueError (''PLIC claim reg `'' @ rn_inst_name claim @ ''` (context '' @ nat_dec ctx
         @ '') must set `emit_read_pulse = true;` '' @ em_dash @ '' the logic module uses ''
         @ ''the read pulse to latch the claim (in-service) bit.''))) (\<lambda>_.
     raise_if (\<not> flag (rn_emit_write_pulse claim))
       (ValueError (''PLIC claim reg `'' @ rn_inst_name claim @ ''` (context '' @ nat_dec ctx
         @ '') must set `emit_write_pulse = true;` '' @ em_dash @ '' the logic module uses ''
         @ ''the write pulse to clear the in-service bit on complete.''))))"

definition plic_check :: "plic_model \<Rightarrow> unit res" where
  "plic_check model =
     res_bind (raise_if (pm_pending model = None) (ValueError ''PLIC fixture missing a `pending` reg.'')) (\<lambda>_.
     res_bind (res_for (\<lambda>(name, regs). raise_if (regs = [])
         (ValueError (''PLIC fixture missing `'' @ butlast name @ ''` reg(s). Each context ''
           @ ''needs its own enable / threshold / claim.'')))
       [(''enables'', pm_enables model), (''thresholds'', pm_thresholds model), (''claims'', pm_claims model)]) (\<lambda>_.
     res_bind (raise_if (length (pm_enables model) \<noteq> n_contexts model \<or> length (pm_claims model) \<noteq> n_contexts model)
       (ValueError (''PLIC context regs must match in count: got enables='' @ nat_dec (length (pm_enables model))
         @ '', thresholds='' @ nat_dec (length (pm_thresholds model))
         @ '', claims='' @ nat_dec (length (pm_claims model))))) (\<lambda>_.
     res_bind (raise_if (pm_n_sources model < 1)
       (ValueError (''PLIC fixture must declare at least one priority reg ''
         @ ''beyond the reserved source 0 (saw '' @ nat_dec (length (pm_priorities model)) @ '' total).''))) (\<lambda>_.
     res_for claim_check (enumerate 0 (pm_claims model))))))"

section \<open>Names\<close>

definition reg_field_name :: "rdl_reg \<Rightarrow> string \<Rightarrow> string" where
  "reg_field_name reg field_inst_name =
     join ''_'' ([rn_inst_name reg]
       @ (case rn_current_idx reg of None \<Rightarrow> [] | Some is \<Rightarrow> map nat_dec is)
       @ [field_inst_name])"

text \<open>One field name per role, taken from the first register of the role.\<close>

record plic_fields =
  qf_pending :: string
  qf_enable :: string
  qf_threshold :: string
  qf_claim :: string
  qf_priority :: string

text \<open>\<^verbatim>\<open>regs[0]\<close> raises on an empty list.\<close>

definition first_reg_field :: "rdl_reg list \<Rightarrow> string res" where
  "first_reg_field regs = (case regs of [] \<Rightarrow> Inl IndexError | r # _ \<Rightarrow> first_field r)"

definition plic_fields_of :: "plic_model \<Rightarrow> plic_fields res" where
  "plic_fields_of model =
     res_bind (plic_check model) (\<lambda>_.
     res_bind (first_field (the (pm_pending model))) (\<lambda>pending_fld.
     res_bind (first_reg_field (pm_enables model)) (\<lambda>enable_fld.
     res_bind (first_reg_field (pm_thresholds model)) (\<lambda>threshold_fld.
     res_bind (first_reg_field (pm_claims model)) (\<lambda>claim_fld.
     res_bind (first_reg_field (pm_priorities model)) (\<lambda>priority_fld.
     Inr \<lparr>qf_pending = pending_fld, qf_enable = enable_fld, qf_threshold = threshold_fld,
          qf_claim = claim_fld, qf_priority = priority_fld\<rparr>))))))"

definition pending_hwif :: "plic_model \<Rightarrow> plic_fields \<Rightarrow> string" where
  "pending_hwif model q = reg_field_name (the (pm_pending model)) (qf_pending q)"

definition enable_hwif :: "plic_model \<Rightarrow> plic_fields \<Rightarrow> nat \<Rightarrow> string" where
  "enable_hwif model q ctx = reg_field_name (pm_enables model ! ctx) (qf_enable q)"

definition threshold_hwif :: "plic_model \<Rightarrow> plic_fields \<Rightarrow> nat \<Rightarrow> string" where
  "threshold_hwif model q ctx = reg_field_name (pm_thresholds model ! ctx) (qf_threshold q)"

definition claim_hwif :: "plic_model \<Rightarrow> plic_fields \<Rightarrow> nat \<Rightarrow> string" where
  "claim_hwif model q ctx = reg_field_name (pm_claims model ! ctx) (qf_claim q)"

definition prio_hwif :: "plic_model \<Rightarrow> plic_fields \<Rightarrow> nat \<Rightarrow> string" where
  "prio_hwif model q i = reg_field_name (pm_priorities model ! i) (qf_priority q)"

definition claim_read_pulse :: "plic_model \<Rightarrow> nat \<Rightarrow> string" where
  "claim_read_pulse model ctx = rn_inst_name (pm_claims model ! ctx) @ ''_read_pulse''"

definition claim_write_pulse :: "plic_model \<Rightarrow> nat \<Rightarrow> string" where
  "claim_write_pulse model ctx = rn_inst_name (pm_claims model ! ctx) @ ''_write_pulse''"

section \<open>Widths and literals\<close>

fun bit_length :: "nat \<Rightarrow> nat" where
  "bit_length n = (if n = 0 then 0 else Suc (bit_length (n div 2)))"

declare bit_length.simps [simp del]

definition id_w :: "nat \<Rightarrow> nat" where
  "id_w n = max 1 (bit_length n)"

definition prio_w :: nat where
  "prio_w = 3"

definition hex_digits :: "nat \<Rightarrow> nat" where
  "hex_digits n = (n + 1 + 3) div 4"

definition claim_mask_lit :: "nat \<Rightarrow> nat \<Rightarrow> string" where
  "claim_mask_lit n i = nat_dec (n + 1) @ sq @ ''h'' @ nat_hex_pad (hex_digits n) (push_bit i 1)"

definition zero_mask :: "nat \<Rightarrow> string" where
  "zero_mask n = nat_dec (n + 1) @ sq @ ''h'' @ nat_hex_pad (hex_digits n) 0"

section \<open>The emitter\<close>

text \<open>The comment rule U+2500, twice, in UTF-8.\<close>

definition rule_mark :: string where
  "rule_mark = [CHR 0xE2, CHR 0x94, CHR 0x80, CHR 0xE2, CHR 0x94, CHR 0x80]"

text \<open>The prefix \<open>c<ctx>\<close> of the names of a context.\<close>

definition ctx_prefix :: "nat \<Rightarrow> string" where
  "ctx_prefix ctx = ''c'' @ nat_dec ctx"

definition plic_head_lines :: "plic_model \<Rightarrow> nat \<Rightarrow> nat \<Rightarrow> string list" where
  "plic_head_lines model n n_ctx =
     [''  port clk: in Clock<SysDomain>;'', ''  port rst: in Reset<Async, Low>;'',
      ''  port source_in: in UInt<'' @ nat_dec (n + 1) @ ''>;'',
      ''  port hwif_out:  in  '' @ pm_hwif_out_struct model @ '';'',
      ''  port hwif_in:   out '' @ pm_hwif_in_struct model @ '';'',
      ''  port intr_out:  out UInt<'' @ nat_dec n_ctx @ ''>;'']
     @ concat (map (\<lambda>ctx.
         [''  port '' @ claim_read_pulse model ctx @ '':  in Bool;'',
          ''  port '' @ claim_write_pulse model ctx @ '': in Bool;'']) [0..<n_ctx])
     @ [[], ''  default seq on clk rising;'', []]
     @ concat (map (\<lambda>ctx.
         [''  reg '' @ ctx_prefix ctx @ ''_claimed_r: UInt<'' @ nat_dec (n + 1) @ ''> reset rst => ''
            @ zero_mask n @ '';'',
          ''  reg '' @ ctx_prefix ctx @ ''_wr_pulse_d: Bool reset rst => false;'']) [0..<n_ctx])
     @ [[]]"

definition cand_line :: "plic_model \<Rightarrow> plic_fields \<Rightarrow> nat \<Rightarrow> nat \<Rightarrow> string" where
  "cand_line model q ctx i =
     ''  let '' @ ctx_prefix ctx @ ''_cand_'' @ nat_dec i @ '': Bool = source_in['' @ nat_dec i @ ''] and ''
     @ ''hwif_out.'' @ enable_hwif model q ctx @ ''['' @ nat_dec i @ ''] and ''
     @ ''(hwif_out.'' @ prio_hwif model q i @ '' > hwif_out.'' @ threshold_hwif model q ctx @ '') ''
     @ ''and ('' @ ctx_prefix ctx @ ''_claimed_r['' @ nat_dec i @ ''] == 1'' @ sq @ ''b0);''"

definition first_lines :: "plic_model \<Rightarrow> plic_fields \<Rightarrow> nat \<Rightarrow> nat \<Rightarrow> string list" where
  "first_lines model q n ctx =
     (let c = ctx_prefix ctx; iw = nat_dec (id_w n); pw = nat_dec prio_w in
      [''  let '' @ c @ ''_w1_id:   UInt<'' @ iw @ ''> = '' @ c @ ''_cand_1 ? '' @ iw @ sq @ ''h1 : ''
         @ iw @ sq @ ''h0;'',
       ''  let '' @ c @ ''_w1_prio: UInt<'' @ pw @ ''> = '' @ c @ ''_cand_1 ? ''
         @ ''hwif_out.'' @ prio_hwif model q 1 @ '' : '' @ pw @ sq @ ''h0;''])"

definition cascade_lines :: "plic_model \<Rightarrow> plic_fields \<Rightarrow> nat \<Rightarrow> nat \<Rightarrow> nat \<Rightarrow> string list" where
  "cascade_lines model q n ctx i =
     (let c = ctx_prefix ctx; iw = nat_dec (id_w n); pw = nat_dec prio_w; w = c @ ''_w'' @ nat_dec i;
          w' = c @ ''_w'' @ nat_dec (i - 1); p = ''hwif_out.'' @ prio_hwif model q i in
      [''  let '' @ w @ ''_take: Bool = '' @ c @ ''_cand_'' @ nat_dec i @ '' and ''
         @ ''('' @ w' @ ''_id == '' @ iw @ sq @ ''h0 or '' @ p @ '' > '' @ w' @ ''_prio);'',
       ''  let '' @ w @ ''_id:   UInt<'' @ iw @ ''> = '' @ w @ ''_take ? ''
         @ iw @ sq @ ''h'' @ nat_hex i @ '' : '' @ w' @ ''_id;'',
       ''  let '' @ w @ ''_prio: UInt<'' @ pw @ ''> = '' @ w @ ''_take ? ''
         @ p @ '' : '' @ w' @ ''_prio;''])"

definition bit_lines :: "plic_model \<Rightarrow> plic_fields \<Rightarrow> nat \<Rightarrow> nat \<Rightarrow> string \<Rightarrow> string list" where
  "bit_lines model q n ctx nm =
     [''  let '' @ ctx_prefix ctx @ nm @ '': UInt<'' @ nat_dec (n + 1) @ ''> = match hwif_out.'' @ claim_hwif model q ctx]
     @ map (\<lambda>i. ''    '' @ nat_dec (id_w n) @ sq @ ''h'' @ nat_hex i @ '' => '' @ claim_mask_lit n i @ '','') [1..<Suc n]
     @ [''    _    => '' @ zero_mask n, ''  end match;'']"

definition context_lines :: "plic_model \<Rightarrow> plic_fields \<Rightarrow> nat \<Rightarrow> nat \<Rightarrow> string list" where
  "context_lines model q n ctx =
     (let c = ctx_prefix ctx; bits = nat_dec (n + 1) in
      [''  // '' @ rule_mark @ '' context '' @ nat_dec ctx @ '' '' @ rule_mark]
      @ map (cand_line model q ctx) [1..<Suc n]
      @ first_lines model q n ctx
      @ concat (map (cascade_lines model q n ctx) [2..<Suc n])
      @ bit_lines model q n ctx ''_set_bit''
      @ [''  let '' @ c @ ''_set_mask: UInt<'' @ bits @ ''> = '' @ claim_read_pulse model ctx @ '' ? '' @ c
           @ ''_set_bit : '' @ zero_mask n @ '';'']
      @ bit_lines model q n ctx ''_clr_bit''
      @ [''  let '' @ c @ ''_clr_mask: UInt<'' @ bits @ ''> = '' @ c @ ''_wr_pulse_d ? '' @ c
           @ ''_clr_bit : '' @ zero_mask n @ '';'', []])"

definition plic_seq_lines :: "plic_model \<Rightarrow> nat \<Rightarrow> string list" where
  "plic_seq_lines model n_ctx =
     [''  seq'']
     @ concat (map (\<lambda>ctx. let c = ctx_prefix ctx in
         [''    '' @ c @ ''_wr_pulse_d <= '' @ claim_write_pulse model ctx @ '';'',
          ''    '' @ c @ ''_claimed_r <= '' @ ''('' @ c @ ''_claimed_r | '' @ c @ ''_set_mask) & (~''
            @ c @ ''_clr_mask);'']) [0..<n_ctx])
     @ [''  end seq'', []]"

definition fired_text :: "nat \<Rightarrow> nat \<Rightarrow> string" where
  "fired_text n ctx = ctx_prefix ctx @ ''_w'' @ nat_dec n @ ''_id != '' @ nat_dec (id_w n) @ sq @ ''h0''"

definition plic_comb_lines :: "plic_model \<Rightarrow> plic_fields \<Rightarrow> nat \<Rightarrow> nat \<Rightarrow> string list" where
  "plic_comb_lines model q n n_ctx =
     [''  comb'', ''    hwif_in.'' @ pending_hwif model q @ '' = source_in;'']
     @ map (\<lambda>ctx. ''    hwif_in.'' @ claim_hwif model q ctx @ '' = '' @ ctx_prefix ctx @ ''_w'' @ nat_dec n @ ''_id;'')
         [0..<n_ctx]
     @ [if n_ctx = 1 then ''    intr_out = '' @ fired_text n 0 @ '';''
        else ''    intr_out = {''
          @ join '', '' (map (\<lambda>ctx. ''('' @ fired_text n ctx @ '')'') (rev [0..<n_ctx])) @ ''};'']
     @ [''  end comb'']"

definition emit_plic_logic :: "plic_model \<Rightarrow> string \<Rightarrow> string res" where
  "emit_plic_logic model logic_module_name =
     res_bind (plic_fields_of model) (\<lambda>q.
     let n = nat (pm_n_sources model); n_ctx = n_contexts model in
     Inr (join newline
       ([''use '' @ pm_package_name model @ '';'', [], ''module '' @ logic_module_name]
        @ plic_head_lines model n n_ctx
        @ concat (map (context_lines model q n) [0..<n_ctx])
        @ plic_seq_lines model n_ctx
        @ plic_comb_lines model q n n_ctx
        @ [''end module '' @ logic_module_name, []])))"

section \<open>The module it denotes\<close>

definition cand_name :: "nat \<Rightarrow> nat \<Rightarrow> string" where
  "cand_name ctx i = ctx_prefix ctx @ ''_cand_'' @ nat_dec i"

definition w_name :: "nat \<Rightarrow> nat \<Rightarrow> string \<Rightarrow> string" where
  "w_name ctx i part = ctx_prefix ctx @ ''_w'' @ nat_dec i @ part"

abbreviation ctx_sig :: "nat \<Rightarrow> string \<Rightarrow> string" where
  "ctx_sig ctx part \<equiv> ctx_prefix ctx @ part"

definition zero_id :: "nat \<Rightarrow> aexpr" where
  "zero_id n = HexLit (id_w n) ''0''"

definition mask_expr :: "nat \<Rightarrow> nat \<Rightarrow> aexpr" where
  "mask_expr n v = HexLit (n + 1) (nat_hex_pad (hex_digits n) v)"

definition cand_expr :: "plic_model \<Rightarrow> plic_fields \<Rightarrow> nat \<Rightarrow> nat \<Rightarrow> aexpr" where
  "cand_expr model q ctx i =
     LAnd (LAnd (LAnd (BitE (sig ''source_in'') i) (BitE (hwif (enable_hwif model q ctx)) i))
       (Paren (GtE (hwif (prio_hwif model q i)) (hwif (threshold_hwif model q ctx)))))
       (Paren (EqE (BitE (sig (ctx_sig ctx ''_claimed_r'')) i) (BinLit 1 ''0'')))"

definition cand_let :: "plic_model \<Rightarrow> plic_fields \<Rightarrow> nat \<Rightarrow> nat \<Rightarrow> aitem" where
  "cand_let model q ctx i = LetI (cand_name ctx i) 1 TBool (cand_expr model q ctx i)"

definition first_lets :: "plic_model \<Rightarrow> plic_fields \<Rightarrow> nat \<Rightarrow> nat \<Rightarrow> aitem list" where
  "first_lets model q n ctx =
     [LetI (w_name ctx 1 ''_id'') 3 (TUInt (id_w n))
        (CondE (sig (cand_name ctx 1)) (HexLit (id_w n) ''1'') (zero_id n)),
      LetI (w_name ctx 1 ''_prio'') 1 (TUInt prio_w)
        (CondE (sig (cand_name ctx 1)) (hwif (prio_hwif model q 1)) (HexLit prio_w ''0''))]"

definition cascade_lets :: "plic_model \<Rightarrow> plic_fields \<Rightarrow> nat \<Rightarrow> nat \<Rightarrow> nat \<Rightarrow> aitem list" where
  "cascade_lets model q n ctx i =
     [LetI (w_name ctx i ''_take'') 1 TBool
        (LAnd (sig (cand_name ctx i))
          (Paren (LOr (EqE (sig (w_name ctx (i - 1) ''_id'')) (zero_id n))
                      (GtE (hwif (prio_hwif model q i)) (sig (w_name ctx (i - 1) ''_prio'')))))),
      LetI (w_name ctx i ''_id'') 3 (TUInt (id_w n))
        (CondE (sig (w_name ctx i ''_take'')) (HexLit (id_w n) (nat_hex i)) (sig (w_name ctx (i - 1) ''_id''))),
      LetI (w_name ctx i ''_prio'') 1 (TUInt prio_w)
        (CondE (sig (w_name ctx i ''_take'')) (hwif (prio_hwif model q i)) (sig (w_name ctx (i - 1) ''_prio'')))]"

definition bit_expr :: "plic_model \<Rightarrow> plic_fields \<Rightarrow> nat \<Rightarrow> nat \<Rightarrow> aexpr" where
  "bit_expr model q n ctx = MatchE 4 (hwif (claim_hwif model q ctx))
     (map (\<lambda>i. (HexLit (id_w n) (nat_hex i), mask_expr n (push_bit i 1))) [1..<Suc n]) (mask_expr n 0)"

definition mask_lets :: "plic_model \<Rightarrow> plic_fields \<Rightarrow> nat \<Rightarrow> nat \<Rightarrow> aitem list" where
  "mask_lets model q n ctx =
     [LetI (ctx_sig ctx ''_set_bit'') 1 (TUInt (n + 1)) (bit_expr model q n ctx),
      LetI (ctx_sig ctx ''_set_mask'') 1 (TUInt (n + 1))
        (CondE (sig (claim_read_pulse model ctx)) (sig (ctx_sig ctx ''_set_bit'')) (mask_expr n 0)),
      LetI (ctx_sig ctx ''_clr_bit'') 1 (TUInt (n + 1)) (bit_expr model q n ctx),
      LetI (ctx_sig ctx ''_clr_mask'') 1 (TUInt (n + 1))
        (CondE (sig (ctx_sig ctx ''_wr_pulse_d'')) (sig (ctx_sig ctx ''_clr_bit'')) (mask_expr n 0))]"

definition context_lets :: "plic_model \<Rightarrow> plic_fields \<Rightarrow> nat \<Rightarrow> nat \<Rightarrow> aitem list" where
  "context_lets model q n ctx =
     map (cand_let model q ctx) [1..<Suc n] @ first_lets model q n ctx
     @ concat (map (cascade_lets model q n ctx) [2..<Suc n]) @ mask_lets model q n ctx"

definition context_items :: "plic_model \<Rightarrow> plic_fields \<Rightarrow> nat \<Rightarrow> nat \<Rightarrow> aitem list" where
  "context_items model q n ctx =
     CommentI (rule_mark @ '' context '' @ nat_dec ctx @ '' '' @ rule_mark)
     # context_lets model q n ctx @ [Blank]"

definition context_stmts :: "plic_model \<Rightarrow> nat \<Rightarrow> astmt list" where
  "context_stmts model ctx =
     [Assign (Sig (ctx_sig ctx ''_wr_pulse_d'')) (sig (claim_write_pulse model ctx)),
      Assign (Sig (ctx_sig ctx ''_claimed_r''))
        (BAnd (Paren (BOr (sig (ctx_sig ctx ''_claimed_r'')) (sig (ctx_sig ctx ''_set_mask''))))
              (Paren (BNot (sig (ctx_sig ctx ''_clr_mask'')))))]"

definition fired_expr :: "nat \<Rightarrow> nat \<Rightarrow> aexpr" where
  "fired_expr n ctx = NeqE (sig (w_name ctx n ''_id'')) (zero_id n)"

definition plic_drives :: "plic_model \<Rightarrow> plic_fields \<Rightarrow> nat \<Rightarrow> nat \<Rightarrow> (aref \<times> nat \<times> aexpr) list" where
  "plic_drives model q n n_ctx =
     (Mem ''hwif_in'' (pending_hwif model q), 1, sig ''source_in'')
     # map (\<lambda>ctx. (Mem ''hwif_in'' (claim_hwif model q ctx), 1, sig (w_name ctx n ''_id''))) [0..<n_ctx]
     @ [(Sig ''intr_out'', 1,
         if n_ctx = 1 then fired_expr n 0
         else Concat (map (\<lambda>ctx. Paren (fired_expr n ctx)) (rev [0..<n_ctx])))]"

definition plic_items :: "plic_model \<Rightarrow> plic_fields \<Rightarrow> nat \<Rightarrow> nat \<Rightarrow> aitem list" where
  "plic_items model q n n_ctx =
     [PortI ''clk'' '' in Clock<SysDomain>'', PortI ''rst'' '' in Reset<Async, Low>'',
      PortI ''source_in'' ('' in '' @ render_ty (TUInt (n + 1))),
      PortI ''hwif_out'' (''  in  '' @ pm_hwif_out_struct model),
      PortI ''hwif_in'' (''   out '' @ pm_hwif_in_struct model),
      PortI ''intr_out'' (''  out '' @ render_ty (TUInt n_ctx))]
     @ concat (map (\<lambda>ctx. [PortI (claim_read_pulse model ctx) ''  in Bool'',
                            PortI (claim_write_pulse model ctx) '' in Bool'']) [0..<n_ctx])
     @ [Blank, DefaultSeq, Blank]
     @ concat (map (\<lambda>ctx. [RegI (ctx_sig ctx ''_claimed_r'') (TUInt (n + 1)) (mask_expr n 0),
                            RegI (ctx_sig ctx ''_wr_pulse_d'') TBool FalseE]) [0..<n_ctx])
     @ [Blank]
     @ concat (map (context_items model q n) [0..<n_ctx])
     @ [SeqI (concat (map (context_stmts model) [0..<n_ctx])), Blank, CombI (plic_drives model q n n_ctx)]"

definition plic_module :: "plic_model \<Rightarrow> string \<Rightarrow> amodule res" where
  "plic_module model nm = res_bind (plic_fields_of model) (\<lambda>q. Inr
     \<lparr>am_use = Some (pm_package_name model), am_name = nm,
      am_items = plic_items model q (nat (pm_n_sources model)) (n_contexts model)\<rparr>)"

section \<open>The text is the rendering of the module\<close>

lemma bit_text: "render_item (LetI (ctx_prefix ctx @ nm) 1 (TUInt (n + 1)) (bit_expr model q n ctx)) = bit_lines model q n ctx nm"
  by (simp add: bit_lines_def bit_expr_def mask_expr_def claim_mask_lit_def zero_mask_def o_def
      concat_map_singleton)

lemma context_text:
  "concat (map render_item (context_items model q n ctx)) = context_lines model q n ctx"
proof -
  have cands: "concat (map render_item (map (cand_let model q ctx) is)) = map (cand_line model q ctx) is" for "is"
    by (induction "is") (simp_all add: cand_let_def cand_line_def cand_expr_def cand_name_def)
  have casc: "concat (map render_item (cascade_lets model q n ctx i)) = cascade_lines model q n ctx i" for i
    by (simp add: cascade_lets_def cascade_lines_def w_name_def cand_name_def zero_id_def Let_def)
  have first: "concat (map render_item (first_lets model q n ctx)) = first_lines model q n ctx"
    by (simp add: first_lets_def first_lines_def w_name_def cand_name_def zero_id_def Let_def)
  have masks: "concat (map render_item (mask_lets model q n ctx))
      = bit_lines model q n ctx ''_set_bit''
      @ [''  let '' @ ctx_prefix ctx @ ''_set_mask: UInt<'' @ nat_dec (n + 1) @ ''> = '' @ claim_read_pulse model ctx
           @ '' ? '' @ ctx_prefix ctx @ ''_set_bit : '' @ zero_mask n @ '';'']
      @ bit_lines model q n ctx ''_clr_bit''
      @ [''  let '' @ ctx_prefix ctx @ ''_clr_mask: UInt<'' @ nat_dec (n + 1) @ ''> = '' @ ctx_prefix ctx
           @ ''_wr_pulse_d ? '' @ ctx_prefix ctx @ ''_clr_bit : '' @ zero_mask n @ '';'']"
    unfolding mask_lets_def list.map concat.simps bit_text
    by (simp add: mask_expr_def zero_mask_def)
  show ?thesis
    unfolding context_items_def context_lets_def context_lines_def
    by (simp add: cands [unfolded map_map o_def] first masks concat_map_concat o_def casc Let_def del: upt_Suc)
qed

lemma fired_render: "render_expr (fired_expr n ctx) = [fired_text n ctx]"
  by (simp add: fired_expr_def fired_text_def w_name_def zero_id_def)

lemma comb_text:
  assumes "n_ctx \<noteq> 0"
  shows "[''  comb''] @ concat (map render_drive (plic_drives model q n n_ctx)) @ [''  end comb'']
    = plic_comb_lines model q n n_ctx"
proof -
  have claims: "concat (map render_drive (map (\<lambda>ctx. (Mem ''hwif_in'' (claim_hwif model q ctx), 1, sig (w_name ctx n ''_id''))) cs))
      = map (\<lambda>ctx. ''    hwif_in.'' @ claim_hwif model q ctx @ '' = '' @ ctx_prefix ctx @ ''_w'' @ nat_dec n @ ''_id;'') cs" for cs
    by (induction cs) (simp_all add: w_name_def)
  have "map render_expr (map (\<lambda>ctx. Paren (fired_expr n ctx)) cs)
      = map (\<lambda>s. [s]) (map (\<lambda>ctx. ''('' @ fired_text n ctx @ '')'') cs)" for cs
    by (induction cs) (simp_all add: fired_render)
  from concat_text [OF _ this, of "rev [0..<n_ctx]"] assms
  have fired: "render_expr (Concat (map (\<lambda>ctx. Paren (fired_expr n ctx)) (rev [0..<n_ctx])))
      = [''{'' @ join '', '' (map (\<lambda>ctx. ''('' @ fired_text n ctx @ '')'') (rev [0..<n_ctx])) @ ''}'']"
    by simp
  show ?thesis
    unfolding plic_drives_def plic_comb_lines_def list.map map_append concat.simps concat_append claims
    by (cases "n_ctx = 1") (simp_all add: fired fired_render del: render_expr.simps(22) render_expr.simps(23))
qed

lemma plic_render:
  assumes "n_contexts model \<noteq> 0"
  shows "emit_plic_logic model nm = res_bind (plic_module model nm) (\<lambda>m. Inr (render_module m))"
proof (cases "plic_fields_of model")
  case (Inr q)
  let ?n = "nat (pm_n_sources model)" and ?c = "n_contexts model"
  have ports: "concat (map render_item (concat (map (\<lambda>ctx. [PortI (claim_read_pulse model ctx) ''  in Bool'',
        PortI (claim_write_pulse model ctx) '' in Bool'']) cs)))
      = concat (map (\<lambda>ctx. [''  port '' @ claim_read_pulse model ctx @ '':  in Bool;'',
          ''  port '' @ claim_write_pulse model ctx @ '': in Bool;'']) cs)" for cs
    by (induction cs) simp_all
  have regs: "concat (map render_item (concat (map (\<lambda>ctx. [RegI (ctx_sig ctx ''_claimed_r'') (TUInt (?n + 1)) (mask_expr ?n 0),
        RegI (ctx_sig ctx ''_wr_pulse_d'') TBool FalseE]) cs)))
      = concat (map (\<lambda>ctx. [''  reg '' @ ctx_prefix ctx @ ''_claimed_r: UInt<'' @ nat_dec (?n + 1) @ ''> reset rst => ''
            @ zero_mask ?n @ '';'',
          ''  reg '' @ ctx_prefix ctx @ ''_wr_pulse_d: Bool reset rst => false;'']) cs)" for cs
    by (induction cs) (simp_all add: mask_expr_def zero_mask_def)
  have seq: "concat (map (render_stmt 4) (concat (map (context_stmts model) cs))) =
      concat (map (\<lambda>ctx. let c = ctx_prefix ctx in
         [''    '' @ c @ ''_wr_pulse_d <= '' @ claim_write_pulse model ctx @ '';'',
          ''    '' @ c @ ''_claimed_r <= '' @ ''('' @ c @ ''_claimed_r | '' @ c @ ''_set_mask) & (~''
            @ c @ ''_clr_mask);'']) cs)" for cs
    by (induction cs) (simp_all add: context_stmts_def Let_def)
  have ctxs: "concat (map render_item (concat (map (context_items model q ?n) cs)))
      = concat (map (context_lines model q ?n) cs)" for cs
    by (induction cs) (simp_all add: context_text)
  have "concat (map render_item (plic_items model q ?n ?c))
     = plic_head_lines model ?n ?c @ concat (map (context_lines model q ?n) [0..<?c])
       @ plic_seq_lines model ?c @ plic_comb_lines model q ?n ?c"
    unfolding comb_text [OF assms, symmetric] plic_items_def plic_head_lines_def plic_seq_lines_def
      map_append concat_append ports regs ctxs list.map concat.simps render_item.simps seq
    by (simp del: upt_Suc)
  then show ?thesis
    by (simp add: Inr emit_plic_logic_def plic_module_def render_module_def Let_def)
qed (simp add: emit_plic_logic_def plic_module_def)

end
