(* ===== verification/PlicSem.thy ===== *)
theory PlicSem
  imports Plic
begin

unbundle bit_operations_syntax

text \<open>
  What the interrupt controller computes. The names the module binds are distinct and used after
  their binding, so every \<^verbatim>\<open>let\<close> is an equation; the locale \<open>arbiter\<close> is the contract of the
  arbitration, \<open>best\<close> (the emitted cascade) its implementation; the rest evaluates the module:
  winners, interrupt lines, and the in-service bits after a clock edge.
\<close>

section \<open>Names inside the module\<close>

text \<open>The names a context binds, and the names it takes from outside.\<close>

definition ctx_name :: "nat \<Rightarrow> string \<Rightarrow> bool" where
  "ctx_name ctx x \<longleftrightarrow>
     (\<exists>i. x = cand_name ctx i)
     \<or> (\<exists>i p. p \<in> {''_id'', ''_prio'', ''_take''} \<and> x = w_name ctx i p)
     \<or> (\<exists>p. p \<in> {''_set_bit'', ''_set_mask'', ''_clr_bit'', ''_clr_mask''} \<and> x = ctx_sig ctx p)"

definition outer_name :: "string \<Rightarrow> bool" where
  "outer_name x \<longleftrightarrow> x = ''source_in'' \<or> (\<exists>p. x = p @ ''_read_pulse'') \<or> (\<exists>p. x = p @ ''_write_pulse'')"

lemma outer_names [simp]:
  "outer_name ''source_in''" "outer_name (claim_read_pulse model ctx)" "outer_name (claim_write_pulse model ctx)"
  by (auto simp: outer_name_def claim_read_pulse_def claim_write_pulse_def)

lemma ctx_prefix_inj [simp]: "ctx_prefix c @ CHR ''_'' # x = ctx_prefix d @ CHR ''_'' # y \<longleftrightarrow> c = d \<and> x = y"
  by (simp add: ctx_prefix_def)

lemma ctx_prefix_eq [simp]: "ctx_prefix c = ctx_prefix d \<longleftrightarrow> c = d"
  by (simp add: ctx_prefix_def)

lemma ctx_prefix_not_source [simp]: "ctx_prefix c @ x \<noteq> ''source_in''" "''source_in'' \<noteq> ctx_prefix c @ x"
  by (simp_all add: ctx_prefix_def)

lemma names_inj [simp]:
  "cand_name c i = cand_name d j \<longleftrightarrow> c = d \<and> i = j"
  "w_name c i (CHR ''_'' # p) = w_name d j (CHR ''_'' # r) \<longleftrightarrow> c = d \<and> i = j \<and> p = r"
  "cand_name c i \<noteq> w_name d j p" "w_name d j p \<noteq> cand_name c i"
  by (auto simp: cand_name_def w_name_def)

lemma suffix_last: "p @ s = q @ t \<Longrightarrow> s \<noteq> [] \<Longrightarrow> t \<noteq> [] \<Longrightarrow> last s = last t \<and> (butlast s \<noteq> [] \<longrightarrow> butlast t \<noteq> [] \<longrightarrow> last (butlast s) = last (butlast t))"
  by (metis append_is_Nil_conv butlast_append last_appendR)

lemma ctx_name_suffix:
  "ctx_name ctx x \<Longrightarrow> \<exists>p s. x = p @ s \<and> s \<noteq> [] \<and> (last s \<noteq> CHR ''e'' \<and> last s \<noteq> CHR ''n'' \<or> s = ''_take'')"
  unfolding ctx_name_def
proof (elim disjE exE conjE)
  fix i assume "x = cand_name ctx i"
  then have "x = (ctx_prefix ctx @ ''_cand_'') @ nat_dec i" by (simp add: cand_name_def)
  moreover have "last (nat_dec i) \<noteq> CHR ''e''" "last (nat_dec i) \<noteq> CHR ''n''"
    using nat_dec_chars [of "last (nat_dec i)" i] by auto
  ultimately show ?thesis by (intro exI conjI) auto
next
  fix i p assume "p \<in> {''_id'', ''_prio'', ''_take''}" "x = w_name ctx i p"
  then show ?thesis
    by (intro exI [of _ "ctx_prefix ctx @ ''_w'' @ nat_dec i"] exI [of _ p]) (auto simp: w_name_def)
next
  fix p assume "p \<in> {''_set_bit'', ''_set_mask'', ''_clr_bit'', ''_clr_mask''}" "x = ctx_sig ctx p"
  then show ?thesis by (intro exI [of _ "ctx_prefix ctx"] exI [of _ p]) auto
qed

lemma outer_name_suffix:
  "outer_name x \<Longrightarrow> \<exists>p s. x = p @ s \<and> s \<in> {''source_in'', ''_read_pulse'', ''_write_pulse''}"
proof -
  assume "outer_name x"
  then consider "x = [] @ ''source_in''" | p where "x = p @ ''_read_pulse''" | p where "x = p @ ''_write_pulse''"
    unfolding outer_name_def by auto
  then show ?thesis by cases blast+
qed

lemma ctx_name_not_outer: "ctx_name ctx x \<Longrightarrow> \<not> outer_name x"
proof
  assume "ctx_name ctx x" "outer_name x"
  from ctx_name_suffix [OF this(1)] obtain p s where ps: "x = p @ s" "s \<noteq> []"
    and s: "last s \<noteq> CHR ''e'' \<and> last s \<noteq> CHR ''n'' \<or> s = ''_take''" by (elim exE conjE)
  from outer_name_suffix [OF \<open>outer_name x\<close>] obtain q t where qt: "x = q @ t"
    and t: "t \<in> {''source_in'', ''_read_pulse'', ''_write_pulse''}" by (elim exE conjE)
  have "t \<noteq> []" using t by auto
  from suffix_last [OF _ ps(2) this, of p q] ps(1) qt s t show False by auto
qed

lemma ctx_name_prefix: "ctx_name c x \<Longrightarrow> \<exists>r. x = ctx_prefix c @ CHR ''_'' # r"
  by (auto simp: ctx_name_def cand_name_def w_name_def)

lemma ctx_name_unique: "ctx_name c x \<Longrightarrow> ctx_name d x \<Longrightarrow> c = d"
  using ctx_name_prefix [of c x] ctx_name_prefix [of d x] by auto

lemma ctx_name_intros [simp]:
  "ctx_name c (cand_name c i)" "ctx_name c (w_name c i ''_id'')" "ctx_name c (w_name c i ''_prio'')"
  "ctx_name c (w_name c i ''_take'')" "ctx_name c (ctx_prefix c @ ''_set_bit'')"
  "ctx_name c (ctx_prefix c @ ''_set_mask'')" "ctx_name c (ctx_prefix c @ ''_clr_bit'')"
  "ctx_name c (ctx_prefix c @ ''_clr_mask'')"
  by (auto simp: ctx_name_def)

lemma name_clashes [simp]:
  "cand_name c i \<noteq> ''source_in''" "''source_in'' \<noteq> cand_name c i"
  "w_name c i p \<noteq> ''source_in''" "''source_in'' \<noteq> w_name c i p"
  "cand_name c i \<noteq> ctx_prefix d @ ''_claimed_r''" "ctx_prefix d @ ''_claimed_r'' \<noteq> cand_name c i"
  "cand_name c i \<noteq> ctx_prefix d @ CHR ''_'' # CHR ''s'' # r" "ctx_prefix d @ CHR ''_'' # CHR ''s'' # r \<noteq> cand_name c i"
  "ctx_prefix d @ CHR ''_'' # CHR ''c'' # CHR ''l'' # r \<noteq> cand_name c i"
  "cand_name c i \<noteq> ctx_prefix d @ CHR ''_'' # CHR ''c'' # CHR ''l'' # r"
  "w_name c i p \<noteq> ctx_prefix d @ CHR ''_'' # CHR ''s'' # r" "ctx_prefix d @ CHR ''_'' # CHR ''s'' # r \<noteq> w_name c i p"
  "w_name c i p \<noteq> ctx_prefix d @ CHR ''_'' # CHR ''c'' # r" "ctx_prefix d @ CHR ''_'' # CHR ''c'' # r \<noteq> w_name c i p"
  by (auto simp: cand_name_def w_name_def)

lemma state_not_ctx_name [simp]:
  "\<not> ctx_name d (ctx_prefix c @ ''_claimed_r'')" "\<not> ctx_name d (ctx_prefix c @ ''_wr_pulse_d'')"
  by (auto simp: ctx_name_def cand_name_def w_name_def)

lemma item_lets_map_let: "item_lets (map (cand_let model q ctx) is) = cand_name ctx ` set is"
  by (induction "is") (auto simp: cand_let_def)

lemma let_refs_map_let:
  "let_refs (map (cand_let model q ctx) is) \<subseteq> {''source_in'', ctx_prefix ctx @ ''_claimed_r''}"
  by (induction "is") (auto simp: cand_let_def cand_expr_def)

lemma cand_lets_ok: "sorted_wrt (<) is \<Longrightarrow> lets_ok (map (cand_let model q ctx) is)"
proof (induction "is")
  case (Cons i "is")
  have "lets_ok (cand_let model q ctx i # js) \<longleftrightarrow> cand_name ctx i \<notin> item_lets js
      \<and> {''source_in'', ctx_prefix ctx @ ''_claimed_r''} \<inter> insert (cand_name ctx i) (item_lets js) = {} \<and> lets_ok js" for js
    by (auto simp: cand_let_def cand_expr_def)
  then show ?case using Cons by (auto simp: item_lets_map_let)
qed simp

lemma bit_expr_refs [simp]: "expr_refs (bit_expr model q n ctx) = {Mem ''hwif_out'' (claim_hwif model q ctx)}"
  by (auto simp: bit_expr_def mask_expr_def)

lemma simple_refs [simp]: "expr_refs (zero_id n) = {}" "expr_refs (mask_expr n v) = {}"
  by (simp_all add: zero_id_def mask_expr_def)

lemma cascade_names:
  "item_lets (cascade_lets model q n ctx i) = {w_name ctx i ''_take'', w_name ctx i ''_id'', w_name ctx i ''_prio''}"
  "let_refs (cascade_lets model q n ctx i) =
     {cand_name ctx i, w_name ctx i ''_take'', w_name ctx (i - 1) ''_id'', w_name ctx (i - 1) ''_prio''}"
  by (auto simp: cascade_lets_def)

lemma cascade_lets_ok: "lets_ok (concat (map (cascade_lets model q n ctx) [2..<m]))"
proof (rule lets_ok_concat_map)
  show "lets_ok (cascade_lets model q n ctx i)" if "i \<in> set [2..<m]" for i
    using that by (auto simp: cascade_lets_def)
  show "sorted_wrt (\<lambda>i j. (item_lets (cascade_lets model q n ctx i) \<union> let_refs (cascade_lets model q n ctx i))
      \<inter> item_lets (cascade_lets model q n ctx j) = {}) [2..<m]"
    by (rule sorted_wrt_mono_rel [OF _ sorted_wrt_upt]) (auto simp: cascade_names)
qed

lemma first_names [let_names]:
  "item_lets (first_lets model q n ctx) = {w_name ctx 1 ''_id'', w_name ctx 1 ''_prio''}"
  "let_refs (first_lets model q n ctx) = {cand_name ctx 1}"
  "lets_ok (first_lets model q n ctx)"
  by (auto simp: first_lets_def)

lemma mask_names [let_names]:
  "item_lets (mask_lets model q n ctx) = {ctx_sig ctx ''_set_bit'', ctx_sig ctx ''_set_mask'',
     ctx_sig ctx ''_clr_bit'', ctx_sig ctx ''_clr_mask''}"
  "let_refs (mask_lets model q n ctx) = {claim_read_pulse model ctx, ctx_sig ctx ''_set_bit'',
     ctx_sig ctx ''_wr_pulse_d'', ctx_sig ctx ''_clr_bit''}"
  by (auto simp: mask_lets_def)

lemma pulse_not_ctx: "ctx_name c x \<Longrightarrow> claim_read_pulse model d \<noteq> x" "ctx_name c x \<Longrightarrow> x \<noteq> claim_read_pulse model d"
  using ctx_name_not_outer [of c x] outer_names(2) [of model d] by auto

lemma mask_lets_ok: "lets_ok (mask_lets model q n ctx)"
  using pulse_not_ctx [OF ctx_name_intros(5)] pulse_not_ctx [OF ctx_name_intros(6)]
    pulse_not_ctx [OF ctx_name_intros(7)] pulse_not_ctx [OF ctx_name_intros(8)]
  by (simp add: mask_lets_def)

lemma cascade_all_names [let_names]:
  "item_lets (concat (map (cascade_lets model q n ctx) is))
     = (\<Union>i \<in> set is. {w_name ctx i ''_take'', w_name ctx i ''_id'', w_name ctx i ''_prio''})"
  "let_refs (concat (map (cascade_lets model q n ctx) is))
     = (\<Union>i \<in> set is. {cand_name ctx i, w_name ctx i ''_take'', w_name ctx (i - 1) ''_id'', w_name ctx (i - 1) ''_prio''})"
  by (simp_all add: item_lets_concat_map let_refs_concat_map cascade_names)

lemma disjoint_mono: "A \<subseteq> B \<Longrightarrow> C \<subseteq> D \<Longrightarrow> B \<inter> D = {} \<Longrightarrow> A \<inter> C = {}"
  by blast

lemma lets_ok_append4:
  assumes "lets_ok a" "lets_ok b" "lets_ok c" "lets_ok d"
    and "(item_lets a \<union> let_refs a) \<inter> (item_lets b \<union> item_lets c \<union> item_lets d) = {}"
    and "(item_lets b \<union> let_refs b) \<inter> (item_lets c \<union> item_lets d) = {}"
    and "(item_lets c \<union> let_refs c) \<inter> item_lets d = {}"
  shows "lets_ok (a @ b @ c @ d)"
  using assms by auto

lemma context_lets_ok: "lets_ok (context_lets model q n ctx)"
proof -
  let ?cands = "map (cand_let model q ctx) [1..<Suc n]"
  let ?casc = "concat (map (cascade_lets model q n ctx) [2..<Suc n])"
  have c: "item_lets ?cands \<union> let_refs ?cands \<subseteq> range (cand_name ctx) \<union> {''source_in'', ctx_prefix ctx @ ''_claimed_r''}"
    unfolding item_lets_map_let using let_refs_map_let [of model q ctx "[1..<Suc n]"] by (intro Un_least) auto
  show ?thesis
    unfolding context_lets_def
  proof (rule lets_ok_append4)
    show "(item_lets ?cands \<union> let_refs ?cands) \<inter> (item_lets (first_lets model q n ctx) \<union> item_lets ?casc
      \<union> item_lets (mask_lets model q n ctx)) = {}"
      by (rule disjoint_mono [OF c subset_refl]) (unfold first_names cascade_all_names mask_names, auto)
    show "(item_lets (first_lets model q n ctx) \<union> let_refs (first_lets model q n ctx)) \<inter> (item_lets ?casc
      \<union> item_lets (mask_lets model q n ctx)) = {}"
      unfolding let_names by auto
    show "(item_lets ?casc \<union> let_refs ?casc) \<inter> item_lets (mask_lets model q n ctx) = {}"
      unfolding cascade_all_names mask_names by auto
  qed (rule cand_lets_ok [OF sorted_wrt_upt] first_names(3) cascade_lets_ok mask_lets_ok)+
qed

lemma context_lets_names: "x \<in> item_lets (context_lets model q n ctx) \<Longrightarrow> ctx_name ctx x"
  unfolding context_lets_def item_lets_append item_lets_map_let let_names
  by (elim UnE UN_E insertE imageE emptyE) simp_all

lemma context_lets_refs:
  assumes "x \<in> let_refs (context_lets model q n ctx)"
  shows "ctx_name ctx x \<or> outer_name x \<or> x = ctx_prefix ctx @ ''_claimed_r'' \<or> x = ctx_prefix ctx @ ''_wr_pulse_d''"
proof -
  from assms have "x \<in> let_refs (map (cand_let model q ctx) [1..<Suc n]) \<union> (let_refs (first_lets model q n ctx)
     \<union> (let_refs (concat (map (cascade_lets model q n ctx) [2..<Suc n])) \<union> let_refs (mask_lets model q n ctx)))"
    unfolding context_lets_def let_refs_append .
  then have "x \<in> {''source_in'', ctx_prefix ctx @ ''_claimed_r''} \<union> (let_refs (first_lets model q n ctx)
     \<union> (let_refs (concat (map (cascade_lets model q n ctx) [2..<Suc n])) \<union> let_refs (mask_lets model q n ctx)))"
    by (rule subsetD [OF Un_mono [OF let_refs_map_let subset_refl]])
  then show ?thesis
    unfolding let_names
    by (elim UnE UN_E insertE emptyE) simp_all
qed

lemma plic_items_lets [simp]:
  "item_lets (plic_items model q n n_ctx) = (\<Union>ctx < n_ctx. item_lets (context_lets model q n ctx))"
  "LetI x k t e \<in> set (plic_items model q n n_ctx) \<longleftrightarrow> (\<exists>ctx < n_ctx. LetI x k t e \<in> set (context_lets model q n ctx))"
proof -
  have ports: "item_lets (concat (map (\<lambda>ctx. [PortI (f ctx) s, PortI (g ctx) t]) cs)) = {}"
    "let_refs (concat (map (\<lambda>ctx. [PortI (f ctx) s, PortI (g ctx) t]) cs)) = {}"
    "item_lets (concat (map (\<lambda>ctx. [RegI (f ctx) u d, RegI (g ctx) v e]) cs)) = {}"
    for f g s t u v d e and cs :: "nat list"
    by (induction cs) simp_all
  show "item_lets (plic_items model q n n_ctx) = (\<Union>ctx < n_ctx. item_lets (context_lets model q n ctx))"
    by (auto simp: plic_items_def ports item_lets_concat_map context_items_def lessThan_atLeast0)
  show "LetI x k t e \<in> set (plic_items model q n n_ctx) \<longleftrightarrow> (\<exists>ctx < n_ctx. LetI x k t e \<in> set (context_lets model q n ctx))"
    by (auto simp: plic_items_def context_items_def)
qed

lemma plic_lets_ok: "lets_ok (plic_items model q n n_ctx)"
proof -
  have none: "lets_ok (concat (map (\<lambda>ctx. [PortI (f ctx) s, PortI (g ctx) t]) cs))"
    "let_refs (concat (map (\<lambda>ctx. [PortI (f ctx) s, PortI (g ctx) t]) cs)) = {}"
    "item_lets (concat (map (\<lambda>ctx. [PortI (f ctx) s, PortI (g ctx) t]) cs)) = {}"
    "lets_ok (concat (map (\<lambda>ctx. [RegI (f ctx) u d, RegI (g ctx) v e]) cs))"
    "let_refs (concat (map (\<lambda>ctx. [RegI (f ctx) u d, RegI (g ctx) v e]) cs)) = {}"
    "item_lets (concat (map (\<lambda>ctx. [RegI (f ctx) u d, RegI (g ctx) v e]) cs)) = {}"
    for f g s t u v d e and cs :: "nat list"
    by (induction cs) simp_all
  have "lets_ok (concat (map (context_items model q n) [0..<n_ctx]))"
  proof (rule lets_ok_concat_map)
    show "lets_ok (context_items model q n ctx)" for ctx
      using context_lets_ok by (simp add: context_items_def)
    have disj: "(item_lets (context_items model q n i) \<union> let_refs (context_items model q n i))
        \<inter> item_lets (context_items model q n j) = {}" if "i \<noteq> j" for i j
      using that ctx_name_unique [of i _ j] ctx_name_not_outer [of j] context_lets_names [of _ model q n]
        context_lets_refs [of _ model q n i]
      by (auto simp: context_items_def) (metis state_not_ctx_name)+
    show "sorted_wrt (\<lambda>i j. (item_lets (context_items model q n i) \<union> let_refs (context_items model q n i))
        \<inter> item_lets (context_items model q n j) = {}) [0..<n_ctx]"
      by (rule sorted_wrt_mono_rel [OF _ sorted_wrt_upt]) (rule disj, simp)
  qed
  then show ?thesis by (simp add: plic_items_def none)
qed

section \<open>The arbiter\<close>

text \<open>The order of the PLIC specification: the higher priority, then the lower source number.\<close>

datatype claim_rank = Rank (rank_prio: nat) (rank_source: nat)

instantiation claim_rank :: linorder
begin

definition less_eq_claim_rank :: "claim_rank \<Rightarrow> claim_rank \<Rightarrow> bool" where
  "less_eq_claim_rank r s \<longleftrightarrow>
     rank_prio r < rank_prio s \<or> rank_prio r = rank_prio s \<and> rank_source s \<le> rank_source r"

definition less_claim_rank :: "claim_rank \<Rightarrow> claim_rank \<Rightarrow> bool" where
  "less_claim_rank r s \<longleftrightarrow> r \<le> s \<and> r \<noteq> s"

instance
  by standard (auto simp: less_eq_claim_rank_def less_claim_rank_def intro: claim_rank.expand)

end

lemma rank_le [simp]: "Rank p i \<le> Rank q j \<longleftrightarrow> p < q \<or> p = q \<and> j \<le> i"
  by (simp add: less_eq_claim_rank_def)

text \<open>
  What an arbiter promises: it picks a candidate between 1 and \<open>n\<close>, or 0, and no candidate ranks above
  the pick.
\<close>

locale arbiter =
  fixes pick :: "(nat \<Rightarrow> bool) \<Rightarrow> (nat \<Rightarrow> nat) \<Rightarrow> nat \<Rightarrow> nat"
  assumes pick_candidate: "pick C p n \<noteq> 0 \<Longrightarrow> C (pick C p n) \<and> pick C p n \<le> n"
    and pick_beats: "1 \<le> i \<Longrightarrow> i \<le> n \<Longrightarrow> C i \<Longrightarrow>
      pick C p n \<noteq> 0 \<and> Rank (p i) i \<le> Rank (p (pick C p n)) (pick C p n)"
begin

lemma pick_le: "pick C p n \<le> n"
  using pick_candidate [of C p n] by (cases "pick C p n = 0") auto

lemma pick_zero: "pick C p n = 0 \<longleftrightarrow> (\<forall>i \<in> {1..n}. \<not> C i)"
proof
  show "pick C p n = 0 \<Longrightarrow> \<forall>i \<in> {1..n}. \<not> C i" using pick_beats [of _ n C p] by auto
  show "\<forall>i \<in> {1..n}. \<not> C i \<Longrightarrow> pick C p n = 0" using pick_candidate [of C p n] by force
qed

text \<open>The pick is the source of the highest rank among the candidates.\<close>

lemma pick_is_Max:
  assumes "i \<in> {1..n}" and "C i"
  shows "pick C p n = rank_source (Max ((\<lambda>i. Rank (p i) i) ` {i \<in> {1..n}. C i}))"
proof -
  have b: "pick C p n \<noteq> 0" using assms pick_zero [of C p n] by auto
  then have "Max ((\<lambda>i. Rank (p i) i) ` {i \<in> {1..n}. C i}) = Rank (p (pick C p n)) (pick C p n)"
    using pick_candidate [OF b] pick_beats [of _ n C p] by (intro Max_eqI) auto
  then show ?thesis by simp
qed

lemma pick_unique:
  assumes "1 \<le> w" "w \<le> n" "C w"
    and "\<And>i. 1 \<le> i \<Longrightarrow> i \<le> n \<Longrightarrow> C i \<Longrightarrow> p i < p w \<or> p i = p w \<and> w \<le> i"
  shows "pick C p n = w"
proof -
  have b: "pick C p n \<noteq> 0" "p w < p (pick C p n) \<or> p w = p (pick C p n) \<and> pick C p n \<le> w"
    using pick_beats [of w n C p] assms(1-3) by auto
  moreover have "C (pick C p n)" "pick C p n \<le> n" using pick_candidate [OF b(1)] by auto
  ultimately show ?thesis using assms(4) [of "pick C p n"] by auto
qed

text \<open>Withdrawing a source that has not won changes nothing; withdrawing the winner changes the winner.\<close>

lemma pick_withdraw: "pick C p n \<noteq> k \<Longrightarrow> pick (\<lambda>i. C i \<and> i \<noteq> k) p n = pick C p n"
proof (cases "pick C p n = 0")
  case True
  then have "pick (\<lambda>i. C i \<and> i \<noteq> k) p n = 0" by (simp add: pick_zero)
  with True show ?thesis by simp
next
  case False
  assume "pick C p n \<noteq> k"
  with False show ?thesis
    using pick_candidate [OF False] pick_beats [of _ n C p] by (intro pick_unique) auto
qed

lemma pick_withdrawn: "k \<noteq> 0 \<Longrightarrow> pick (\<lambda>i. C i \<and> i \<noteq> k) p n \<noteq> k"
  using pick_candidate [of "\<lambda>i. C i \<and> i \<noteq> k" p n] by auto

end

text \<open>The cascade of the emitted module: the running best after sources \<open>1..n\<close>.\<close>

fun best :: "(nat \<Rightarrow> bool) \<Rightarrow> (nat \<Rightarrow> nat) \<Rightarrow> nat \<Rightarrow> nat" where
  "best C p 0 = 0"
| "best C p (Suc i) = (if C (Suc i) \<and> (best C p i = 0 \<or> p (best C p i) < p (Suc i)) then Suc i else best C p i)"

lemma best_le: "best C p n \<le> n"
  by (induction n) auto

interpretation plic: arbiter best
proof
  show "best C p n \<noteq> 0 \<Longrightarrow> C (best C p n) \<and> best C p n \<le> n" for C p n
    by (induction n) (auto split: if_splits)
  show "1 \<le> i \<Longrightarrow> i \<le> n \<Longrightarrow> C i \<Longrightarrow>
      best C p n \<noteq> 0 \<and> Rank (p i) i \<le> Rank (p (best C p n)) (best C p n)" for C p n i
  proof (induction n)
    case (Suc n)
    then consider "i = Suc n" | "i \<le> n" by linarith
    then show ?case
    proof cases
      case 1
      with Suc.prems show ?thesis using best_le [of C p n] by auto
    next
      case 2
      with Suc show ?thesis by auto
    qed
  qed simp
qed

lemma best_cong: "(\<And>i. 1 \<le> i \<Longrightarrow> i \<le> n \<Longrightarrow> C i = D i) \<Longrightarrow> (\<And>i. 1 \<le> i \<Longrightarrow> i \<le> n \<Longrightarrow> p i = r i) \<Longrightarrow> best C p n = best D r n"
proof (induction n)
  case (Suc n)
  then have "best C p n = best D r n" by simp
  moreover have "best D r n = 0 \<or> p (best D r n) = r (best D r n)"
    using Suc.prems(2) [of "best D r n"] plic.pick_le [of D r n] by (cases "best D r n = 0") auto
  ultimately show ?case using Suc.prems(1) [of "Suc n"] Suc.prems(2) [of "Suc n"] by auto
qed simp

lemma bit_length_bound: "n < 2 ^ bit_length n"
proof (induction n rule: bit_length.induct)
  case (1 n)
  show ?case
  proof (cases "n = 0")
    case False
    with 1 have "n div 2 < 2 ^ bit_length (n div 2)" by simp
    then have "n < 2 * 2 ^ bit_length (n div 2)" by linarith
    with False show ?thesis by (simp add: bit_length.simps [of n])
  qed (simp add: bit_length.simps)
qed

lemma id_w_bound: "i \<le> n \<Longrightarrow> i < 2 ^ id_w n"
proof -
  assume "i \<le> n"
  also have "n < 2 ^ bit_length n" by (rule bit_length_bound)
  also have "\<dots> \<le> 2 ^ id_w n" by (simp add: id_w_def)
  finally show ?thesis .
qed

text \<open>The width is the least that can name every source.\<close>

lemma bit_length_least: "0 < n \<Longrightarrow> 2 ^ (bit_length n - 1) \<le> n"
proof (induction n rule: bit_length.induct)
  case (1 n)
  show ?case
  proof (cases "n div 2 = 0")
    case True
    with 1 have "n = 1" by linarith
    then show ?thesis by (simp add: bit_length.simps)
  next
    case False
    with 1 have "2 ^ (bit_length (n div 2) - 1) \<le> n div 2" by simp
    moreover have "bit_length n - 1 = Suc (bit_length (n div 2) - 1)"
      using 1 False bit_length.simps [of "n div 2"] by (simp add: bit_length.simps [of n])
    ultimately show ?thesis by simp
  qed
qed

section \<open>What the module computes\<close>

text \<open>What a context reads: its own registers, the shared priorities and the interrupt sources.\<close>

abbreviation hwif_value :: "env \<Rightarrow> string \<Rightarrow> nat" where
  "hwif_value \<rho> x \<equiv> bn (\<rho> (Mem ''hwif_out'' x))"

definition prio :: "plic_model \<Rightarrow> plic_fields \<Rightarrow> env \<Rightarrow> nat \<Rightarrow> nat" where
  "prio model q \<rho> i = hwif_value \<rho> (prio_hwif model q i)"

definition in_service :: "env \<Rightarrow> nat \<Rightarrow> nat \<Rightarrow> bool" where
  "in_service \<rho> ctx i \<longleftrightarrow> bit (bn (\<rho> (Sig (ctx_sig ctx ''_claimed_r'')))) i"

definition cand :: "plic_model \<Rightarrow> plic_fields \<Rightarrow> env \<Rightarrow> nat \<Rightarrow> nat \<Rightarrow> bool" where
  "cand model q \<rho> ctx i \<longleftrightarrow>
     bit (bn (\<rho> (Sig ''source_in''))) i \<and> bit (hwif_value \<rho> (enable_hwif model q ctx)) i
     \<and> hwif_value \<rho> (threshold_hwif model q ctx) < prio model q \<rho> i \<and> \<not> in_service \<rho> ctx i"

definition winner :: "plic_model \<Rightarrow> plic_fields \<Rightarrow> nat \<Rightarrow> env \<Rightarrow> nat \<Rightarrow> nat" where
  "winner model q n \<rho> ctx = best (cand model q \<rho> ctx) (prio model q \<rho>) n"

definition plic_env :: "plic_model \<Rightarrow> plic_fields \<Rightarrow> nat \<Rightarrow> nat \<Rightarrow> env \<Rightarrow> bool" where
  "plic_env model q n n_ctx \<rho> \<longleftrightarrow>
     1 \<le> n \<and> sized (n + 1) (\<rho> (Sig ''source_in''))
     \<and> (\<forall>i \<in> {1..n}. sized prio_w (\<rho> (Mem ''hwif_out'' (prio_hwif model q i))))
     \<and> (\<forall>ctx < n_ctx. n < bw (\<rho> (Mem ''hwif_out'' (enable_hwif model q ctx)))
          \<and> sized (n + 1) (\<rho> (Sig (ctx_sig ctx ''_claimed_r'')))
          \<and> sized 1 (\<rho> (Sig (ctx_sig ctx ''_wr_pulse_d'')))
          \<and> sized 1 (\<rho> (Sig (claim_write_pulse model ctx))))"

definition set_bit_value :: "plic_model \<Rightarrow> plic_fields \<Rightarrow> nat \<Rightarrow> env \<Rightarrow> nat \<Rightarrow> nat" where
  "set_bit_value model q n \<rho> ctx =
     (let v = hwif_value \<rho> (claim_hwif model q ctx) in if 1 \<le> v \<and> v \<le> n then push_bit v 1 else 0)"

lemma push_bit_less: "i \<le> n \<Longrightarrow> push_bit i (1::nat) < 2 ^ (n + 1)"
  using power_strict_increasing [of i "n + 1" "2::nat"] by simp

lemma set_bit_value_less: "set_bit_value model q n \<rho> ctx < 2 ^ (n + 1)"
  using push_bit_less by (simp add: set_bit_value_def Let_def)

lemma bit_set_bit_value:
  "bit (set_bit_value model q n \<rho> ctx) i \<longleftrightarrow> 1 \<le> i \<and> i \<le> n \<and> hwif_value \<rho> (claim_hwif model q ctx) = i"
  by (auto simp: set_bit_value_def Let_def bit_exp_iff)

lemma plic_frame:
  "outer_name x \<Longrightarrow> x \<notin> item_lets (plic_items model q n n_ctx)"
  "ctx_prefix c @ ''_claimed_r'' \<notin> item_lets (plic_items model q n n_ctx)"
  "ctx_prefix c @ ''_wr_pulse_d'' \<notin> item_lets (plic_items model q n n_ctx)"
proof -
  have names: "\<exists>ctx. ctx_name ctx y" if "y \<in> item_lets (plic_items model q n n_ctx)" for y
    using that by (auto dest: context_lets_names)
  show "outer_name x \<Longrightarrow> x \<notin> item_lets (plic_items model q n n_ctx)"
    using names ctx_name_not_outer by blast
  show "ctx_prefix c @ ''_claimed_r'' \<notin> item_lets (plic_items model q n n_ctx)"
    "ctx_prefix c @ ''_wr_pulse_d'' \<notin> item_lets (plic_items model q n n_ctx)"
    using names state_not_ctx_name by metis+
qed

context arch_hdl
begin

lemma ev_zero_id [simp]: "ev \<sigma> (zero_id n) = BV (id_w n) 0"
  by (simp add: zero_id_def ev_hex)

lemma ev_mask [simp]: "v < 2 ^ (n + 1) \<Longrightarrow> ev \<sigma> (mask_expr n v) = BV (n + 1) v"
  by (simp add: mask_expr_def)

lemma ev_bit_expr: "ev \<sigma> (bit_expr model q n ctx) = BV (n + 1) (set_bit_value model q n \<sigma> ctx)"
proof -
  let ?v = "hwif_value \<sigma> (claim_hwif model q ctx)"
  have "ev \<sigma> (MatchE 4 (hwif (claim_hwif model q ctx))
      (map (\<lambda>i. (HexLit (id_w n) (nat_hex i), mask_expr n (push_bit i 1))) is) (mask_expr n 0))
      = BV (n + 1) (if ?v \<in> set is then push_bit ?v 1 else 0)" if "\<forall>i \<in> set is. i \<le> n" for "is"
    using that
  proof (induction "is")
    case (Cons i "is")
    then show ?case using id_w_bound [of i n] push_bit_less [of i n]
      by (simp add: ev_match_cons ev_ref)
  qed (simp add: ev_match_nil)
  from this [of "[1..<Suc n]"] show ?thesis
    by (auto simp: bit_expr_def set_bit_value_def Let_def simp del: upt_Suc)
qed

text \<open>The signals of context \<open>ctx\<close> after all \<^verbatim>\<open>let\<close>s.\<close>

definition plic_final :: "plic_model \<Rightarrow> plic_fields \<Rightarrow> nat \<Rightarrow> nat \<Rightarrow> env \<Rightarrow> env" where
  "plic_final model q n n_ctx \<rho> = bind_lets ev \<rho> (plic_items model q n n_ctx)"

lemma final_let:
  "ctx < n_ctx \<Longrightarrow> LetI x k t e \<in> set (context_lets model q n ctx) \<Longrightarrow>
   plic_final model q n n_ctx \<rho> (Sig x) = fit (ty_width t) (ev (plic_final model q n n_ctx \<rho>) e)"
  unfolding plic_final_def by (rule bind_lets_equation [OF plic_lets_ok]) auto

lemma final_frame [simp]:
  "plic_final model q n n_ctx \<rho> (Mem b m) = \<rho> (Mem b m)"
  "outer_name x \<Longrightarrow> plic_final model q n n_ctx \<rho> (Sig x) = \<rho> (Sig x)"
  "plic_final model q n n_ctx \<rho> (Sig (ctx_prefix c @ ''_claimed_r'')) = \<rho> (Sig (ctx_prefix c @ ''_claimed_r''))"
  "plic_final model q n n_ctx \<rho> (Sig (ctx_prefix c @ ''_wr_pulse_d'')) = \<rho> (Sig (ctx_prefix c @ ''_wr_pulse_d''))"
  unfolding plic_final_def using plic_frame by (simp_all add: bind_lets_frame_Sig del: plic_items_lets)

lemma final_cand:
  assumes env: "plic_env model q n n_ctx \<rho>" and c: "ctx < n_ctx" and i: "1 \<le> i" "i \<le> n"
  shows "plic_final model q n n_ctx \<rho> (Sig (cand_name ctx i)) = bit1 (cand model q \<rho> ctx i)"
proof -
  have "cand_let model q ctx i \<in> set (context_lets model q n ctx)"
    using i by (simp add: context_lets_def del: upt_Suc)
  note eq = final_let [OF c this [unfolded cand_let_def]]
  from env c have w: "n < bw (\<rho> (Mem ''hwif_out'' (enable_hwif model q ctx)))"
    "bw (\<rho> (Sig ''source_in'')) = n + 1" "bw (\<rho> (Sig (ctx_prefix ctx @ ''_claimed_r''))) = n + 1"
    by (auto simp: plic_env_def dest: sizedD)
  have b: "ev \<sigma> (BinLit 1 ''0'') = BV 1 0" for \<sigma> by (simp only: ev_bin [OF lit_bin_digits(6)] lit_bin_digits)
  show ?thesis
    unfolding eq cand_expr_def using i w
    by (simp add: ev_basic ev_bit b [unfolded One_nat_def] cand_def in_service_def prio_def)
qed

lemma ev_first_digit: "1 \<le> n \<Longrightarrow> ev \<sigma> (HexLit (id_w n) ''1'') = BV (id_w n) 1"
proof -
  assume "1 \<le> n"
  have "''1'' = nat_hex 1" by code_simp
  then show ?thesis using ev_hex_value [of 1 "id_w n" \<sigma>] id_w_bound [OF \<open>1 \<le> n\<close>] by simp
qed

lemma final_cascade:
  assumes env: "plic_env model q n n_ctx \<rho>" and c: "ctx < n_ctx" and i: "1 \<le> i" "i \<le> n"
  defines "b \<equiv> best (cand model q \<rho> ctx) (prio model q \<rho>)"
  shows "plic_final model q n n_ctx \<rho> (Sig (w_name ctx i ''_id'')) = BV (id_w n) (b i)
    \<and> plic_final model q n n_ctx \<rho> (Sig (w_name ctx i ''_prio'')) = BV prio_w (if b i = 0 then 0 else prio model q \<rho> (b i))"
  using i
proof (induction i)
  case (Suc i)
  let ?\<sigma> = "plic_final model q n n_ctx \<rho>" and ?i = "Suc i"
  have n: "1 \<le> n" using env by (simp add: plic_env_def)
  have pr: "sized prio_w (\<rho> (Mem ''hwif_out'' (prio_hwif model q ?i)))"
    using env Suc.prems by (simp add: plic_env_def)
  then have prv: "\<rho> (Mem ''hwif_out'' (prio_hwif model q ?i)) = BV prio_w (prio model q \<rho> ?i)"
    "prio model q \<rho> ?i < 2 ^ prio_w"
    by (cases "\<rho> (Mem ''hwif_out'' (prio_hwif model q ?i))"; simp add: prio_def)+
  note cand = final_cand [OF env c Suc.prems]
  have ids: "?i < 2 ^ id_w n" by (rule id_w_bound [OF Suc.prems(2)])
  show ?case
  proof (cases "i = 0")
    case True
    have "LetI (w_name ctx 1 ''_id'') 3 (TUInt (id_w n))
        (CondE (sig (cand_name ctx 1)) (HexLit (id_w n) ''1'') (zero_id n)) \<in> set (context_lets model q n ctx)"
      "LetI (w_name ctx 1 ''_prio'') 1 (TUInt prio_w)
        (CondE (sig (cand_name ctx 1)) (hwif (prio_hwif model q 1)) (HexLit prio_w ''0'')) \<in> set (context_lets model q n ctx)"
      by (simp_all add: context_lets_def first_lets_def)
    note eqs = this [THEN final_let [OF c, where \<rho> = \<rho>]]
    have "ev ?\<sigma> (HexLit prio_w ''0'') = BV prio_w 0" by (simp add: ev_hex)
    with True eqs cand prv ids show ?thesis
      by (simp add: ev_basic ev_first_digit [OF n] fit_def b_def)
  next
    case False
    then have i2: "?i \<in> set [2..<Suc n]" using Suc.prems by auto
    then have mem: "x \<in> set (cascade_lets model q n ctx ?i) \<Longrightarrow> x \<in> set (context_lets model q n ctx)" for x
      unfolding context_lets_def set_append set_concat set_map by blast
    have IH: "?\<sigma> (Sig (w_name ctx i ''_id'')) = BV (id_w n) (b i)"
      "?\<sigma> (Sig (w_name ctx i ''_prio'')) = BV prio_w (if b i = 0 then 0 else prio model q \<rho> (b i))"
      using Suc False by simp_all
    have bi: "b i < 2 ^ id_w n" "b i = 0 \<or> prio model q \<rho> (b i) < 2 ^ prio_w"
      using id_w_bound [of "b i" n] best_le [of "cand model q \<rho> ctx" "prio model q \<rho>" i] Suc.prems env
      unfolding b_def [symmetric] by (auto simp: plic_env_def prio_def sized_def)
    have take: "?\<sigma> (Sig (w_name ctx ?i ''_take''))
        = bit1 (cand model q \<rho> ctx ?i \<and> (b i = 0 \<or> prio model q \<rho> (b i) < prio model q \<rho> ?i))"
      using final_let [OF c mem, of "w_name ctx ?i ''_take''" 1 TBool] cand prv IH
      by (simp add: cascade_lets_def ev_basic)
    have "?\<sigma> (Sig (w_name ctx ?i ''_id'')) = BV (id_w n) (b ?i)"
      using final_let [OF c mem, of "w_name ctx ?i ''_id''" 3 "TUInt (id_w n)"] take IH ids bi
      by (auto simp: cascade_lets_def ev_basic fit_def b_def)
    moreover have "?\<sigma> (Sig (w_name ctx ?i ''_prio'')) = BV prio_w (if b ?i = 0 then 0 else prio model q \<rho> (b ?i))"
      using final_let [OF c mem, of "w_name ctx ?i ''_prio''" 1 "TUInt prio_w"] take IH prv bi
      by (auto simp: cascade_lets_def ev_basic fit_def b_def)
    ultimately show ?thesis ..
  qed
qed simp

lemma final_winner:
  assumes "plic_env model q n n_ctx \<rho>" and "ctx < n_ctx"
  shows "plic_final model q n n_ctx \<rho> (Sig (w_name ctx n ''_id'')) = BV (id_w n) (winner model q n \<rho> ctx)"
  using final_cascade [OF assms, of n] assms(1) by (simp add: winner_def plic_env_def)

lemma final_masks:
  assumes c: "ctx < n_ctx"
  shows "plic_final model q n n_ctx \<rho> (Sig (ctx_sig ctx ''_set_mask'')) =
      BV (n + 1) (if isset (\<rho> (Sig (claim_read_pulse model ctx))) then set_bit_value model q n \<rho> ctx else 0)"
    and "plic_final model q n n_ctx \<rho> (Sig (ctx_sig ctx ''_clr_mask'')) =
      BV (n + 1) (if isset (\<rho> (Sig (ctx_sig ctx ''_wr_pulse_d''))) then set_bit_value model q n \<rho> ctx else 0)"
proof -
  let ?\<sigma> = "plic_final model q n n_ctx \<rho>"
  have mem: "x \<in> set (mask_lets model q n ctx) \<Longrightarrow> x \<in> set (context_lets model q n ctx)" for x
    by (simp add: context_lets_def)
  have v: "set_bit_value model q n ?\<sigma> ctx = set_bit_value model q n \<rho> ctx" by (simp add: set_bit_value_def)
  have bits: "?\<sigma> (Sig (ctx_sig ctx ''_set_bit'')) = BV (n + 1) (set_bit_value model q n \<rho> ctx)"
    "?\<sigma> (Sig (ctx_sig ctx ''_clr_bit'')) = BV (n + 1) (set_bit_value model q n \<rho> ctx)"
    using final_let [OF c mem, of "ctx_sig ctx ''_set_bit''" 1 "TUInt (n + 1)" "bit_expr model q n ctx" \<rho>]
      final_let [OF c mem, of "ctx_sig ctx ''_clr_bit''" 1 "TUInt (n + 1)" "bit_expr model q n ctx" \<rho>]
      set_bit_value_less [of model q n \<rho> ctx]
    by (simp_all add: mask_lets_def ev_bit_expr v fit_def)
  show "?\<sigma> (Sig (ctx_sig ctx ''_set_mask'')) =
      BV (n + 1) (if isset (\<rho> (Sig (claim_read_pulse model ctx))) then set_bit_value model q n \<rho> ctx else 0)"
    using final_let [OF c mem, of "ctx_sig ctx ''_set_mask''" 1 "TUInt (n + 1)" _ \<rho>] bits
      set_bit_value_less [of model q n \<rho> ctx]
    by (auto simp: mask_lets_def ev_cond ev_ref fit_def)
  show "?\<sigma> (Sig (ctx_sig ctx ''_clr_mask'')) =
      BV (n + 1) (if isset (\<rho> (Sig (ctx_sig ctx ''_wr_pulse_d''))) then set_bit_value model q n \<rho> ctx else 0)"
    using final_let [OF c mem, of "ctx_sig ctx ''_clr_mask''" 1 "TUInt (n + 1)" _ \<rho>] bits
      set_bit_value_less [of model q n \<rho> ctx]
    by (auto simp: mask_lets_def ev_cond ev_ref fit_def)
qed

end

section \<open>Outputs and next state\<close>

lemma plic_item_drives:
  "concat (map item_drives (plic_items model q n n_ctx)) = map (\<lambda>(r, k, e). (r, e)) (plic_drives model q n n_ctx)"
proof -
  have ctx: "concat (map item_drives (context_items model q n ctx)) = []" for ctx
    by (auto simp: context_items_def context_lets_def cand_let_def first_lets_def cascade_lets_def mask_lets_def)
  show ?thesis
    by (auto simp: plic_items_def concat_map_concat o_def ctx)
qed

lemma plic_item_stmts:
  "concat (map item_stmts (plic_items model q n n_ctx)) = concat (map (context_stmts model) [0..<n_ctx])"
proof -
  have ctx: "concat (map item_stmts (context_items model q n ctx)) = []" for ctx
    by (auto simp: context_items_def context_lets_def cand_let_def first_lets_def cascade_lets_def mask_lets_def)
  show ?thesis
    by (auto simp: plic_items_def concat_map_concat o_def ctx)
qed

lemma plic_drive_lookup:
  fixes n
  assumes "distinct (pending_hwif model q # map (claim_hwif model q) [0..<n_ctx])"
  defines "ds \<equiv> map (\<lambda>(r, k, e). (r, e)) (plic_drives model q n n_ctx)"
  shows "map_of ds (Mem ''hwif_in'' (pending_hwif model q)) = Some (sig ''source_in'')"
    and "ctx < n_ctx \<Longrightarrow> map_of ds (Mem ''hwif_in'' (claim_hwif model q ctx)) = Some (sig (w_name ctx n ''_id''))"
    and "map_of ds (Sig ''intr_out'') = Some (if n_ctx = 1 then fired_expr n 0
         else Concat (map (\<lambda>ctx. Paren (fired_expr n ctx)) (rev [0..<n_ctx])))"
proof -
  let ?cs = "map (\<lambda>ctx. (Mem ''hwif_in'' (claim_hwif model q ctx), sig (w_name ctx n ''_id''))) [0..<n_ctx]"
  have keys: "map fst ?cs = map (Mem ''hwif_in'') (map (claim_hwif model q) [0..<n_ctx])" by simp
  then have "distinct (map fst ?cs)"
    using assms(1) by (simp add: distinct_map inj_on_def)
  then have cs: "ctx < n_ctx \<Longrightarrow> map_of ?cs (Mem ''hwif_in'' (claim_hwif model q ctx)) = Some (sig (w_name ctx n ''_id''))" for ctx
    by (intro map_of_is_SomeI) auto
  have none: "map_of ?cs (Sig ''intr_out'') = None" by (auto simp: map_of_eq_None_iff)
  have ds: "ds = (Mem ''hwif_in'' (pending_hwif model q), sig ''source_in'') # ?cs @ [(Sig ''intr_out'',
      if n_ctx = 1 then fired_expr n 0 else Concat (map (\<lambda>ctx. Paren (fired_expr n ctx)) (rev [0..<n_ctx])))]"
    by (simp add: ds_def plic_drives_def)
  show "map_of ds (Mem ''hwif_in'' (pending_hwif model q)) = Some (sig ''source_in'')" by (simp add: ds)
  show "map_of ds (Mem ''hwif_in'' (claim_hwif model q ctx)) = Some (sig (w_name ctx n ''_id''))" if "ctx < n_ctx"
  proof -
    have "claim_hwif model q ctx \<noteq> pending_hwif model q" using assms(1) that by force
    then show ?thesis using cs [OF that] by (simp add: ds map_add_def)
  qed
  show "map_of ds (Sig ''intr_out'') = Some (if n_ctx = 1 then fired_expr n 0
         else Concat (map (\<lambda>ctx. Paren (fired_expr n ctx)) (rev [0..<n_ctx])))"
    by (simp add: ds none map_add_def)
qed

lemma context_targets:
  "targets (context_stmts model ctx) = {Sig (ctx_sig ctx ''_wr_pulse_d''), Sig (ctx_sig ctx ''_claimed_r'')}"
  by (auto simp: context_stmts_def)

definition next_service :: "plic_model \<Rightarrow> plic_fields \<Rightarrow> nat \<Rightarrow> env \<Rightarrow> nat \<Rightarrow> nat \<Rightarrow> bool" where
  "next_service model q n \<rho> ctx i \<longleftrightarrow>
     (in_service \<rho> ctx i
        \<or> 1 \<le> i \<and> i \<le> n \<and> isset (\<rho> (Sig (claim_read_pulse model ctx))) \<and> hwif_value \<rho> (claim_hwif model q ctx) = i)
     \<and> \<not> (1 \<le> i \<and> i \<le> n \<and> isset (\<rho> (Sig (ctx_sig ctx ''_wr_pulse_d''))) \<and> hwif_value \<rho> (claim_hwif model q ctx) = i)"

context arch_hdl
begin

lemma ev_fired:
  assumes "plic_env model q n n_ctx \<rho>" and "ctx < n_ctx"
  shows "ev (plic_final model q n n_ctx \<rho>) (fired_expr n ctx) = bit1 (winner model q n \<rho> ctx \<noteq> 0)"
  using final_winner [OF assms] by (simp add: fired_expr_def ev_neq ev_ref)

lemma ev_fired_all:
  assumes "plic_env model q n n_ctx \<rho>" and "k \<noteq> 0" and "k \<le> n_ctx"
  shows "\<exists>v. ev (plic_final model q n n_ctx \<rho>) (Concat (map (\<lambda>ctx. Paren (fired_expr n ctx)) (rev [0..<k]))) = BV k v
    \<and> v < 2 ^ k \<and> (\<forall>ctx < k. bit v ctx \<longleftrightarrow> winner model q n \<rho> ctx \<noteq> 0)"
  using assms(2,3)
proof (induction k)
  case (Suc k)
  let ?b = "winner model q n \<rho> k \<noteq> 0"
  have here: "ev (plic_final model q n n_ctx \<rho>) (fired_expr n k) = bit1 ?b"
    by (rule ev_fired [OF assms(1)]) (use Suc.prems in simp)
  show ?case
  proof (cases "k = 0")
    case True
    with here show ?thesis by (auto simp: ev_concat_one ev_paren bit1_def bit_0)
  next
    case False
    with Suc obtain v where v: "ev (plic_final model q n n_ctx \<rho>) (Concat (map (\<lambda>ctx. Paren (fired_expr n ctx)) (rev [0..<k]))) = BV k v"
      "v < 2 ^ k" and bits: "\<forall>ctx < k. bit v ctx \<longleftrightarrow> winner model q n \<rho> ctx \<noteq> 0" by auto
    have ne: "map (\<lambda>ctx. Paren (fired_expr n ctx)) (rev [0..<k]) \<noteq> []" using False by simp
    have "ev (plic_final model q n n_ctx \<rho>) (Concat (map (\<lambda>ctx. Paren (fired_expr n ctx)) (rev [0..<Suc k])))
        = BV (Suc k) (of_bool ?b * 2 ^ k + v)"
      using ev_concat_cons [OF ne, of "plic_final model q n n_ctx \<rho>" "Paren (fired_expr n k)"] v here
      by (simp add: ev_paren)
    moreover have "of_bool ?b * 2 ^ k + v < 2 ^ Suc k" using v(2) by (simp add: of_bool_def)
    moreover have "\<forall>ctx < Suc k. bit (of_bool ?b * 2 ^ k + v) ctx \<longleftrightarrow> winner model q n \<rho> ctx \<noteq> 0"
      using bits unfolding bit_prepend [OF v(2)] by (auto simp: less_Suc_eq)
    ultimately show ?thesis by blast
  qed
qed simp

lemma plic_outputs:
  assumes items: "am_items m = plic_items model q n n_ctx" and env: "plic_env model q n n_ctx \<rho>" and "n_ctx \<noteq> 0"
    and d: "distinct (pending_hwif model q # map (claim_hwif model q) [0..<n_ctx])"
  shows "module_out ev m \<rho> (Mem ''hwif_in'' (pending_hwif model q)) = Some (\<rho> (Sig ''source_in''))"
    and "ctx < n_ctx \<Longrightarrow>
      module_out ev m \<rho> (Mem ''hwif_in'' (claim_hwif model q ctx)) = Some (BV (id_w n) (winner model q n \<rho> ctx))"
    and "\<exists>v. module_out ev m \<rho> (Sig ''intr_out'') = Some (BV n_ctx v)
      \<and> (\<forall>ctx < n_ctx. bit v ctx \<longleftrightarrow> winner model q n \<rho> ctx \<noteq> 0)"
proof -
  note out = module_out_def module_drives_def items plic_item_drives
  note look = plic_drive_lookup [OF d, where n = n]
  show "module_out ev m \<rho> (Mem ''hwif_in'' (pending_hwif model q)) = Some (\<rho> (Sig ''source_in''))"
    unfolding out look plic_final_def [symmetric] by (simp add: ev_ref)
  show "module_out ev m \<rho> (Mem ''hwif_in'' (claim_hwif model q ctx)) = Some (BV (id_w n) (winner model q n \<rho> ctx))"
    if "ctx < n_ctx"
    unfolding out look(2) [OF that] plic_final_def [symmetric] using final_winner [OF env that] by (simp add: ev_ref)
  show "\<exists>v. module_out ev m \<rho> (Sig ''intr_out'') = Some (BV n_ctx v)
      \<and> (\<forall>ctx < n_ctx. bit v ctx \<longleftrightarrow> winner model q n \<rho> ctx \<noteq> 0)"
  proof (cases "n_ctx = 1")
    case True
    with ev_fired [OF env, of 0] show ?thesis
      unfolding out look(3) plic_final_def [symmetric] by (auto simp: bit1_def bit_of_bool_iff)
  next
    case False
    with ev_fired_all [OF env \<open>n_ctx \<noteq> 0\<close> order_refl] show ?thesis
      unfolding out look(3) plic_final_def [symmetric] by auto
  qed
qed

lemma plic_next:
  assumes items: "am_items m = plic_items model q n n_ctx" and env: "plic_env model q n n_ctx \<rho>" and c: "ctx < n_ctx"
  shows "\<exists>v. module_next ev nxt m \<rho> (Sig (ctx_sig ctx ''_claimed_r'')) = BV (n + 1) v \<and> v < 2 ^ (n + 1)
      \<and> (\<forall>i. bit v i \<longleftrightarrow> next_service model q n \<rho> ctx i)"
    and "module_next ev nxt m \<rho> (Sig (ctx_sig ctx ''_wr_pulse_d''))
      = bit1 (isset (\<rho> (Sig (claim_write_pulse model ctx))))"
proof -
  let ?\<sigma> = "plic_final model q n n_ctx \<rho>" and ?cl = "Sig (ctx_sig ctx ''_claimed_r'')"
  let ?wr = "Sig (ctx_sig ctx ''_wr_pulse_d'')"
  have stmts: "module_stmts m = concat (map (context_stmts model) [0..<n_ctx])"
    by (simp add: module_stmts_def items plic_item_stmts)
  have run: "module_next ev nxt m \<rho> r = arch_run ev ?\<sigma> ?\<sigma> (context_stmts model ctx) r" if "r \<in> {?cl, ?wr}" for r
    unfolding module_next_def nxt_run stmts items plic_final_def [symmetric]
    by (rule arch_run_concat_map) (use c that in \<open>auto simp: context_targets\<close>)
  from env c have cl: "sized (n + 1) (\<rho> ?cl)" and wr: "sized 1 (\<rho> ?wr)"
    and wp: "sized 1 (\<rho> (Sig (claim_write_pulse model ctx)))" by (auto simp: plic_env_def)
  have ne: "?cl \<noteq> ?wr" by simp
  show "module_next ev nxt m \<rho> ?wr = bit1 (isset (\<rho> (Sig (claim_write_pulse model ctx))))"
    using ne wr wp sized_bit1 [OF wp] by (simp add: run context_stmts_def ev_ref sized_fit sizedD(1))
  let ?s = "if isset (\<rho> (Sig (claim_read_pulse model ctx))) then set_bit_value model q n \<rho> ctx else 0"
  let ?x = "if isset (\<rho> ?wr) then set_bit_value model q n \<rho> ctx else 0"
  let ?v = "(bn (\<rho> ?cl) OR ?s) AND (2 ^ (n + 1) - 1 - ?x)"
  have less: "?s < 2 ^ (n + 1)" "?x < 2 ^ (n + 1)" using set_bit_value_less [of model q n \<rho> ctx] by auto
  note masks = final_masks [OF c, of model q n \<rho>]
  have w: "bw (\<rho> ?cl) = n + 1" using cl by (rule sizedD)
  have set: "ev ?\<sigma> (Paren (BOr (sig (ctx_sig ctx ''_claimed_r'')) (sig (ctx_sig ctx ''_set_mask''))))
      = BV (n + 1) (bn (\<rho> ?cl) OR ?s)"
    using w by (simp add: ev_paren ev_or ev_ref masks)
  have clr: "ev ?\<sigma> (Paren (BNot (sig (ctx_sig ctx ''_clr_mask'')))) = BV (n + 1) (2 ^ (n + 1) - 1 - ?x)"
    using less(2) by (simp add: ev_paren ev_not ev_ref masks well_sized_def)
  have e: "ev ?\<sigma> (BAnd (Paren (BOr (sig (ctx_sig ctx ''_claimed_r'')) (sig (ctx_sig ctx ''_set_mask''))))
        (Paren (BNot (sig (ctx_sig ctx ''_clr_mask''))))) = BV (n + 1) ?v"
    by (subst ev_and) (simp_all only: set clr bv.sel)
  have small: "?v < 2 ^ (n + 1)"
    using and_less_pow [of "2 ^ (n + 1) - 1 - ?x" "n + 1" "bn (\<rho> ?cl) OR ?s"] by (simp add: and.commute)
  have "module_next ev nxt m \<rho> ?cl = BV (n + 1) ?v"
    using small w by (simp add: run context_stmts_def e fit_def)
  moreover have "bit ?v i \<longleftrightarrow> next_service model q n \<rho> ctx i" for i
  proof -
    have "bit (bn (\<rho> ?cl)) i \<Longrightarrow> i < n + 1" using bit_less_pow cl by (auto simp: sized_def)
    then show ?thesis
      unfolding bit_and_iff bit_or_iff bit_complement [OF less(2)]
      by (auto simp: next_service_def in_service_def bit_set_bit_value)
  qed
  ultimately show "\<exists>v. module_next ev nxt m \<rho> ?cl = BV (n + 1) v \<and> v < 2 ^ (n + 1)
      \<and> (\<forall>i. bit v i \<longleftrightarrow> next_service model q n \<rho> ctx i)"
    using small by blast
qed

end

end
