(* ===== verification/PlicProps.thy ===== *)
theory PlicProps
  imports PlicSem
begin

unbundle bit_operations_syntax

text \<open>
  The properties of the interrupt controller, on a small concrete device: arbitration, interrupt
  lines, claim and complete over time, what is ever in service, the emitter's errors, the scan.
\<close>

section \<open>A concrete device\<close>

text \<open>Three sources and two contexts, cut down from \<^verbatim>\<open>tests/rdl/plic_multictx.rdl\<close>, already unrolled.\<close>

definition demo_plic_reg :: "string \<Rightarrow> nat option \<Rightarrow> string \<Rightarrow> nat \<Rightarrow> nat \<Rightarrow> rdl_reg" where
  "demo_plic_reg nm idx role addr msb = (rdl_reg0 nm 0 [rdl_field0 ''value'' msb 0])\<lparr>
     rn_plic_role := Some role, rn_absolute_address := addr,
     rn_current_idx := map_option (\<lambda>i. [i]) idx,
     rn_emit_read_pulse := Some (role = ''claim''), rn_emit_write_pulse := Some (role = ''claim'')\<rparr>"

definition demo_plic_top :: rdl_top where
  "demo_plic_top = \<lparr>tn_inst_name = ''plic'', tn_children =
     map (\<lambda>i. RegNode (demo_plic_reg ''priority'' (Some i) ''priority'' (4 * i) 2)) [0, 1, 2, 3]
     @ [RegNode (demo_plic_reg ''pending'' None ''pending'' 16 3), LeafNode,
        RegNode (demo_plic_reg ''enable_1'' None ''enable'' 36 3),
        RegNode (demo_plic_reg ''enable_0'' None ''enable'' 32 3),
        RegNode (demo_plic_reg ''threshold_0'' None ''threshold'' 64 2),
        RegNode (demo_plic_reg ''claim_0'' None ''claim'' 68 1),
        RegNode (demo_plic_reg ''threshold_1'' None ''threshold'' 72 2),
        RegNode (demo_plic_reg ''claim_1'' None ''claim'' 76 1)]\<rparr>"

definition demo_plic :: plic_model where
  "demo_plic = (case scan_plic tn_children demo_plic_top ''Plic'' ''PlicPkg'' of Inr m \<Rightarrow> m)"

lemma demo_plic_scan: "scan_plic tn_children demo_plic_top ''Plic'' ''PlicPkg'' = Inr demo_plic"
proof -
  have "\<not> isl (scan_plic tn_children demo_plic_top ''Plic'' ''PlicPkg'')" by code_simp
  then show ?thesis by (auto simp: demo_plic_def split: sum.splits)
qed

definition demo_q :: plic_fields where
  "demo_q = \<lparr>qf_pending = ''value'', qf_enable = ''value'', qf_threshold = ''value'', qf_claim = ''value'',
     qf_priority = ''value''\<rparr>"

definition sources :: "plic_model \<Rightarrow> nat" where
  "sources model = nat (pm_n_sources model)"

lemma demo_plic_names:
  "plic_fields_of demo_plic = Inr demo_q" "sources demo_plic = 3" "n_contexts demo_plic = 2"
  "pending_hwif demo_plic demo_q = ''pending_value''"
  "enable_hwif demo_plic demo_q 0 = ''enable_0_value''" "enable_hwif demo_plic demo_q (Suc 0) = ''enable_1_value''"
  "threshold_hwif demo_plic demo_q 0 = ''threshold_0_value''"
  "threshold_hwif demo_plic demo_q (Suc 0) = ''threshold_1_value''"
  "claim_hwif demo_plic demo_q 0 = ''claim_0_value''" "claim_hwif demo_plic demo_q (Suc 0) = ''claim_1_value''"
  "prio_hwif demo_plic demo_q (Suc 0) = ''priority_1_value''" "prio_hwif demo_plic demo_q 2 = ''priority_2_value''"
  "prio_hwif demo_plic demo_q 3 = ''priority_3_value''"
  "claim_read_pulse demo_plic 0 = ''claim_0_read_pulse''" "claim_read_pulse demo_plic (Suc 0) = ''claim_1_read_pulse''"
  "claim_write_pulse demo_plic 0 = ''claim_0_write_pulse''" "claim_write_pulse demo_plic (Suc 0) = ''claim_1_write_pulse''"
  by code_simp+

definition demo_plic_module :: amodule where
  "demo_plic_module = (case plic_module demo_plic ''PlicLogic'' of Inr m \<Rightarrow> m)"

lemma demo_plic_module: "plic_module demo_plic ''PlicLogic'' = Inr demo_plic_module"
  by (simp add: demo_plic_module_def plic_module_def demo_plic_names)

text \<open>
  Sources 1 and 2 pending, priorities 2, 5, 1, context 0 enables both, context 1 source 1 only. The
  four numbers are the in-service bits of context 0, its read, write and delayed write pulses.
\<close>

definition demo_plic_env :: "nat \<Rightarrow> nat \<Rightarrow> nat \<Rightarrow> nat \<Rightarrow> env" where
  "demo_plic_env cl rd wr wd r = (case r of
      Sig s \<Rightarrow> if s = ''source_in'' then BV 4 6 else if s = ''c0_claimed_r'' then BV 4 cl
        else if s = ''c1_claimed_r'' then BV 4 0 else if s = ''claim_0_read_pulse'' then BV 1 rd
        else if s = ''claim_0_write_pulse'' then BV 1 wr else if s = ''c0_wr_pulse_d'' then BV 1 wd else BV 1 0
    | Mem b x \<Rightarrow> if x = ''claim_0_value'' then BV 2 2 else if x = ''priority_1_value'' then BV 3 2
        else if x = ''priority_2_value'' then BV 3 5 else if x = ''priority_3_value'' then BV 3 1
        else if x = ''enable_0_value'' then BV 4 6 else if x = ''enable_1_value'' then BV 4 2 else BV 3 0)"

lemma all_contexts: "(\<forall>ctx < 2. P ctx) \<longleftrightarrow> P 0 \<and> P (Suc 0)" for P :: "nat \<Rightarrow> bool"
  by (metis less_2_cases zero_less_numeral one_less_numeral_iff semiring_norm(76) One_nat_def)

lemma all_sources: "(\<forall>i \<in> {1..3}. P i) \<longleftrightarrow> P (Suc 0) \<and> P 2 \<and> P 3" for P :: "nat \<Rightarrow> bool"
proof -
  have "{1..3} = {Suc 0, 2, 3}" by auto
  then show ?thesis by simp
qed

lemma demo_plic_env:
  assumes "cl < 16" "rd < 2" "wr < 2" "wd < 2"
  shows "plic_env demo_plic demo_q (sources demo_plic) (n_contexts demo_plic) (demo_plic_env cl rd wr wd)"
  using assms
  unfolding plic_env_def demo_plic_names all_contexts all_sources
  by (simp add: demo_plic_names demo_plic_env_def prio_w_def ctx_prefix_def)

lemma demo_plic_distinct:
  "distinct (pending_hwif demo_plic demo_q # map (claim_hwif demo_plic demo_q) [0..<n_contexts demo_plic])"
  by (simp add: demo_plic_names numeral_2_eq_2)

lemma demo_plic_prio: "prio demo_plic demo_q (demo_plic_env cl rd wr wd) (Suc 0) = 2"
  "prio demo_plic demo_q (demo_plic_env cl rd wr wd) 2 = 5" "prio demo_plic demo_q (demo_plic_env cl rd wr wd) 3 = 1"
  by (simp_all add: prio_def demo_plic_names demo_plic_env_def)

lemma small_bits: "bit (6::nat) (Suc 0)" "bit (6::nat) 2" "\<not> bit (6::nat) 3" "bit (2::nat) (Suc 0)" "\<not> bit (2::nat) 2"
  "bit (4::nat) 2" "\<not> bit (4::nat) (Suc 0)" "\<not> bit (2::nat) 3"
  by code_simp+

lemma demo_plic_cand:
  "cand demo_plic demo_q (demo_plic_env cl rd wr wd) 0 (Suc 0) \<longleftrightarrow> \<not> bit cl (Suc 0)"
  "cand demo_plic demo_q (demo_plic_env cl rd wr wd) 0 2 \<longleftrightarrow> \<not> bit cl 2"
  "\<not> cand demo_plic demo_q (demo_plic_env cl rd wr wd) ctx 3"
  "cand demo_plic demo_q (demo_plic_env cl rd wr wd) (Suc 0) (Suc 0)"
  "\<not> cand demo_plic demo_q (demo_plic_env cl rd wr wd) (Suc 0) 2"
  by (simp_all add: cand_def in_service_def demo_plic_prio demo_plic_names demo_plic_env_def small_bits bit_0 ctx_prefix_def)

section \<open>Properties\<close>

lemma plic_module_items:
  assumes "plic_module model nm = Inr m" and "plic_fields_of model = Inr q"
  shows "am_items m = plic_items model q (sources model) (n_contexts model)" and "n_contexts model \<noteq> 0"
proof -
  show "am_items m = plic_items model q (sources model) (n_contexts model)"
    using assms by (auto simp: plic_module_def sources_def)
  show "n_contexts model \<noteq> 0"
    using assms(2) by (auto simp: plic_fields_of_def plic_check_def n_contexts_def)
qed

lemma plic_no_contexts: "n_contexts model = 0 \<Longrightarrow> \<exists>e. plic_fields_of model = Inl e"
  using plic_module_items(2) by (cases "plic_fields_of model") (auto simp: plic_module_def)

lemma plic_rendering: "emit_plic_logic model nm = res_bind (plic_module model nm) (\<lambda>m. Inr (render_module m))"
proof (cases "n_contexts model = 0")
  case True
  from plic_no_contexts [OF this] show ?thesis by (auto simp: emit_plic_logic_def plic_module_def)
qed (rule plic_render)

text \<open>
  C34: The text the PLIC emitter writes is, byte for byte, the rendering of the module the other
  PLIC properties are about, and both raise the same exception when one raises.
\<close>

theorem plic_text: "emit_plic_logic model nm = res_bind (plic_module model nm) (\<lambda>m. Inr (render_module m))"
  by (rule plic_rendering)

text \<open>
  C29: Arbitration: the value driven into the claim register of a context is a source whose
  interrupt is pending, enabled, above the threshold and not in service there, of the highest
  priority, and of the lowest number among those; it is 0 exactly when there is no such source.
\<close>

theorem plic_winner:
  assumes "arch_hdl ev nxt" and "plic_module model nm = Inr m" and "plic_fields_of model = Inr q"
    and "plic_env model q (sources model) (n_contexts model) \<rho>"
    and "distinct (pending_hwif model q # map (claim_hwif model q) [0..<n_contexts model])"
    and "ctx < n_contexts model"
  shows "\<exists>w \<le> sources model.
      module_out ev m \<rho> (Mem ''hwif_in'' (claim_hwif model q ctx)) = Some (BV (id_w (sources model)) w)
    \<and> (w = 0 \<longleftrightarrow> (\<forall>i \<in> {1..sources model}. \<not> cand model q \<rho> ctx i))
    \<and> (w \<noteq> 0 \<longrightarrow> cand model q \<rho> ctx w \<and> (\<forall>i \<in> {1..sources model}. cand model q \<rho> ctx i \<longrightarrow>
         prio model q \<rho> i < prio model q \<rho> w \<or> prio model q \<rho> i = prio model q \<rho> w \<and> w \<le> i))"
proof -
  let ?w = "winner model q (sources model) \<rho> ctx"
  note items = plic_module_items [OF assms(2,3)]
  have "module_out ev m \<rho> (Mem ''hwif_in'' (claim_hwif model q ctx)) = Some (BV (id_w (sources model)) ?w)"
    by (rule arch_hdl.plic_outputs(2) [OF assms(1) items(1) assms(4) items(2) assms(5,6)])
  moreover have "?w \<noteq> 0 \<longrightarrow> cand model q \<rho> ctx ?w" "?w \<le> sources model"
    unfolding winner_def using plic.pick_candidate plic.pick_le by blast+
  moreover have "?w = 0 \<longleftrightarrow> (\<forall>i \<in> {1..sources model}. \<not> cand model q \<rho> ctx i)"
    unfolding winner_def by (rule plic.pick_zero)
  moreover have "\<forall>i \<in> {1..sources model}. cand model q \<rho> ctx i \<longrightarrow>
      prio model q \<rho> i < prio model q \<rho> ?w \<or> prio model q \<rho> i = prio model q \<rho> ?w \<and> ?w \<le> i"
    unfolding winner_def using plic.pick_beats [where C = "cand model q \<rho> ctx"] by auto
  ultimately show ?thesis by (intro exI [of _ ?w] conjI impI) (simp_all only: not_False_eq_True simp_thms)
qed

theorem plic_winner_witness:
  "module_out arch_eval demo_plic_module (demo_plic_env 0 0 0 0) (Mem ''hwif_in'' ''claim_0_value'') = Some (BV (id_w 3) 2)"
proof -
  have env: "plic_env demo_plic demo_q (sources demo_plic) (n_contexts demo_plic) (demo_plic_env 0 0 0 0)"
    by (rule demo_plic_env) simp_all
  have "0 < n_contexts demo_plic" by (simp add: demo_plic_names)
  from plic_winner [OF arch.arch_hdl_axioms demo_plic_module demo_plic_names(1) env demo_plic_distinct this]
  obtain w where w: "w \<le> 3"
    "module_out arch_eval demo_plic_module (demo_plic_env 0 0 0 0) (Mem ''hwif_in'' ''claim_0_value'') = Some (BV (id_w 3) w)"
    "w = 0 \<longleftrightarrow> (\<forall>i \<in> {1..3}. \<not> cand demo_plic demo_q (demo_plic_env 0 0 0 0) 0 i)"
    "w \<noteq> 0 \<longrightarrow> cand demo_plic demo_q (demo_plic_env 0 0 0 0) 0 w \<and> (\<forall>i \<in> {1..3}. cand demo_plic demo_q (demo_plic_env 0 0 0 0) 0 i
      \<longrightarrow> prio demo_plic demo_q (demo_plic_env 0 0 0 0) i < prio demo_plic demo_q (demo_plic_env 0 0 0 0) w
        \<or> prio demo_plic demo_q (demo_plic_env 0 0 0 0) i = prio demo_plic demo_q (demo_plic_env 0 0 0 0) w \<and> w \<le> i)"
    unfolding demo_plic_names by (elim exE conjE)
  have "w \<noteq> 0" using w(3) unfolding all_sources by (simp add: demo_plic_cand)
  with w(4) have "w = 2" using w(1)
    unfolding all_sources
    by (cases "w = Suc 0 \<or> w = 3") (auto simp: demo_plic_cand demo_plic_prio)
  with w(2) show ?thesis by simp
qed

text \<open>
  The interrupt lines: bit \<open>ctx\<close> of \<^verbatim>\<open>intr_out\<close> is high exactly when some source is a
  candidate in that context, and the pending register shows the interrupt sources as they are.
\<close>

theorem plic_interrupts:
  assumes "arch_hdl ev nxt" and "plic_module model nm = Inr m" and "plic_fields_of model = Inr q"
    and "plic_env model q (sources model) (n_contexts model) \<rho>"
    and "distinct (pending_hwif model q # map (claim_hwif model q) [0..<n_contexts model])"
  shows "module_out ev m \<rho> (Mem ''hwif_in'' (pending_hwif model q)) = Some (\<rho> (Sig ''source_in''))
    \<and> (\<exists>v. module_out ev m \<rho> (Sig ''intr_out'') = Some (BV (n_contexts model) v)
        \<and> (\<forall>ctx < n_contexts model. bit v ctx \<longleftrightarrow> (\<exists>i \<in> {1..sources model}. cand model q \<rho> ctx i)))"
proof -
  have w: "winner model q (sources model) \<rho> ctx \<noteq> 0 \<longleftrightarrow> (\<exists>i \<in> {1..sources model}. cand model q \<rho> ctx i)" for ctx
    unfolding winner_def plic.pick_zero by blast
  note items = plic_module_items [OF assms(2,3)]
  show ?thesis
    using arch_hdl.plic_outputs(1,3) [OF assms(1) items(1) assms(4) items(2) assms(5)] unfolding w by blast
qed

theorem plic_interrupts_witness:
  "\<exists>v. module_out arch_eval demo_plic_module (demo_plic_env 6 0 0 0) (Sig ''intr_out'') = Some (BV 2 v)
     \<and> \<not> bit v 0 \<and> bit v 1"
proof -
  have env: "plic_env demo_plic demo_q (sources demo_plic) (n_contexts demo_plic) (demo_plic_env 6 0 0 0)"
    by (rule demo_plic_env) simp_all
  have some: "(\<exists>i \<in> {1..3}. P i) \<longleftrightarrow> P (Suc 0) \<or> P 2 \<or> P 3" for P :: "nat \<Rightarrow> bool"
    using all_sources [of "\<lambda>i. \<not> P i"] by blast
  from plic_interrupts [OF arch.arch_hdl_axioms demo_plic_module demo_plic_names(1) env demo_plic_distinct, THEN conjunct2]
  obtain v where v: "module_out arch_eval demo_plic_module (demo_plic_env 6 0 0 0) (Sig ''intr_out'') = Some (BV 2 v)"
    and bits: "\<forall>ctx < 2. bit v ctx \<longleftrightarrow> (\<exists>i \<in> {1..3}. cand demo_plic demo_q (demo_plic_env 6 0 0 0) ctx i)"
    unfolding demo_plic_names by (elim exE conjE)
  from bits have "\<not> bit v 0" "bit v 1"
    unfolding all_contexts some by (simp_all add: demo_plic_cand small_bits bit_0)
  with v show ?thesis by blast
qed

text \<open>
  Claim and complete: after a clock edge a source is in service in a context when it was
  before or is claimed now (the read pulse is high and the claim register shows it), unless it is
  completed now (the delayed write pulse is high and the claim register shows it); completion wins.
  The delayed write pulse is the write pulse of the cycle before.
\<close>

theorem plic_service_step:
  assumes "arch_hdl ev nxt" and "plic_module model nm = Inr m" and "plic_fields_of model = Inr q"
    and "plic_env model q (sources model) (n_contexts model) \<rho>" and "ctx < n_contexts model"
  shows "(\<exists>v < 2 ^ (sources model + 1).
        module_next ev nxt m \<rho> (Sig (ctx_sig ctx ''_claimed_r'')) = BV (sources model + 1) v
      \<and> (\<forall>i. bit v i \<longleftrightarrow>
           (in_service \<rho> ctx i
             \<or> 1 \<le> i \<and> i \<le> sources model \<and> isset (\<rho> (Sig (claim_read_pulse model ctx)))
               \<and> hwif_value \<rho> (claim_hwif model q ctx) = i)
           \<and> \<not> (1 \<le> i \<and> i \<le> sources model \<and> isset (\<rho> (Sig (ctx_sig ctx ''_wr_pulse_d'')))
               \<and> hwif_value \<rho> (claim_hwif model q ctx) = i)))
    \<and> module_next ev nxt m \<rho> (Sig (ctx_sig ctx ''_wr_pulse_d'')) = bit1 (isset (\<rho> (Sig (claim_write_pulse model ctx))))"
proof -
  note next' = arch_hdl.plic_next [OF assms(1) plic_module_items(1) [OF assms(2,3)] assms(4,5), unfolded next_service_def]
  from next'(1) show ?thesis by (elim exE conjE, intro conjI next'(2) exI) (assumption | simp only: simp_thms)+
qed

theorem plic_service_step_witness:
  "\<exists>v. module_next arch_eval arch_next demo_plic_module (demo_plic_env 0 1 0 0) (Sig ''c0_claimed_r'') = BV 4 v \<and> bit v 2"
proof -
  have env: "plic_env demo_plic demo_q (sources demo_plic) (n_contexts demo_plic) (demo_plic_env 0 1 0 0)"
    by (rule demo_plic_env) simp_all
  have "0 < n_contexts demo_plic" by (simp add: demo_plic_names)
  from plic_service_step [OF arch.arch_hdl_axioms demo_plic_module demo_plic_names(1) env this, THEN conjunct1]
  obtain v where v: "module_next arch_eval arch_next demo_plic_module (demo_plic_env 0 1 0 0) (Sig (ctx_sig 0 ''_claimed_r'')) = BV 4 v"
    and bits: "\<forall>i. bit v i \<longleftrightarrow> (in_service (demo_plic_env 0 1 0 0) 0 i \<or> 1 \<le> i \<and> i \<le> 3
        \<and> isset (demo_plic_env 0 1 0 0 (Sig ''claim_0_read_pulse'')) \<and> hwif_value (demo_plic_env 0 1 0 0) ''claim_0_value'' = i)
      \<and> \<not> (1 \<le> i \<and> i \<le> 3 \<and> isset (demo_plic_env 0 1 0 0 (Sig (ctx_sig 0 ''_wr_pulse_d'')))
        \<and> hwif_value (demo_plic_env 0 1 0 0) ''claim_0_value'' = i)"
    unfolding demo_plic_names by (elim exE conjE) simp
  from bits have "bit v 2" by (simp add: demo_plic_env_def isset_def ctx_prefix_def)
  with v show ?thesis by (auto simp: ctx_prefix_def)
qed

text \<open>A run: the registers of the module follow its next-state function, all other signals are free.\<close>

definition plic_follows ::
  "(env \<Rightarrow> aexpr \<Rightarrow> bv) \<Rightarrow> (env \<Rightarrow> astmt list \<Rightarrow> env) \<Rightarrow> amodule \<Rightarrow> nat \<Rightarrow> env \<Rightarrow> env \<Rightarrow> bool" where
  "plic_follows ev nxt m n_ctx \<rho> \<rho>' \<longleftrightarrow> (\<forall>ctx < n_ctx.
      \<rho>' (Sig (ctx_sig ctx ''_claimed_r'')) = module_next ev nxt m \<rho> (Sig (ctx_sig ctx ''_claimed_r''))
    \<and> \<rho>' (Sig (ctx_sig ctx ''_wr_pulse_d'')) = module_next ev nxt m \<rho> (Sig (ctx_sig ctx ''_wr_pulse_d'')))"

lemma plic_follows_service:
  assumes "arch_hdl ev nxt" and "plic_module model nm = Inr m" and "plic_fields_of model = Inr q"
    and "plic_env model q (sources model) (n_contexts model) \<rho>" and "ctx < n_contexts model"
    and "plic_follows ev nxt m (n_contexts model) \<rho> \<rho>'"
  shows "in_service \<rho>' ctx i \<longleftrightarrow> next_service model q (sources model) \<rho> ctx i"
    and "isset (\<rho>' (Sig (ctx_sig ctx ''_wr_pulse_d''))) \<longleftrightarrow> isset (\<rho> (Sig (claim_write_pulse model ctx)))"
proof -
  note next' = arch_hdl.plic_next [OF assms(1) plic_module_items(1) [OF assms(2,3)] assms(4,5)]
  from assms(5,6) have f: "\<rho>' (Sig (ctx_sig ctx ''_claimed_r'')) = module_next ev nxt m \<rho> (Sig (ctx_sig ctx ''_claimed_r''))"
    "\<rho>' (Sig (ctx_sig ctx ''_wr_pulse_d'')) = module_next ev nxt m \<rho> (Sig (ctx_sig ctx ''_wr_pulse_d''))"
    by (simp_all add: plic_follows_def)
  show "in_service \<rho>' ctx i \<longleftrightarrow> next_service model q (sources model) \<rho> ctx i"
    using next'(1) by (elim exE conjE) (simp add: in_service_def [of \<rho>'] f(1) del: One_nat_def)
  show "isset (\<rho>' (Sig (ctx_sig ctx ''_wr_pulse_d''))) \<longleftrightarrow> isset (\<rho> (Sig (claim_write_pulse model ctx)))"
    unfolding f(2) next'(2) by simp
qed

definition plic_run ::
  "(env \<Rightarrow> aexpr \<Rightarrow> bv) \<Rightarrow> (env \<Rightarrow> astmt list \<Rightarrow> env) \<Rightarrow> amodule \<Rightarrow> plic_model \<Rightarrow> plic_fields \<Rightarrow> (nat \<Rightarrow> env) \<Rightarrow> bool" where
  "plic_run ev nxt m model q run \<longleftrightarrow> (\<forall>k.
      plic_env model q (sources model) (n_contexts model) (run k)
    \<and> plic_follows ev nxt m (n_contexts model) (run k) (run (Suc k)))"

lemma plic_run_service:
  assumes "arch_hdl ev nxt" and "plic_module model nm = Inr m" and "plic_fields_of model = Inr q"
    and "plic_run ev nxt m model q run" and "ctx < n_contexts model"
  shows "in_service (run (Suc k)) ctx i \<longleftrightarrow> next_service model q (sources model) (run k) ctx i"
    and "isset (run (Suc k) (Sig (ctx_sig ctx ''_wr_pulse_d''))) \<longleftrightarrow> isset (run k (Sig (claim_write_pulse model ctx)))"
  using plic_follows_service [OF assms(1-3) _ assms(5), of "run k" "run (Suc k)"] assms(4)
  by (auto simp: plic_run_def)

text \<open>
  C30: No double delivery: once context \<open>ctx\<close> has claimed source \<open>i\<close>, the claim register is not
  driven with \<open>i\<close> again, whatever the sources, enables, priorities and thresholds do, for as
  long as no completion of \<open>i\<close> reaches the context.
\<close>

theorem plic_claim_masks:
  assumes "arch_hdl ev nxt" and "plic_module model nm = Inr m" and "plic_fields_of model = Inr q"
    and "plic_run ev nxt m model q run" and "ctx < n_contexts model"
    and "distinct (pending_hwif model q # map (claim_hwif model q) [0..<n_contexts model])"
    and "1 \<le> i" and "i \<le> sources model"
    and "isset (run k (Sig (claim_read_pulse model ctx)))" and "hwif_value (run k) (claim_hwif model q ctx) = i"
    and "\<forall>j. k \<le> j \<and> j \<le> k + d \<longrightarrow>
      \<not> (isset (run j (Sig (ctx_sig ctx ''_wr_pulse_d''))) \<and> hwif_value (run j) (claim_hwif model q ctx) = i)"
    and "k < j" and "j \<le> Suc (k + d)"
  shows "\<exists>w. module_out ev m (run j) (Mem ''hwif_in'' (claim_hwif model q ctx)) = Some (BV (id_w (sources model)) w) \<and> w \<noteq> i"
proof -
  note step = plic_run_service(1) [OF assms(1-5)]
  have "k < j \<longrightarrow> j \<le> Suc (k + d) \<longrightarrow> in_service (run j) ctx i"
  proof (induction j)
    case (Suc j)
    then show ?case
      using step [of j i] assms(7-11) by (cases "j = k") (auto simp: next_service_def)
  qed simp
  then have "\<not> cand model q (run j) ctx i" using assms(12,13) by (simp add: cand_def)
  then have "winner model q (sources model) (run j) ctx \<noteq> i"
    using assms(7) plic.pick_candidate [of "cand model q (run j) ctx"] unfolding winner_def by (metis not_one_le_zero)
  moreover have "plic_env model q (sources model) (n_contexts model) (run j)" using assms(4) by (simp add: plic_run_def)
  note arch_hdl.plic_outputs(2) [OF assms(1) plic_module_items(1) [OF assms(2,3)] this plic_module_items(2) [OF assms(2,3)] assms(6,5)]
  ultimately show ?thesis by auto
qed

text \<open>
  C31: Completion undoes a claim: when software writes \<open>i\<close> to the claim register, two edges later
  source \<open>i\<close> is out of service in that context, even if it is read at the same time, and every
  other source is as it was; a source that is still pending, enabled and above the threshold is
  then a candidate again.
\<close>

theorem plic_complete:
  assumes "arch_hdl ev nxt" and "plic_module model nm = Inr m" and "plic_fields_of model = Inr q"
    and "plic_run ev nxt m model q run" and "ctx < n_contexts model"
    and "1 \<le> i" and "i \<le> sources model"
    and "isset (run k (Sig (claim_write_pulse model ctx)))" and "hwif_value (run (Suc k)) (claim_hwif model q ctx) = i"
  shows "(\<forall>j. in_service (run (Suc (Suc k))) ctx j \<longleftrightarrow> j \<noteq> i \<and> in_service (run (Suc k)) ctx j)
    \<and> (cand model q (run (Suc (Suc k))) ctx i \<longleftrightarrow>
        bit (bn (run (Suc (Suc k)) (Sig ''source_in''))) i
        \<and> bit (hwif_value (run (Suc (Suc k))) (enable_hwif model q ctx)) i
        \<and> hwif_value (run (Suc (Suc k))) (threshold_hwif model q ctx) < prio model q (run (Suc (Suc k))) i)"
proof -
  have "isset (run (Suc k) (Sig (ctx_sig ctx ''_wr_pulse_d'')))"
    using plic_run_service(2) [OF assms(1-5)] assms(8) by blast
  then have "in_service (run (Suc (Suc k))) ctx j \<longleftrightarrow> j \<noteq> i \<and> in_service (run (Suc k)) ctx j" for j
    using plic_run_service(1) [OF assms(1-5), of "Suc k" j] assms(6,7,9) by (auto simp: next_service_def)
  then show ?thesis by (simp add: cand_def)
qed

text \<open>The reachable states, from the asynchronous reset on.\<close>

inductive plic_reach ::
  "(env \<Rightarrow> aexpr \<Rightarrow> bv) \<Rightarrow> (env \<Rightarrow> astmt list \<Rightarrow> env) \<Rightarrow> amodule \<Rightarrow> plic_model \<Rightarrow> plic_fields \<Rightarrow> env \<Rightarrow> bool"
  for ev nxt m model q where
  plic_reset: "plic_env model q (sources model) (n_contexts model) \<rho> \<Longrightarrow>
     \<forall>ctx < n_contexts model. \<rho> (Sig (ctx_sig ctx ''_claimed_r'')) = ev \<rho> (mask_expr (sources model) 0)
       \<and> \<rho> (Sig (ctx_sig ctx ''_wr_pulse_d'')) = ev \<rho> FalseE \<Longrightarrow>
     plic_reach ev nxt m model q \<rho>"
| plic_edge: "plic_reach ev nxt m model q \<rho> \<Longrightarrow> plic_env model q (sources model) (n_contexts model) \<rho>' \<Longrightarrow>
     plic_follows ev nxt m (n_contexts model) \<rho> \<rho>' \<Longrightarrow> plic_reach ev nxt m model q \<rho>'"

inductive_cases plic_reachE: "plic_reach ev nxt m model q \<rho>"

lemma plic_reach_env: "plic_reach ev nxt m model q \<rho> \<Longrightarrow> plic_env model q (sources model) (n_contexts model) \<rho>"
  by (erule plic_reachE)

text \<open>
  C32: In every state reachable from reset only real sources are in service: the reserved source 0
  and numbers above the last source never are, so the idle value of the claim register can never be
  mistaken for a claim.
\<close>

theorem plic_service_invariant:
  assumes "arch_hdl ev nxt" and "plic_module model nm = Inr m" and "plic_fields_of model = Inr q"
    and "plic_reach ev nxt m model q \<rho>" and "ctx < n_contexts model" and "in_service \<rho> ctx i"
  shows "1 \<le> i \<and> i \<le> sources model"
  using assms(4,6)
proof (induction arbitrary: i)
  case (plic_reset \<rho>)
  have "ev \<rho> (mask_expr (sources model) 0) = BV (sources model + 1) 0"
    by (rule arch_hdl.ev_mask [OF assms(1)]) simp
  with plic_reset assms(5) show ?case by (simp add: in_service_def)
next
  case (plic_edge \<rho> \<rho>')
  have "next_service model q (sources model) \<rho> ctx i"
    using plic_follows_service(1) [OF assms(1-3) plic_reach_env [OF plic_edge.hyps(1)] assms(5) plic_edge.hyps(3)]
      plic_edge.prems by blast
  with plic_edge.IH show ?case by (auto simp: next_service_def)
qed

text \<open>A run of the small device: context 0 claims source 2, completes it, and is idle again.\<close>

lemma demo_plic_follows:
  assumes "cl < 16" "rd < 2" "wr < 2" "wd < 2"
    and bits: "\<And>i. bit cl' i \<longleftrightarrow> (bit cl i \<or> rd \<noteq> 0 \<and> i = 2) \<and> \<not> (wd \<noteq> 0 \<and> i = 2)"
  shows "plic_follows arch_eval arch_next demo_plic_module (n_contexts demo_plic)
    (demo_plic_env cl rd wr wd) (demo_plic_env cl' rd' wr' wr)"
proof -
  let ?\<rho> = "demo_plic_env cl rd wr wd"
  note env = demo_plic_env [OF assms(1-4)]
  note items = plic_module_items [OF demo_plic_module demo_plic_names(1)]
  have next0: "\<exists>v. module_next arch_eval arch_next demo_plic_module ?\<rho> (Sig (ctx_sig 0 ''_claimed_r'')) = BV 4 v
      \<and> (\<forall>i. bit v i \<longleftrightarrow> next_service demo_plic demo_q 3 ?\<rho> 0 i)"
    and wr0: "module_next arch_eval arch_next demo_plic_module ?\<rho> (Sig (ctx_sig 0 ''_wr_pulse_d'')) = bit1 (wr \<noteq> 0)"
    using arch.plic_next [OF items(1) env, of 0] by (auto simp: demo_plic_names demo_plic_env_def isset_def)
  have next1: "\<exists>v. module_next arch_eval arch_next demo_plic_module ?\<rho> (Sig (ctx_sig (Suc 0) ''_claimed_r'')) = BV 4 v
      \<and> (\<forall>i. bit v i \<longleftrightarrow> next_service demo_plic demo_q 3 ?\<rho> (Suc 0) i)"
    and wr1: "module_next arch_eval arch_next demo_plic_module ?\<rho> (Sig (ctx_sig (Suc 0) ''_wr_pulse_d'')) = bit1 False"
    using arch.plic_next [OF items(1) env, of "Suc 0"] by (auto simp: demo_plic_names demo_plic_env_def isset_def)
  have "next_service demo_plic demo_q 3 ?\<rho> 0 i \<longleftrightarrow> bit cl' i" for i
    using bits [of i]
    by (auto simp: next_service_def in_service_def demo_plic_names demo_plic_env_def isset_def ctx_prefix_def)
  with next0 have c0: "module_next arch_eval arch_next demo_plic_module ?\<rho> (Sig (ctx_sig 0 ''_claimed_r'')) = BV 4 cl'"
    using bit_eqI by metis
  have "\<not> next_service demo_plic demo_q 3 ?\<rho> (Suc 0) i" for i
    by (auto simp: next_service_def in_service_def demo_plic_names demo_plic_env_def isset_def ctx_prefix_def)
  with next1 have c1: "module_next arch_eval arch_next demo_plic_module ?\<rho> (Sig (ctx_sig (Suc 0) ''_claimed_r'')) = BV 4 0"
    using bit_eqI [of _ "0 :: nat"] by (metis bit_0_eq bot_apply bot_bool_def)
  have "wr = of_bool (wr \<noteq> 0)" using assms(3) by auto
  then show ?thesis
    unfolding plic_follows_def demo_plic_names all_contexts c0 c1 wr0 wr1
    by (simp add: demo_plic_env_def ctx_prefix_def bit1_def)
qed

definition demo_plic_run :: "nat \<Rightarrow> env" where
  "demo_plic_run k = (if k = 0 then demo_plic_env 0 1 0 0 else if k = 1 then demo_plic_env 4 0 1 0
     else if k = 2 then demo_plic_env 4 0 0 1 else demo_plic_env 0 0 0 0)"

lemma bit_4: "bit (4::nat) i \<longleftrightarrow> i = 2"
  using bit_exp_iff [of 2 i, where 'a = nat] by auto

lemma demo_plic_run: "plic_run arch_eval arch_next demo_plic_module demo_plic demo_q demo_plic_run"
  unfolding plic_run_def
proof (intro allI conjI)
  fix k :: nat
  consider "k = 0" | "k = 1" | "k = 2" | "3 \<le> k" by linarith
  then show "plic_follows arch_eval arch_next demo_plic_module (n_contexts demo_plic) (demo_plic_run k) (demo_plic_run (Suc k))"
    by cases (auto simp: demo_plic_run_def bit_4 bit_0 intro!: demo_plic_follows)
  show "plic_env demo_plic demo_q (sources demo_plic) (n_contexts demo_plic) (demo_plic_run k)"
    by (auto simp: demo_plic_run_def intro!: demo_plic_env)
qed

lemma demo_plic_run_facts:
  "isset (demo_plic_run 0 (Sig ''claim_0_read_pulse''))" "isset (demo_plic_run (Suc 0) (Sig ''claim_0_write_pulse''))"
  "hwif_value (demo_plic_run k) ''claim_0_value'' = 2"
  "j \<le> Suc 0 \<Longrightarrow> \<not> isset (demo_plic_run j (Sig (ctx_prefix 0 @ ''_wr_pulse_d'')))"
  by (auto simp: demo_plic_run_def demo_plic_env_def isset_def ctx_prefix_def)

theorem plic_claim_masks_witness:
  "\<exists>w. module_out arch_eval demo_plic_module (demo_plic_run 2) (Mem ''hwif_in'' ''claim_0_value'') = Some (BV (id_w 3) w) \<and> w \<noteq> 2"
proof -
  have c: "0 < n_contexts demo_plic" "(2::nat) \<le> sources demo_plic" by (simp_all add: demo_plic_names)
  have "\<exists>w. module_out arch_eval demo_plic_module (demo_plic_run 2) (Mem ''hwif_in'' (claim_hwif demo_plic demo_q 0))
      = Some (BV (id_w (sources demo_plic)) w) \<and> w \<noteq> 2"
    by (rule plic_claim_masks [OF arch.arch_hdl_axioms demo_plic_module demo_plic_names(1) demo_plic_run c(1)
          demo_plic_distinct _ c(2), where k = 0 and d = 1])
      (simp_all add: demo_plic_names demo_plic_run_facts)
  then show ?thesis by (simp add: demo_plic_names)
qed

theorem plic_complete_witness: "in_service (demo_plic_run 2) 0 2 \<and> \<not> in_service (demo_plic_run 3) 0 2"
proof -
  have c: "0 < n_contexts demo_plic" "(2::nat) \<le> sources demo_plic" by (simp_all add: demo_plic_names)
  have "\<not> in_service (demo_plic_run (Suc (Suc 1))) 0 2"
    using plic_complete [OF arch.arch_hdl_axioms demo_plic_module demo_plic_names(1) demo_plic_run c(1) _ c(2), of 1]
    by (simp add: demo_plic_names demo_plic_run_facts)
  moreover have "in_service (demo_plic_run 2) 0 2"
    by (simp add: in_service_def demo_plic_run_def demo_plic_env_def ctx_prefix_def bit_4 bit_0)
  ultimately show ?thesis by (simp add: numeral_3_eq_3)
qed

theorem plic_service_invariant_witness: "in_service (demo_plic_run 1) 0 2 \<and> (1::nat) \<le> 2 \<and> 2 \<le> sources demo_plic"
proof -
  have "plic_reach arch_eval arch_next demo_plic_module demo_plic demo_q (demo_plic_env 0 1 0 0)"
  proof (rule plic_reach.plic_reset)
    show "plic_env demo_plic demo_q (sources demo_plic) (n_contexts demo_plic) (demo_plic_env 0 1 0 0)"
      by (rule demo_plic_env) simp_all
    have "arch_eval (demo_plic_env 0 1 0 0) (mask_expr 3 0) = BV 4 0"
      using arch.ev_mask [of 0 3 "demo_plic_env 0 1 0 0"] by simp
    then show "\<forall>ctx < n_contexts demo_plic.
        demo_plic_env 0 1 0 0 (Sig (ctx_sig ctx ''_claimed_r'')) = arch_eval (demo_plic_env 0 1 0 0) (mask_expr (sources demo_plic) 0)
      \<and> demo_plic_env 0 1 0 0 (Sig (ctx_sig ctx ''_wr_pulse_d'')) = arch_eval (demo_plic_env 0 1 0 0) FalseE"
      unfolding demo_plic_names all_contexts by (simp add: demo_plic_env_def ctx_prefix_def bit1_def)
  qed
  then have "plic_reach arch_eval arch_next demo_plic_module demo_plic demo_q (demo_plic_env 4 0 1 0)"
    by (rule plic_reach.plic_edge) (auto intro!: demo_plic_env demo_plic_follows simp: bit_4 bit_0)
  then have r: "plic_reach arch_eval arch_next demo_plic_module demo_plic demo_q (demo_plic_run 1)"
    by (simp add: demo_plic_run_def)
  have s: "in_service (demo_plic_run 1) 0 2"
    by (simp add: in_service_def demo_plic_run_def demo_plic_env_def ctx_prefix_def bit_4 bit_0)
  have "0 < n_contexts demo_plic" by (simp add: demo_plic_names)
  from plic_service_invariant [OF arch.arch_hdl_axioms demo_plic_module demo_plic_names(1) r this s] s
  show ?thesis by simp
qed

text \<open>
  C35: The PLIC emitter returns exactly for a model with a pending register, the same positive
  number of enable, threshold and claim registers, at least one source beyond the reserved one and
  both pulses on every claim register, when the registers it takes names from have a field;
  otherwise it raises.
\<close>

theorem plic_emitter:
  "(\<exists>text. emit_plic_logic model nm = Inr text) \<longleftrightarrow>
     (\<exists>pending. pm_pending model = Some pending \<and> rn_fields pending \<noteq> [])
     \<and> pm_claims model \<noteq> [] \<and> length (pm_enables model) = length (pm_claims model)
     \<and> length (pm_thresholds model) = length (pm_claims model) \<and> 1 \<le> pm_n_sources model
     \<and> (\<forall>claim \<in> set (pm_claims model). flag (rn_emit_read_pulse claim) \<and> flag (rn_emit_write_pulse claim))
     \<and> pm_priorities model \<noteq> []
     \<and> (\<forall>regs \<in> {pm_enables model, pm_thresholds model, pm_claims model, pm_priorities model}. rn_fields (hd regs) \<noteq> [])"
proof -
  have ff: "(\<exists>x. first_field r = Inr x) \<longleftrightarrow> rn_fields r \<noteq> []" for r
    by (cases "rn_fields r") (simp_all add: first_field_def)
  have fr: "(\<exists>x. first_reg_field rs = Inr x) \<longleftrightarrow> rs \<noteq> [] \<and> rn_fields (hd rs) \<noteq> []" for rs
    by (cases rs) (simp_all add: first_reg_field_def ff)
  have claims: "(\<forall>x \<in> set (enumerate k cs). claim_check x = Inr ()) \<longleftrightarrow>
      (\<forall>claim \<in> set cs. flag (rn_emit_read_pulse claim) \<and> flag (rn_emit_write_pulse claim))" for k cs
    by (induction cs arbitrary: k) (auto simp: claim_check_def)
  have check: "plic_check model = Inr () \<longleftrightarrow> pm_pending model \<noteq> None \<and> pm_enables model \<noteq> []
      \<and> pm_thresholds model \<noteq> [] \<and> pm_claims model \<noteq> [] \<and> length (pm_enables model) = n_contexts model
      \<and> length (pm_claims model) = n_contexts model \<and> 1 \<le> pm_n_sources model
      \<and> (\<forall>claim \<in> set (pm_claims model). flag (rn_emit_read_pulse claim) \<and> flag (rn_emit_write_pulse claim))"
    by (auto simp: plic_check_def claims)
  have "(\<exists>text. emit_plic_logic model nm = Inr text) \<longleftrightarrow> (\<exists>q. plic_fields_of model = Inr q)"
    by (simp add: emit_plic_logic_def Let_def)
  also have "\<dots> \<longleftrightarrow> plic_check model = Inr () \<and> (\<exists>x. first_field (the (pm_pending model)) = Inr x)
      \<and> (\<forall>regs \<in> {pm_enables model, pm_thresholds model, pm_claims model, pm_priorities model}.
           \<exists>x. first_reg_field regs = Inr x)"
    by (auto simp: plic_fields_of_def)
  finally show ?thesis
    unfolding check ff fr n_contexts_def by (auto simp: not_None_eq)
qed

lemma demo_plic_lists:
  "pm_pending demo_plic = Some (demo_plic_reg ''pending'' None ''pending'' 16 3)"
  "pm_enables demo_plic = [demo_plic_reg ''enable_0'' None ''enable'' 32 3, demo_plic_reg ''enable_1'' None ''enable'' 36 3]"
  "pm_thresholds demo_plic =
     [demo_plic_reg ''threshold_0'' None ''threshold'' 64 2, demo_plic_reg ''threshold_1'' None ''threshold'' 72 2]"
  "pm_claims demo_plic = [demo_plic_reg ''claim_0'' None ''claim'' 68 1, demo_plic_reg ''claim_1'' None ''claim'' 76 1]"
  "pm_priorities demo_plic = map (\<lambda>i. demo_plic_reg ''priority'' (Some i) ''priority'' (4 * i) 2) [0, 1, 2, 3]"
  "pm_n_sources demo_plic = 3"
  by code_simp+

theorem plic_emitter_witness: "\<exists>text. emit_plic_logic demo_plic ''PlicLogic'' = Inr text"
  by (rule plic_emitter [THEN iffD2])
    (simp add: demo_plic_lists demo_plic_reg_def rdl_reg0_def flag_def)

definition with_role :: "string \<Rightarrow> rdl_reg list \<Rightarrow> rdl_reg list" where
  "with_role role rs = filter (\<lambda>r. rn_plic_role r = Some role) rs"

lemma plic_bucket_fields:
  "pm_priorities (plic_bucket m (RegNode r)) = pm_priorities m @ with_role ''priority'' [r]"
  "pm_pending (plic_bucket m (RegNode r)) = (if rn_plic_role r = Some ''pending'' then Some r else pm_pending m)"
  "pm_enables (plic_bucket m (RegNode r)) = pm_enables m @ with_role ''enable'' [r]"
  "pm_thresholds (plic_bucket m (RegNode r)) = pm_thresholds m @ with_role ''threshold'' [r]"
  "pm_claims (plic_bucket m (RegNode r)) = pm_claims m @ with_role ''claim'' [r]"
  by (cases "rn_plic_role r"; simp add: with_role_def)+

lemma plic_buckets:
  "pm_priorities (foldl plic_bucket m ns) = pm_priorities m @ with_role ''priority'' (direct_regs ns)
   \<and> pm_enables (foldl plic_bucket m ns) = pm_enables m @ with_role ''enable'' (direct_regs ns)
   \<and> pm_thresholds (foldl plic_bucket m ns) = pm_thresholds m @ with_role ''threshold'' (direct_regs ns)
   \<and> pm_claims (foldl plic_bucket m ns) = pm_claims m @ with_role ''claim'' (direct_regs ns)
   \<and> pm_pending (foldl plic_bucket m ns) =
       (case find (\<lambda>r. rn_plic_role r = Some ''pending'') (rev (direct_regs ns)) of None \<Rightarrow> pm_pending m | Some r \<Rightarrow> Some r)"
proof (induction ns rule: rev_induct)
  case Nil
  then show ?case by (simp add: with_role_def direct_regs_def)
next
  case (snoc c ns)
  then show ?case
    by (cases c) (simp_all add: plic_bucket_fields direct_regs_def with_role_def del: plic_bucket.simps(1))
qed

text \<open>Sorted by a key, and within each key the elements of \<open>xs\<close> in their order: nothing lost, nothing added.\<close>

definition sorted_from :: "('a \<Rightarrow> nat) \<Rightarrow> 'a list \<Rightarrow> 'a list \<Rightarrow> bool" where
  "sorted_from key xs ys \<longleftrightarrow> sorted (map key ys) \<and> (\<forall>k. filter (\<lambda>y. key y = k) ys = filter (\<lambda>x. key x = k) xs)"

lemma sorted_from_sort_key: "sorted_from key xs (sort_key key xs)"
  by (simp add: sorted_from_def sort_key_stable)

text \<open>
  C36: The PLIC scanner: the priorities are the direct registers with that role ordered by array
  index, the enables, thresholds and claims those of their roles ordered by address, each list
  stable and complete; the number of sources is one less than the number of priorities; a priority
  register with an empty index tuple is the only thing that makes it raise.
\<close>

theorem plic_scan:
  "(\<forall>model. scan_plic unrolled tp mn pn = Inr model \<longrightarrow>
       sorted_from source_key (with_role ''priority'' (direct_regs (unrolled tp))) (pm_priorities model)
     \<and> sorted_from rn_absolute_address (with_role ''enable'' (direct_regs (unrolled tp))) (pm_enables model)
     \<and> sorted_from rn_absolute_address (with_role ''threshold'' (direct_regs (unrolled tp))) (pm_thresholds model)
     \<and> sorted_from rn_absolute_address (with_role ''claim'' (direct_regs (unrolled tp))) (pm_claims model)
     \<and> pm_pending model = find (\<lambda>r. rn_plic_role r = Some ''pending'') (rev (direct_regs (unrolled tp)))
     \<and> pm_n_sources model = int (length (pm_priorities model)) - 1)
   \<and> ((\<exists>model. scan_plic unrolled tp mn pn = Inr model) \<longleftrightarrow>
        (\<forall>r \<in> set (with_role ''priority'' (direct_regs (unrolled tp))). rn_current_idx r \<noteq> Some []))"
proof -
  have idx: "(\<exists>i. source_idx r = Inr i) \<longleftrightarrow> rn_current_idx r \<noteq> Some []" for r
    by (cases "rn_current_idx r") (auto simp: source_idx_def)
  note scan = scan_plic_def Let_def plic_buckets
  have "(\<exists>model. scan_plic unrolled tp mn pn = Inr model) \<longleftrightarrow>
      (\<exists>is. res_map source_idx (with_role ''priority'' (direct_regs (unrolled tp))) = Inr is)"
    by (auto simp: scan)
  moreover have "\<forall>model. scan_plic unrolled tp mn pn = Inr model \<longrightarrow>
       sorted_from source_key (with_role ''priority'' (direct_regs (unrolled tp))) (pm_priorities model)
     \<and> sorted_from rn_absolute_address (with_role ''enable'' (direct_regs (unrolled tp))) (pm_enables model)
     \<and> sorted_from rn_absolute_address (with_role ''threshold'' (direct_regs (unrolled tp))) (pm_thresholds model)
     \<and> sorted_from rn_absolute_address (with_role ''claim'' (direct_regs (unrolled tp))) (pm_claims model)
     \<and> pm_pending model = find (\<lambda>r. rn_plic_role r = Some ''pending'') (rev (direct_regs (unrolled tp)))
     \<and> pm_n_sources model = int (length (pm_priorities model)) - 1"
    by (auto simp: scan sorted_from_sort_key split: option.splits)
  ultimately show ?thesis unfolding res_map_all_Inr [symmetric] idx by blast
qed

theorem plic_scan_witness:
  "sorted_from rn_absolute_address (with_role ''enable'' (direct_regs (tn_children demo_plic_top))) (pm_enables demo_plic)"
  using plic_scan [of tn_children demo_plic_top "''Plic''" "''PlicPkg''"] demo_plic_scan by blast

end
