(* ===== verification/Simulation.thy ===== *)
theory Simulation
  imports Main
begin

text \<open>
  A contract between a concrete machine and the specification it implements, step by step, and what
  follows for whole runs.
\<close>

text \<open>
  A concrete machine that follows an abstract one: from related states and an admissible input, the
  outputs agree and the next states are related. Then the outputs agree along every run.
\<close>

fun outputs :: "('s \<Rightarrow> 'i \<Rightarrow> 's) \<Rightarrow> ('s \<Rightarrow> 'i \<Rightarrow> 'o) \<Rightarrow> 's \<Rightarrow> 'i list \<Rightarrow> 'o list" where
  "outputs step out s [] = []"
| "outputs step out s (i # is) = out s i # outputs step out (step s i) is"

locale simulation =
  fixes cstep :: "'c \<Rightarrow> 'i \<Rightarrow> 'c" and cout :: "'c \<Rightarrow> 'i \<Rightarrow> 'o"
    and astep :: "'a \<Rightarrow> 'j \<Rightarrow> 'a" and aout :: "'a \<Rightarrow> 'j \<Rightarrow> 'o"
    and rel :: "'c \<Rightarrow> 'a \<Rightarrow> bool" and ok :: "'i \<Rightarrow> bool" and abs :: "'i \<Rightarrow> 'j"
  assumes rel_step: "rel c a \<Longrightarrow> ok i \<Longrightarrow> rel (cstep c i) (astep a (abs i))"
    and rel_out: "rel c a \<Longrightarrow> ok i \<Longrightarrow> cout c i = aout a (abs i)"
begin

lemma runs:
  assumes "rel c a" and "\<forall>i \<in> set is. ok i"
  shows "rel (foldl cstep c is) (foldl astep a (map abs is))"
    and "outputs cstep cout c is = outputs astep aout a (map abs is)"
  using assms by (induction "is" arbitrary: c a) (auto simp: rel_step rel_out)

end

end
