(* ===== verification/PlicRefine.thy ===== *)
theory PlicRefine
  imports PlicProps Simulation
begin

text \<open>
  The interrupt controller as the platform specification sees it, and the proof that the emitted logic
  implements it: a state of sets instead of bit masks, and the source to deliver as the greatest of the
  eligible ones instead of a cascade. The registers of the block (enables, priorities, thresholds, the
  value the claim register shows) and its pulses are the input of a cycle.
\<close>

section \<open>The machine of the specification\<close>

record plic_in =
  pi_pending :: nat
  pi_enable :: "nat \<Rightarrow> nat \<Rightarrow> bool"
  pi_prio :: "nat \<Rightarrow> nat"
  pi_threshold :: "nat \<Rightarrow> nat"
  pi_shown :: "nat \<Rightarrow> nat"
  pi_claim :: "nat \<Rightarrow> bool"
  pi_complete :: "nat \<Rightarrow> bool"

record plic_state =
  ps_service :: "nat \<Rightarrow> nat set"
  ps_completing :: "nat \<Rightarrow> bool"

text \<open>What a context may deliver: pending, enabled, above its threshold and not in service there.\<close>

definition eligible :: "nat \<Rightarrow> plic_state \<Rightarrow> plic_in \<Rightarrow> nat \<Rightarrow> nat set" where
  "eligible n s i ctx =
     {k \<in> {1..n}. bit (pi_pending i) k \<and> pi_enable i ctx k \<and> pi_threshold i ctx < pi_prio i k} - ps_service s ctx"

text \<open>The source delivered: the highest priority, among equals the lowest number; 0 when there is none.\<close>

definition delivered :: "nat \<Rightarrow> plic_state \<Rightarrow> plic_in \<Rightarrow> nat \<Rightarrow> nat" where
  "delivered n s i ctx =
     (if eligible n s i ctx = {} then 0
      else rank_source (Max ((\<lambda>k. Rank (pi_prio i k) k) ` eligible n s i ctx)))"

text \<open>The source the claim register shows, as a set; nothing when it shows none.\<close>

definition shown :: "nat \<Rightarrow> plic_in \<Rightarrow> nat \<Rightarrow> nat set" where
  "shown n i ctx = {pi_shown i ctx} \<inter> {1..n}"

text \<open>
  A read of the claim register puts the source it shows into service; a write takes the source the
  register then shows out of service one cycle later, and wins over a claim of that cycle.
\<close>

definition spec_step :: "nat \<Rightarrow> plic_state \<Rightarrow> plic_in \<Rightarrow> plic_state" where
  "spec_step n s i =
     \<lparr>ps_service = \<lambda>ctx.
        ps_service s ctx \<union> (if pi_claim i ctx then shown n i ctx else {})
          - (if ps_completing s ctx then shown n i ctx else {}),
      ps_completing = pi_complete i\<rparr>"

definition spec_out :: "nat \<Rightarrow> nat \<Rightarrow> plic_state \<Rightarrow> plic_in \<Rightarrow> nat option \<times> (nat option \<times> bool option) list" where
  "spec_out n n_ctx s i =
     (Some (pi_pending i),
      map (\<lambda>ctx. (Some (delivered n s i ctx), Some (eligible n s i ctx \<noteq> {}))) [0..<n_ctx])"

definition spec_idle :: plic_state where
  "spec_idle = \<lparr>ps_service = \<lambda>_. {}, ps_completing = \<lambda>_. False\<rparr>"

section \<open>The emitted logic as a machine\<close>

text \<open>Its state is the two registers of every context; everything else is input.\<close>

definition state_regs :: "nat \<Rightarrow> aref set" where
  "state_regs n_ctx = (\<Union>ctx < n_ctx. {Sig (ctx_sig ctx ''_claimed_r''), Sig (ctx_sig ctx ''_wr_pulse_d'')})"

definition plic_signals :: "nat \<Rightarrow> env \<Rightarrow> env \<Rightarrow> env" where
  "plic_signals n_ctx s \<sigma> r = (if r \<in> state_regs n_ctx then s r else \<sigma> r)"

definition logic_step ::
  "(env \<Rightarrow> aexpr \<Rightarrow> bv) \<Rightarrow> (env \<Rightarrow> astmt list \<Rightarrow> env) \<Rightarrow> amodule \<Rightarrow> nat \<Rightarrow> env \<Rightarrow> env \<Rightarrow> env" where
  "logic_step ev nxt m n_ctx s \<sigma> = module_next ev nxt m (plic_signals n_ctx s \<sigma>)"

definition logic_out ::
  "(env \<Rightarrow> aexpr \<Rightarrow> bv) \<Rightarrow> amodule \<Rightarrow> plic_model \<Rightarrow> plic_fields \<Rightarrow> env \<Rightarrow> env \<Rightarrow> nat option \<times> (nat option \<times> bool option) list" where
  "logic_out ev m model q s \<sigma> =
     (let out = module_out ev m (plic_signals (n_contexts model) s \<sigma>) in
      (map_option bn (out (Mem ''hwif_in'' (pending_hwif model q))),
       map (\<lambda>ctx. (map_option bn (out (Mem ''hwif_in'' (claim_hwif model q ctx))),
                   map_option (\<lambda>v. bit (bn v) ctx) (out (Sig ''intr_out'')))) [0..<n_contexts model]))"

definition plic_input :: "plic_model \<Rightarrow> plic_fields \<Rightarrow> env \<Rightarrow> plic_in" where
  "plic_input model q \<sigma> =
     \<lparr>pi_pending = bn (\<sigma> (Sig ''source_in'')),
      pi_enable = \<lambda>ctx k. bit (hwif_value \<sigma> (enable_hwif model q ctx)) k,
      pi_prio = \<lambda>k. hwif_value \<sigma> (prio_hwif model q k),
      pi_threshold = \<lambda>ctx. hwif_value \<sigma> (threshold_hwif model q ctx),
      pi_shown = \<lambda>ctx. hwif_value \<sigma> (claim_hwif model q ctx),
      pi_claim = \<lambda>ctx. isset (\<sigma> (Sig (claim_read_pulse model ctx))),
      pi_complete = \<lambda>ctx. isset (\<sigma> (Sig (claim_write_pulse model ctx)))\<rparr>"

text \<open>The input signals hold values of their declared widths.\<close>

definition plic_ports :: "plic_model \<Rightarrow> plic_fields \<Rightarrow> nat \<Rightarrow> nat \<Rightarrow> env \<Rightarrow> bool" where
  "plic_ports model q n n_ctx \<sigma> \<longleftrightarrow>
     1 \<le> n \<and> sized (n + 1) (\<sigma> (Sig ''source_in''))
     \<and> (\<forall>i \<in> {1..n}. sized prio_w (\<sigma> (Mem ''hwif_out'' (prio_hwif model q i))))
     \<and> (\<forall>ctx < n_ctx. n < bw (\<sigma> (Mem ''hwif_out'' (enable_hwif model q ctx)))
          \<and> sized 1 (\<sigma> (Sig (claim_write_pulse model ctx))))"

text \<open>The bits of the in-service register are the set, the delayed pulse is the flag.\<close>

definition holds_service :: "nat \<Rightarrow> nat \<Rightarrow> env \<Rightarrow> plic_state \<Rightarrow> bool" where
  "holds_service n n_ctx s a \<longleftrightarrow>
     (\<forall>ctx < n_ctx. sized (n + 1) (s (Sig (ctx_sig ctx ''_claimed_r'')))
        \<and> sized 1 (s (Sig (ctx_sig ctx ''_wr_pulse_d'')))
        \<and> {k. bit (bn (s (Sig (ctx_sig ctx ''_claimed_r'')))) k} = ps_service a ctx
        \<and> isset (s (Sig (ctx_sig ctx ''_wr_pulse_d''))) = ps_completing a ctx)"

section \<open>One cycle\<close>

lemma outer_not_state:
  assumes "outer_name x"
  shows "Sig x \<notin> state_regs n_ctx"
proof
  assume "Sig x \<in> state_regs n_ctx"
  then obtain ctx p where p: "x = ctx_sig ctx p" "p \<in> {''_claimed_r'', ''_wr_pulse_d''}"
    by (auto simp: state_regs_def)
  from outer_name_suffix [OF assms] obtain y t where t: "x = y @ t" "t \<in> {''source_in'', ''_read_pulse'', ''_write_pulse''}"
    by (elim exE conjE)
  have "last x = last p" "last x = last t" using p t by auto
  with p(2) t(2) show False by auto
qed

lemma plic_signals_simps [simp]:
  "plic_signals n_ctx s \<sigma> (Mem b x) = \<sigma> (Mem b x)"
  "outer_name x \<Longrightarrow> plic_signals n_ctx s \<sigma> (Sig x) = \<sigma> (Sig x)"
  "ctx < n_ctx \<Longrightarrow> plic_signals n_ctx s \<sigma> (Sig (ctx_sig ctx ''_claimed_r'')) = s (Sig (ctx_sig ctx ''_claimed_r''))"
  "ctx < n_ctx \<Longrightarrow> plic_signals n_ctx s \<sigma> (Sig (ctx_sig ctx ''_wr_pulse_d'')) = s (Sig (ctx_sig ctx ''_wr_pulse_d''))"
  using outer_not_state [of x n_ctx] by (auto simp: plic_signals_def) (auto simp: state_regs_def)

lemma plic_signals_env:
  "holds_service n n_ctx s a \<Longrightarrow> plic_ports model q n n_ctx \<sigma> \<Longrightarrow> plic_env model q n n_ctx (plic_signals n_ctx s \<sigma>)"
  by (simp add: plic_env_def plic_ports_def holds_service_def)

lemma service_bits:
  "holds_service n n_ctx s a \<Longrightarrow> ctx < n_ctx \<Longrightarrow> in_service (plic_signals n_ctx s \<sigma>) ctx k \<longleftrightarrow> k \<in> ps_service a ctx"
  by (auto simp: in_service_def holds_service_def)

lemma cand_eligible:
  assumes "holds_service n n_ctx s a" and "ctx < n_ctx"
  shows "{k \<in> {1..n}. cand model q (plic_signals n_ctx s \<sigma>) ctx k} = eligible n a (plic_input model q \<sigma>) ctx"
  using service_bits [OF assms, of \<sigma>]
  by (auto simp: cand_def eligible_def plic_input_def prio_def)

lemma winner_delivered:
  assumes "holds_service n n_ctx s a" and "ctx < n_ctx"
  shows "winner model q n (plic_signals n_ctx s \<sigma>) ctx = delivered n a (plic_input model q \<sigma>) ctx"
proof (cases "eligible n a (plic_input model q \<sigma>) ctx = {}")
  case True
  with cand_eligible [OF assms, of model q \<sigma>] show ?thesis
    by (auto simp: delivered_def winner_def plic.pick_zero)
next
  case False
  then obtain k where "k \<in> {1..n}" "cand model q (plic_signals n_ctx s \<sigma>) ctx k"
    using cand_eligible [OF assms, of model q \<sigma>] by blast
  from plic.pick_is_Max [where C = "cand model q (plic_signals n_ctx s \<sigma>) ctx", OF this] show ?thesis
    unfolding winner_def cand_eligible [OF assms] using False
    by (simp add: delivered_def plic_input_def prio_def)
qed

locale plic_logic = arch_hdl ev nxt for ev nxt +
  fixes model :: plic_model and q :: plic_fields and nm :: string and m :: amodule
  assumes module: "plic_module model nm = Inr m" and fields: "plic_fields_of model = Inr q"
    and apart: "distinct (pending_hwif model q # map (claim_hwif model q) [0..<n_contexts model])"
begin

lemma logic_outputs:
  assumes st: "holds_service (sources model) (n_contexts model) s a" and ports: "plic_ports model q (sources model) (n_contexts model) \<sigma>"
  shows "logic_out ev m model q s \<sigma> = spec_out (sources model) (n_contexts model) a (plic_input model q \<sigma>)"
proof -
  let ?\<rho> = "plic_signals (n_contexts model) s \<sigma>" and ?n = "sources model" and ?i = "plic_input model q \<sigma>"
  note items = plic_module_items [OF module fields]
  note out = plic_outputs [OF items(1) plic_signals_env [OF assms] items(2) apart]
  from out(3) obtain v where v: "module_out ev m ?\<rho> (Sig ''intr_out'') = Some (BV (n_contexts model) v)"
    and bits: "\<forall>ctx < n_contexts model. bit v ctx \<longleftrightarrow> winner model q ?n ?\<rho> ctx \<noteq> 0" by (elim exE conjE)
  have fired: "winner model q ?n ?\<rho> ctx \<noteq> 0 \<longleftrightarrow> eligible ?n a ?i ctx \<noteq> {}" if "ctx < n_contexts model" for ctx
    unfolding winner_def plic.pick_zero cand_eligible [OF st that, symmetric] by blast
  have pend: "?\<rho> (Sig ''source_in'') = \<sigma> (Sig ''source_in'')" "pi_pending ?i = bn (\<sigma> (Sig ''source_in''))"
    by (simp_all add: plic_input_def)
  have ctxs: "(map_option bn (module_out ev m ?\<rho> (Mem ''hwif_in'' (claim_hwif model q ctx))),
      map_option (\<lambda>v. bit (bn v) ctx) (module_out ev m ?\<rho> (Sig ''intr_out'')))
    = (Some (delivered ?n a ?i ctx), Some (eligible ?n a ?i ctx \<noteq> {}))" if "ctx < n_contexts model" for ctx
    unfolding out(2) [OF that] v option.map bv.sel winner_delivered [OF st that]
    using bits fired [OF that] that by (simp only: refl simp_thms)
  show ?thesis
    unfolding logic_out_def spec_out_def Let_def out(1) option.map pend
    using ctxs by simp
qed

lemma logic_steps:
  assumes st: "holds_service (sources model) (n_contexts model) s a" and ports: "plic_ports model q (sources model) (n_contexts model) \<sigma>"
  shows "holds_service (sources model) (n_contexts model) (logic_step ev nxt m (n_contexts model) s \<sigma>)
    (spec_step (sources model) a (plic_input model q \<sigma>))"
  unfolding holds_service_def
proof (intro allI impI)
  let ?n = "sources model" and ?\<rho> = "plic_signals (n_contexts model) s \<sigma>" and ?i = "plic_input model q \<sigma>"
  let ?s = "logic_step ev nxt m (n_contexts model) s \<sigma>" and ?a = "spec_step (sources model) a (plic_input model q \<sigma>)"
  fix ctx assume c: "ctx < n_contexts model"
  note step = plic_next [OF plic_module_items(1) [OF module fields] plic_signals_env [OF assms] c]
  from step(1) obtain v where v: "?s (Sig (ctx_sig ctx ''_claimed_r'')) = BV (?n + 1) v" "v < 2 ^ (?n + 1)"
    and bits: "\<forall>k. bit v k \<longleftrightarrow> next_service model q ?n ?\<rho> ctx k"
    unfolding logic_step_def by (elim exE conjE)
  have w: "?s (Sig (ctx_sig ctx ''_wr_pulse_d'')) = bit1 (pi_complete ?i ctx)"
    using step(2) by (simp add: logic_step_def plic_input_def)
  have done_bit: "isset (?\<rho> (Sig (ctx_sig ctx ''_wr_pulse_d''))) = ps_completing a ctx"
    using st c by (simp add: holds_service_def)
  have "next_service model q ?n ?\<rho> ctx k \<longleftrightarrow> k \<in> ps_service ?a ctx" for k
    unfolding next_service_def service_bits [OF st c] done_bit
    by (auto simp: spec_step_def shown_def plic_input_def)
  with bits have "{k. bit v k} = ps_service ?a ctx" by blast
  moreover have "ps_completing ?a = pi_complete ?i" by (simp add: spec_step_def)
  ultimately show "sized (?n + 1) (?s (Sig (ctx_sig ctx ''_claimed_r'')))
      \<and> sized 1 (?s (Sig (ctx_sig ctx ''_wr_pulse_d'')))
      \<and> {k. bit (bn (?s (Sig (ctx_sig ctx ''_claimed_r'')))) k} = ps_service ?a ctx
      \<and> isset (?s (Sig (ctx_sig ctx ''_wr_pulse_d''))) = ps_completing ?a ctx"
    using v w by simp
qed

end

sublocale plic_logic \<subseteq> spec: simulation "logic_step ev nxt m (n_contexts model)" "logic_out ev m model q"
  "spec_step (sources model)" "spec_out (sources model) (n_contexts model)"
  "holds_service (sources model) (n_contexts model)" "plic_ports model q (sources model) (n_contexts model)"
  "plic_input model q"
  by unfold_locales (auto intro: logic_steps logic_outputs)

context plic_logic
begin

lemmas logic_runs = spec.runs

end

interpretation demo_logic: plic_logic arch_eval arch_next demo_plic demo_q "''PlicLogic''" demo_plic_module
  by (intro plic_logic.intro plic_logic_axioms.intro arch.arch_hdl_axioms demo_plic_module demo_plic_names(1) demo_plic_distinct)

section \<open>From reset\<close>

definition plic_reset_state :: "(env \<Rightarrow> aexpr \<Rightarrow> bv) \<Rightarrow> nat \<Rightarrow> nat \<Rightarrow> env \<Rightarrow> bool" where
  "plic_reset_state ev n n_ctx s \<longleftrightarrow>
     (\<forall>ctx < n_ctx. s (Sig (ctx_sig ctx ''_claimed_r'')) = ev s (mask_expr n 0)
        \<and> s (Sig (ctx_sig ctx ''_wr_pulse_d'')) = ev s FalseE)"

lemma reset_idle:
  assumes "arch_hdl ev nxt" and "plic_reset_state ev n n_ctx s"
  shows "holds_service n n_ctx s spec_idle"
proof -
  have "ev s (mask_expr n 0) = BV (n + 1) 0" by (rule arch_hdl.ev_mask [OF assms(1)]) simp
  moreover have "ev s FalseE = bit1 False" by (rule arch_hdl.ev_false [OF assms(1)])
  ultimately show ?thesis using assms(2) by (simp add: plic_reset_state_def holds_service_def spec_idle_def)
qed

text \<open>
  C28: The emitted interrupt logic implements the controller of the specification: from reset, for
  every sequence of register values, pulses and interrupt sources, it drives in every cycle the
  pending word, the delivered source and the interrupt line of every context as the machine of sets
  does, and its registers hold the state of that machine at the end.
\<close>

theorem plic_refines:
  assumes "arch_hdl ev nxt" and "plic_module model nm = Inr m" and "plic_fields_of model = Inr q"
    and "distinct (pending_hwif model q # map (claim_hwif model q) [0..<n_contexts model])"
    and "plic_reset_state ev (sources model) (n_contexts model) s"
    and "\<forall>\<sigma> \<in> set ins. plic_ports model q (sources model) (n_contexts model) \<sigma>"
  shows "outputs (logic_step ev nxt m (n_contexts model)) (logic_out ev m model q) s ins
      = outputs (spec_step (sources model)) (spec_out (sources model) (n_contexts model)) spec_idle (map (plic_input model q) ins)
    \<and> holds_service (sources model) (n_contexts model) (foldl (logic_step ev nxt m (n_contexts model)) s ins)
        (foldl (spec_step (sources model)) spec_idle (map (plic_input model q) ins))"
proof -
  have "plic_logic ev nxt model q nm m"
    by (intro plic_logic.intro plic_logic_axioms.intro assms(1-4))
  from plic_logic.logic_runs [OF this reset_idle [OF assms(1,5)] assms(6)] show ?thesis by blast
qed

text \<open>Context 0 of the small device claims source 2 in the first cycle.\<close>

lemma demo_eligible:
  "eligible 3 s (plic_input demo_plic demo_q (demo_plic_env cl rd wr wd)) 0 = {Suc 0, 2} - ps_service s 0"
  "eligible 3 s (plic_input demo_plic demo_q (demo_plic_env cl rd wr wd)) (Suc 0) = {Suc 0} - ps_service s (Suc 0)"
proof -
  have r: "{k \<in> {1..3}. P k} = {k. k = Suc 0 \<and> P (Suc 0) \<or> k = 2 \<and> P 2 \<or> k = 3 \<and> P 3}" for P :: "nat \<Rightarrow> bool"
  proof -
    have "{1..3} = {Suc 0, 2, 3}" by auto
    then show ?thesis by auto
  qed
  show "eligible 3 s (plic_input demo_plic demo_q (demo_plic_env cl rd wr wd)) 0 = {Suc 0, 2} - ps_service s 0"
    "eligible 3 s (plic_input demo_plic demo_q (demo_plic_env cl rd wr wd)) (Suc 0) = {Suc 0} - ps_service s (Suc 0)"
    unfolding eligible_def r by (auto simp: plic_input_def demo_plic_names demo_plic_env_def small_bits bit_0)
qed

lemma demo_plic_input:
  "pi_pending (plic_input demo_plic demo_q (demo_plic_env cl rd wr wd)) = 6"
  "pi_prio (plic_input demo_plic demo_q (demo_plic_env cl rd wr wd)) (Suc 0) = 2"
  "pi_prio (plic_input demo_plic demo_q (demo_plic_env cl rd wr wd)) 2 = 5"
  "pi_shown (plic_input demo_plic demo_q (demo_plic_env cl rd wr wd)) 0 = 2"
  "pi_claim (plic_input demo_plic demo_q (demo_plic_env cl rd wr wd)) 0 \<longleftrightarrow> rd \<noteq> 0"
  "\<not> pi_claim (plic_input demo_plic demo_q (demo_plic_env cl rd wr wd)) (Suc 0)"
  by (simp_all add: plic_input_def demo_plic_names demo_plic_env_def isset_def)

lemma max_rank: "max (Rank 2 (Suc 0)) (Rank 5 2) = Rank 5 2"
  by (simp add: max_def)

theorem plic_refines_witness:
  "outputs (logic_step arch_eval arch_next demo_plic_module 2) (logic_out arch_eval demo_plic_module demo_plic demo_q)
     (demo_plic_env 0 0 0 0) [demo_plic_env 0 1 0 0, demo_plic_env 0 0 0 0]
   = [(Some 6, [(Some 2, Some True), (Some 1, Some True)]), (Some 6, [(Some 1, Some True), (Some 1, Some True)])]"
proof -
  have env: "plic_ports demo_plic demo_q (sources demo_plic) (n_contexts demo_plic) (demo_plic_env 0 rd 0 0)" if "rd < 2" for rd
    using demo_plic_env [of 0 rd 0 0] that by (simp add: plic_env_def plic_ports_def)
  have m: "arch_eval (demo_plic_env 0 0 0 0) (mask_expr 3 0) = BV 4 0"
    using arch.ev_mask [of 0 3 "demo_plic_env 0 0 0 0"] by simp
  have reset: "plic_reset_state arch_eval (sources demo_plic) (n_contexts demo_plic) (demo_plic_env 0 0 0 0)"
    unfolding plic_reset_state_def demo_plic_names all_contexts m by (simp add: demo_plic_env_def ctx_prefix_def bit1_def)
  have "outputs (logic_step arch_eval arch_next demo_plic_module (n_contexts demo_plic)) (logic_out arch_eval demo_plic_module demo_plic demo_q)
      (demo_plic_env 0 0 0 0) [demo_plic_env 0 1 0 0, demo_plic_env 0 0 0 0]
    = outputs (spec_step 3) (spec_out 3 2) spec_idle
        (map (plic_input demo_plic demo_q) [demo_plic_env 0 1 0 0, demo_plic_env 0 0 0 0])"
    using plic_refines [OF arch.arch_hdl_axioms demo_plic_module demo_plic_names(1) demo_plic_distinct reset,
        of "[demo_plic_env 0 1 0 0, demo_plic_env 0 0 0 0]"] env
    unfolding demo_plic_names by simp
  moreover have two: "{Suc 0, 2} - {2} = {Suc 0}" by auto
  have "outputs (spec_step 3) (spec_out 3 2) spec_idle
        (map (plic_input demo_plic demo_q) [demo_plic_env 0 1 0 0, demo_plic_env 0 0 0 0]) = [(Some 6, [(Some 2, Some True), (Some 1, Some True)]), (Some 6, [(Some 1, Some True), (Some 1, Some True)])]"
    by (simp add: spec_out_def spec_step_def spec_idle_def delivered_def demo_eligible demo_plic_input shown_def
        max_rank two numeral_2_eq_2 [symmetric] upt_rec)
  ultimately show ?thesis unfolding demo_plic_names by simp
qed

end
