(* ===== verification/DeviceTypes.thy ===== *)
theory DeviceTypes
  imports CsrTypes PlicProps
begin

text \<open>
  The timer and interrupt logic against the register block beside them: the block, with its package, is
  generated by the third-party \<^verbatim>\<open>rdl2arch\<close>, so the package is a parameter. \<open>clint_block\<close> and \<open>plic_block\<close>
  say which members its two structs must have, and at which widths; against such a package the logic
  modules are well typed.
\<close>

section \<open>Declarations by name\<close>

text \<open>A module that declares no name twice declares no signal twice.\<close>

fun signal_name :: "aref \<Rightarrow> string" where
  "signal_name (Sig x) = x"
| "signal_name (Mem x m) = x"

lemma port_signal_names: "(r, w, k) \<in> set (port_decls ps x t) \<Longrightarrow> signal_name r = x"
proof -
  have "(r, w, k) \<in> set (handshake_decls x h) \<Longrightarrow> signal_name r = x" for h
    by (cases h) (auto simp: Let_def split: if_splits)
  then show "(r, w, k) \<in> set (port_decls ps x t) \<Longrightarrow> signal_name r = x"
    by (auto simp: port_decls_def Let_def split: option.splits if_splits)
qed

lemma item_signal_names: "(r, w, k) \<in> set (item_decls ps i) \<Longrightarrow> item_names i = [signal_name r]"
  by (cases i) (auto dest: port_signal_names split: option.splits)

lemma decls_distinct_by_name:
  "distinct (concat (map item_names is)) \<Longrightarrow> (\<And>i. i \<in> set is \<Longrightarrow> distinct (map fst (item_decls ps i))) \<Longrightarrow>
   distinct (map fst (concat (map (item_decls ps) is)))"
proof (induction "is")
  case (Cons i "is")
  have "set (map fst (item_decls ps i)) \<inter> set (map fst (concat (map (item_decls ps) is))) = {}"
  proof (rule ccontr)
    assume "\<not> ?thesis"
    then obtain r w k w' k' j where 1: "(r, w, k) \<in> set (item_decls ps i)" and 2: "j \<in> set is" "(r, w', k') \<in> set (item_decls ps j)"
      by fastforce
    from item_signal_names [OF 1] item_signal_names [OF 2(2)] 2(1) Cons.prems(1) show False by auto
  qed
  moreover have "distinct (map fst (concat (map (item_decls ps) is)))"
    using Cons.prems by (intro Cons.IH) auto
  moreover have "distinct (map fst (item_decls ps i))" using Cons.prems(2) by simp
  ultimately show ?case by simp
qed simp

text \<open>A struct of the package: the port declares its members.\<close>

definition has_struct :: "apackage \<Rightarrow> string \<Rightarrow> (string \<times> nat) list \<Rightarrow> bool" where
  "has_struct p st ms \<longleftrightarrow>
     type_name st \<and> first_some (struct_of st) (ap_items p) = Some ms \<and> distinct (map fst ms)"

lemma struct_decls_distinct: "distinct (map fst ms) \<Longrightarrow> distinct (map (fst \<circ> (\<lambda>(m, w). (Mem x m, w, k))) ms)"
  by (induction ms) (auto, force)

lemma struct_decl: "(m, w) \<in> set ms \<Longrightarrow> (Mem x m, w, k) \<in> (\<lambda>(m, w). (Mem x m, w, k)) ` set ms"
  by force

lemma port_decls_blank: "port_decls ps x (CHR '' '' # t) = port_decls ps x t"
  by (simp add: port_decls_def port_type_def first_word_def)

lemma struct_port_in: "has_struct p st ms \<Longrightarrow>
    port_decls (ap_items p) x (''in  '' @ st) = map (\<lambda>(m, w). (Mem x m, w, Input)) ms"
  using port_types(3) [of st] port_words(3) [of st]
  unfolding port_decls_blank [symmetric, of _ _ "''in  '' @ st"] port_decls_blank [symmetric, of _ _ "CHR '' '' # ''in  '' @ st"]
  by (simp add: port_decls_def has_struct_def type_nameD)

lemma struct_port_out: "has_struct p st ms \<Longrightarrow>
    port_decls (ap_items p) x (''out '' @ st) = map (\<lambda>(m, w). (Mem x m, w, Output)) ms"
  using port_types(4) [of st] port_words(4) [of st]
  unfolding port_decls_blank [symmetric, of _ _ "''out '' @ st"]
  by (simp add: port_decls_def has_struct_def type_nameD)

lemma bool_ports: "port_decls ps x ''in Bool'' = [(Sig x, 1, Input)]" "port_decls ps x ''out Bool'' = [(Sig x, 1, Output)]"
  "port_decls ps x ''in Clock<SysDomain>'' = []" "port_decls ps x ''in Reset<Async, Low>'' = []"
  using builtin_ports [of ps x] by (simp_all add: port_decls_blank)

lemma uint_ports:
  "port_decls ps x (''in '' @ render_ty (TUInt w)) = [(Sig x, w, Input)]"
  "port_decls ps x (''out '' @ render_ty (TUInt w)) = [(Sig x, w, Output)]"
proof -
  have u: "render_ty (TUInt w) = uint w" by (simp add: uint_def)
  have "port_decls ps x ('' in '' @ uint w) = [(Sig x, w, Input)]" "port_decls ps x ('' out '' @ uint w) = [(Sig x, w, Output)]"
    using uint_width [of w] port_types(1,4) [of "uint w"] port_words(1,4) [of "uint w"]
    by (simp_all add: scalar_port)
  then show "port_decls ps x (''in '' @ render_ty (TUInt w)) = [(Sig x, w, Input)]"
    "port_decls ps x (''out '' @ render_ty (TUInt w)) = [(Sig x, w, Output)]"
    unfolding u by (simp_all add: port_decls_blank)
qed

lemma lit_one: "(1::nat) < 2 ^ w \<Longrightarrow> lit_ok 16 w ''1''"
proof -
  have "''1'' = nat_hex 1" by code_simp
  then show "(1::nat) < 2 ^ w \<Longrightarrow> lit_ok 16 w ''1''" by simp
qed

section \<open>The timer\<close>

definition clint_block :: "apackage \<Rightarrow> clint_model \<Rightarrow> clint_names \<Rightarrow> (string \<times> nat) list \<Rightarrow> (string \<times> nat) list \<Rightarrow> bool" where
  "clint_block p model n outs ins \<longleftrightarrow>
     ap_name p = cm_package_name model
     \<and> has_struct p (cm_hwif_out_struct model) outs \<and> has_struct p (cm_hwif_in_struct model) ins
     \<and> {(cn_msip n, 1), (cn_cmp_lo n, 32), (cn_cmp_hi n, 32), (cn_time_lo n, 32), (cn_time_hi n, 32)} \<subseteq> set outs
     \<and> set ins = {(cn_time_lo n, 32), (cn_time_hi n, 32)} \<and> cn_time_lo n \<noteq> cn_time_hi n"

definition clint_decls :: "(string \<times> nat) list \<Rightarrow> (string \<times> nat) list \<Rightarrow> decl list" where
  "clint_decls outs ins =
     (Sig ''mtime_tick'', 1, Input)
     # map (\<lambda>(m, w). (Mem ''hwif_out'' m, w, Input)) outs @ map (\<lambda>(m, w). (Mem ''hwif_in'' m, w, Output)) ins
     @ [(Sig ''msip_out'', 1, Output), (Sig ''mtip_out'', 1, Output),
        (Sig ''mtime'', 64, Local), (Sig ''mtimecmp'', 64, Local), (Sig ''next_mtime'', 64, Local)]"

lemma clint_module_eq:
  "clint_module model nm = Inr m \<Longrightarrow> clint_names_of model = Inr n \<Longrightarrow>
   m = \<lparr>am_use = Some (cm_package_name model), am_name = nm, am_items = clint_items model n\<rparr>"
  by (simp add: clint_module_def)

lemma clint_module_decls:
  assumes "clint_module model nm = Inr m" and "clint_names_of model = Inr n" and "clint_block p model n outs ins"
  shows "module_decls p m = clint_decls outs ins"
proof -
  note structs = struct_port_in [of p "cm_hwif_out_struct model" outs] struct_port_out [of p "cm_hwif_in_struct model" ins]
  show ?thesis
    using assms(3) structs
    by (simp add: module_decls_def in_scope_def clint_module_eq [OF assms(1,2)] clint_block_def clint_items_def
        clint_decls_def port_decls_blank bool_ports)
qed

lemma clint_well_typed:
  assumes m: "clint_module model nm = Inr m" "clint_names_of model = Inr n" and b: "clint_block p model n outs ins"
  shows "well_typed p m"
proof -
  let ?ds = "clint_decls outs ins" and ?\<Gamma> = "module_env p m"
  note ds = clint_module_decls [OF m b]
  have items: "am_items m = clint_items model n" by (simp add: clint_module_eq [OF m])
  have names: "distinct (module_names m)" by (simp add: module_names_def items clint_items_def)
  have keys: "distinct (map fst outs)" "distinct (map fst ins)" using b by (simp_all add: clint_block_def has_struct_def)
  have dist: "distinct (map fst ?ds)"
    using keys by (auto simp: clint_decls_def struct_decls_distinct)
  have all: "\<forall>(r, w, k) \<in> set ?ds. ?\<Gamma> r = Some w"
    using module_env_decl [of p m] dist by (auto simp: ds)
  then have G: "(r, w, k) \<in> set ?ds \<Longrightarrow> ?\<Gamma> r = Some w" for r w k by blast
  have sigs: "?\<Gamma> (Sig ''mtime_tick'') = Some 1"
    by (rule G [where k = Input]) (simp add: clint_decls_def)
  have lets': "?\<Gamma> (Sig ''mtime'') = Some 64" "?\<Gamma> (Sig ''mtimecmp'') = Some 64" "?\<Gamma> (Sig ''next_mtime'') = Some 64"
    by (rule G [where k = Local], simp add: clint_decls_def)+
  have lines: "?\<Gamma> (Sig ''msip_out'') = Some 1" "?\<Gamma> (Sig ''mtip_out'') = Some 1"
    by (rule G [where k = Output], simp add: clint_decls_def)+
  have mem: "(x, w) \<in> set outs \<Longrightarrow> ?\<Gamma> (Mem ''hwif_out'' x) = Some w" "(x, w) \<in> set ins \<Longrightarrow> ?\<Gamma> (Mem ''hwif_in'' x) = Some w" for x w
    by (rule G [where k = Input], simp add: clint_decls_def struct_decl)
      (rule G [where k = Output], simp add: clint_decls_def struct_decl)
  have members: "?\<Gamma> (Mem ''hwif_out'' (cn_msip n)) = Some 1" "?\<Gamma> (Mem ''hwif_out'' (cn_cmp_lo n)) = Some 32"
    "?\<Gamma> (Mem ''hwif_out'' (cn_cmp_hi n)) = Some 32" "?\<Gamma> (Mem ''hwif_out'' (cn_time_lo n)) = Some 32"
    "?\<Gamma> (Mem ''hwif_out'' (cn_time_hi n)) = Some 32" "?\<Gamma> (Mem ''hwif_in'' (cn_time_lo n)) = Some 32"
    "?\<Gamma> (Mem ''hwif_in'' (cn_time_hi n)) = Some 32"
    using b by (auto simp: clint_block_def intro!: mem)
  have lit: "lit_ok 16 64 ''1''" by (rule lit_one) simp
  have typed: "list_all (item_typed ps ?\<Gamma> regs) (am_items m)" for ps regs
    using members sigs lets' lines lit by (simp add: items clint_items_def)
  have lets: "lets_ok (am_items m)" by (simp add: items clint_items_def)
  have drives: "map fst (module_drives m) = [Mem ''hwif_in'' (cn_time_lo n), Mem ''hwif_in'' (cn_time_hi n), Sig ''msip_out'', Sig ''mtip_out'']"
    by (simp add: module_drives_def items clint_items_def)
  have outs: "set (refs_of Output ?ds) = {Sig ''msip_out'', Sig ''mtip_out''} \<union> Mem ''hwif_in'' ` fst ` set ins"
    by (auto simp: clint_decls_def)
  have "fst ` set ins = {cn_time_lo n, cn_time_hi n}" and "cn_time_lo n \<noteq> cn_time_hi n" using b by (auto simp: clint_block_def)
  then show ?thesis
    unfolding well_typed_def Let_def ds
    using names dist lets typed by (auto simp: drives outs)
qed

section \<open>The interrupt controller\<close>

text \<open>
  The input struct has the pending word and one claim member per context, and nothing else; the output
  struct has the members the arbitration reads, with three-bit priorities and enables wide enough for
  all sources. The pulses are named after the claim registers, which therefore need different names.
\<close>

definition plic_block :: "apackage \<Rightarrow> plic_model \<Rightarrow> plic_fields \<Rightarrow> (string \<times> nat) list \<Rightarrow> (string \<times> nat) list \<Rightarrow> bool" where
  "plic_block p model q outs ins \<longleftrightarrow>
     (let n = sources model; n_ctx = n_contexts model in
      ap_name p = pm_package_name model
      \<and> has_struct p (pm_hwif_out_struct model) outs \<and> has_struct p (pm_hwif_in_struct model) ins
      \<and> distinct (pending_hwif model q # map (claim_hwif model q) [0..<n_ctx])
      \<and> distinct (map rn_inst_name (pm_claims model))
      \<and> set ins = set ((pending_hwif model q, n + 1) # map (\<lambda>ctx. (claim_hwif model q ctx, id_w n)) [0..<n_ctx])
      \<and> (\<forall>i \<in> {1..n}. (prio_hwif model q i, prio_w) \<in> set outs)
      \<and> (\<forall>ctx < n_ctx. (threshold_hwif model q ctx, prio_w) \<in> set outs \<and> (claim_hwif model q ctx, id_w n) \<in> set outs
           \<and> (\<exists>w > n. (enable_hwif model q ctx, w) \<in> set outs)))"

lemma context_lets_shape: "i \<in> set (context_lets model q n ctx) \<Longrightarrow> \<exists>x k t e. i = LetI x k t e"
  by (auto simp: context_lets_def cand_let_def first_lets_def cascade_lets_def mask_lets_def)

text \<open>The names of a list of \<^verbatim>\<open>let\<close>s that are bound before use are distinct.\<close>

lemma lets_names:
  "\<forall>i \<in> set is. \<exists>x k t e. i = LetI x k t e \<Longrightarrow> lets_ok is \<Longrightarrow>
   distinct (concat (map item_names is)) \<and> set (concat (map item_names is)) = item_lets is"
proof (induction "is")
  case (Cons i "is")
  then obtain x k t e where "i = LetI x k t e" by auto
  with Cons show ?case by simp
qed simp

definition block_names :: "plic_model \<Rightarrow> nat \<Rightarrow> string list" where
  "block_names model ctx = [claim_read_pulse model ctx, claim_write_pulse model ctx]"

definition state_names :: "nat \<Rightarrow> string list" where
  "state_names ctx = [ctx_sig ctx ''_claimed_r'', ctx_sig ctx ''_wr_pulse_d'']"

definition port_heads :: "string list" where
  "port_heads = [''clk'', ''rst'', ''source_in'', ''hwif_out'', ''hwif_in'', ''intr_out'']"

lemma no_prefix: "ctx_prefix c @ CHR ''_'' # r \<noteq> ''clk''"
  using nat_dec_chars [of "CHR ''l''" c] nat_dec_nonempty [of c]
  by (cases "nat_dec c") (auto simp: ctx_prefix_def)

lemma plic_module_names:
  "concat (map item_names (plic_items model q n n_ctx)) =
     port_heads @ concat (map (block_names model) [0..<n_ctx]) @ concat (map state_names [0..<n_ctx])
     @ concat (map (\<lambda>ctx. concat (map item_names (context_lets model q n ctx))) [0..<n_ctx])"
proof -
  have "concat (map item_names (concat (map f cs))) = concat (map (\<lambda>c. concat (map item_names (f c))) cs)"
    for f and cs :: "nat list"
    by (induction cs) simp_all
  then show ?thesis
    by (simp add: plic_items_def port_heads_def block_names_def [abs_def] state_names_def [abs_def] context_items_def)
qed

lemma pulse_suffix: "claim_read_pulse model c \<noteq> claim_write_pulse model c'"
proof
  assume "claim_read_pulse model c = claim_write_pulse model c'"
  then have "rev (claim_read_pulse model c) = rev (claim_write_pulse model c')" by simp
  then show False by (simp add: claim_read_pulse_def claim_write_pulse_def)
qed

lemma distinct_concat_upt:
  "(\<And>c. c < n \<Longrightarrow> distinct (f c)) \<Longrightarrow> (\<And>c d x. c < n \<Longrightarrow> d < n \<Longrightarrow> x \<in> set (f c) \<Longrightarrow> x \<in> set (f d) \<Longrightarrow> c = d) \<Longrightarrow>
   distinct (concat (map f [0..<n]))"
proof (induction n)
  case (Suc n)
  have "distinct (concat (map f [0..<n]))" by (rule Suc.IH) (use Suc.prems in auto)
  moreover have "set (concat (map f [0..<n])) \<inter> set (f n) = {}"
  proof (rule ccontr)
    assume "\<not> ?thesis"
    then obtain c x where "c < n" "x \<in> set (f c)" "x \<in> set (f n)" by auto
    with Suc.prems(2) [of c n x] show False by simp
  qed
  ultimately show ?case using Suc.prems(1) by simp
qed simp

lemma in_concat_map: "x \<in> set (concat (map f [0..<n])) \<Longrightarrow> (\<And>c. x \<in> set (f c) \<Longrightarrow> P) \<Longrightarrow> P"
  by auto

lemma plic_names_distinct:
  assumes "length (pm_claims model) = n_ctx" and inst: "distinct (map rn_inst_name (pm_claims model))"
  shows "distinct (concat (map item_names (plic_items model q n n_ctx)))"
proof -
  let ?lets = "\<lambda>ctx. concat (map item_names (context_lets model q n ctx))"
  have inj: "c = d" if "c < n_ctx" "d < n_ctx" "rn_inst_name (pm_claims model ! c) = rn_inst_name (pm_claims model ! d)" for c d
    using inst that assms(1) by (metis distinct_conv_nth length_map nth_map)
  have pulses: "distinct (concat (map (block_names model) [0..<n_ctx]))"
  proof (rule distinct_concat_upt)
    show "distinct (block_names model c)" for c using pulse_suffix by (simp add: block_names_def)
    show "c = d" if "c < n_ctx" "d < n_ctx" "x \<in> set (block_names model c)" "x \<in> set (block_names model d)" for c d x
      using that pulse_suffix [of model c d] pulse_suffix [of model d c] inj [OF that(1,2)]
      by (auto simp: block_names_def claim_read_pulse_def claim_write_pulse_def)
  qed
  have states: "distinct (concat (map state_names [0..<n_ctx]))"
    by (rule distinct_concat_upt) (auto simp: state_names_def)
  have L: "distinct (?lets c)" "set (?lets c) = item_lets (context_lets model q n c)" for c
    using lets_names [of "context_lets model q n c"] context_lets_shape context_lets_ok by blast+
  have lets: "distinct (concat (map ?lets [0..<n_ctx]))"
    by (rule distinct_concat_upt) (use L ctx_name_unique context_lets_names in \<open>blast\<close>)+
  have ctx: "ctx_name c x" if "x \<in> set (?lets c)" for c x using that unfolding L by (rule context_lets_names)
  have pulse: "outer_name x \<and> last x = CHR ''e''" if "x \<in> set (block_names model c)" for c x
    using that by (auto simp: block_names_def) (simp_all add: claim_read_pulse_def claim_write_pulse_def)
  have state: "(\<exists>r. x = ctx_prefix c @ CHR ''_'' # r) \<and> last x \<in> {CHR ''r'', CHR ''d''} \<and> \<not> ctx_name d x"
    if "x \<in> set (state_names c)" for c d x
    using that by (auto simp: state_names_def)
  have heads: "last x \<noteq> CHR ''e'' \<and> (\<forall>c r. x \<noteq> ctx_prefix c @ CHR ''_'' # r)" if "x \<in> set port_heads" for x
    using that no_prefix [symmetric] by (auto simp: port_heads_def) (simp_all add: ctx_prefix_def)
  let ?P = "concat (map (block_names model) [0..<n_ctx])" and ?S = "concat (map state_names [0..<n_ctx])"
    and ?L = "concat (map ?lets [0..<n_ctx])"
  have P: "outer_name x \<and> last x = CHR ''e''" if "x \<in> set ?P" for x
    using that pulse by (elim in_concat_map) blast
  have S: "(\<exists>c r. x = ctx_prefix c @ CHR ''_'' # r) \<and> last x \<noteq> CHR ''e'' \<and> (\<forall>d. \<not> ctx_name d x)" if "x \<in> set ?S" for x
    using that
  proof (elim in_concat_map)
    fix c assume "x \<in> set (state_names c)"
    from state [OF this] have "(\<exists>r. x = ctx_prefix c @ CHR ''_'' # r)" "last x \<in> {CHR ''r'', CHR ''d''}"
      "\<forall>d. \<not> ctx_name d x" by blast+
    then show ?thesis by auto
  qed
  have C: "\<exists>c. ctx_name c x \<and> (\<exists>r. x = ctx_prefix c @ CHR ''_'' # r)" if "x \<in> set ?L" for x
    using that ctx ctx_name_prefix by (elim in_concat_map) blast
  have "set ?P \<inter> (set ?S \<union> set ?L) = {}" "set ?S \<inter> set ?L = {}"
    using P S C ctx_name_not_outer by blast+
  moreover have "set port_heads \<inter> (set ?P \<union> (set ?S \<union> set ?L)) = {}"
    using heads P S C by blast
  moreover have "distinct port_heads" by (simp add: port_heads_def)
  ultimately show ?thesis
    unfolding plic_module_names distinct_append set_append
    using pulses states lets by blast
qed


definition plic_port_items :: "plic_model \<Rightarrow> nat \<Rightarrow> nat \<Rightarrow> aitem list" where
  "plic_port_items model n n_ctx =
     [PortI ''clk'' '' in Clock<SysDomain>'', PortI ''rst'' '' in Reset<Async, Low>'',
      PortI ''source_in'' ('' in '' @ render_ty (TUInt (n + 1))),
      PortI ''hwif_out'' (''  in  '' @ pm_hwif_out_struct model),
      PortI ''hwif_in'' (''   out '' @ pm_hwif_in_struct model),
      PortI ''intr_out'' (''  out '' @ render_ty (TUInt n_ctx))]
     @ concat (map (\<lambda>ctx. [PortI (claim_read_pulse model ctx) ''  in Bool'',
                            PortI (claim_write_pulse model ctx) '' in Bool'']) [0..<n_ctx])"

lemma plic_items_parts: "plic_items model q n n_ctx =
     plic_port_items model n n_ctx @ [Blank, DefaultSeq, Blank]
     @ concat (map (\<lambda>ctx. [RegI (ctx_sig ctx ''_claimed_r'') (TUInt (n + 1)) (mask_expr n 0),
                            RegI (ctx_sig ctx ''_wr_pulse_d'') TBool FalseE]) [0..<n_ctx])
     @ [Blank] @ concat (map (context_items model q n) [0..<n_ctx])
     @ [SeqI (concat (map (context_stmts model) [0..<n_ctx])), Blank, CombI (plic_drives model q n n_ctx)]"
  unfolding plic_items_def plic_port_items_def by (simp only: append.simps append_assoc)

lemma plic_item_cases:
  assumes "i \<in> set (plic_items model q n n_ctx)"
  obtains (port) "i \<in> set (plic_port_items model n n_ctx)" | (layout) "i \<in> {Blank, DefaultSeq}" | (comment) c where "i = CommentI c"
  | (claimed) ctx where "ctx < n_ctx" "i = RegI (ctx_sig ctx ''_claimed_r'') (TUInt (n + 1)) (mask_expr n 0)"
  | (delayed) ctx where "ctx < n_ctx" "i = RegI (ctx_sig ctx ''_wr_pulse_d'') TBool FalseE"
  | (lets) ctx where "ctx < n_ctx" "i \<in> set (context_lets model q n ctx)"
  | (edge) "i = SeqI (concat (map (context_stmts model) [0..<n_ctx]))" | (drive) "i = CombI (plic_drives model q n n_ctx)"
  using assms by (auto simp: plic_items_parts context_items_def)

text \<open>The widths the interrupt logic is typed with.\<close>

definition plic_tenv :: "tenv \<Rightarrow> plic_model \<Rightarrow> plic_fields \<Rightarrow> nat \<Rightarrow> nat \<Rightarrow> bool" where
  "plic_tenv \<Gamma> model q n ctx \<longleftrightarrow>
     \<Gamma> (Sig ''source_in'') = Some (n + 1)
     \<and> (\<exists>w > n. \<Gamma> (Mem ''hwif_out'' (enable_hwif model q ctx)) = Some w)
     \<and> \<Gamma> (Mem ''hwif_out'' (threshold_hwif model q ctx)) = Some prio_w
     \<and> \<Gamma> (Mem ''hwif_out'' (claim_hwif model q ctx)) = Some (id_w n)
     \<and> (\<forall>i \<in> {1..n}. \<Gamma> (Mem ''hwif_out'' (prio_hwif model q i)) = Some prio_w)
     \<and> \<Gamma> (Sig (claim_read_pulse model ctx)) = Some 1 \<and> \<Gamma> (Sig (claim_write_pulse model ctx)) = Some 1
     \<and> \<Gamma> (Sig (ctx_sig ctx ''_claimed_r'')) = Some (n + 1) \<and> \<Gamma> (Sig (ctx_sig ctx ''_wr_pulse_d'')) = Some 1
     \<and> (\<forall>x k t e. LetI x k t e \<in> set (context_lets model q n ctx) \<longrightarrow> \<Gamma> (Sig x) = Some (ty_width t))"

lemma context_let_mem:
  "1 \<le> i \<Longrightarrow> i \<le> n \<Longrightarrow> cand_let model q ctx i \<in> set (context_lets model q n ctx)"
  "j \<in> set (first_lets model q n ctx) \<Longrightarrow> j \<in> set (context_lets model q n ctx)"
  "2 \<le> i \<Longrightarrow> i \<le> n \<Longrightarrow> j \<in> set (cascade_lets model q n ctx i) \<Longrightarrow> j \<in> set (context_lets model q n ctx)"
  "j \<in> set (mask_lets model q n ctx) \<Longrightarrow> j \<in> set (context_lets model q n ctx)"
  by (auto simp: context_lets_def simp del: upt_Suc)

lemma plic_tenv_lets:
  assumes "plic_tenv \<Gamma> model q n ctx"
  shows "1 \<le> i \<Longrightarrow> i \<le> n \<Longrightarrow> \<Gamma> (Sig (cand_name ctx i)) = Some 1"
    and "1 \<le> i \<Longrightarrow> i \<le> n \<Longrightarrow> \<Gamma> (Sig (w_name ctx i ''_id'')) = Some (id_w n)"
    and "1 \<le> i \<Longrightarrow> i \<le> n \<Longrightarrow> \<Gamma> (Sig (w_name ctx i ''_prio'')) = Some prio_w"
    and "2 \<le> i \<Longrightarrow> i \<le> n \<Longrightarrow> \<Gamma> (Sig (w_name ctx i ''_take'')) = Some 1"
    and "\<Gamma> (Sig (ctx_sig ctx ''_set_bit'')) = Some (n + 1)" and "\<Gamma> (Sig (ctx_sig ctx ''_set_mask'')) = Some (n + 1)"
    and "\<Gamma> (Sig (ctx_sig ctx ''_clr_bit'')) = Some (n + 1)" and "\<Gamma> (Sig (ctx_sig ctx ''_clr_mask'')) = Some (n + 1)"
proof -
  have L: "LetI x k t e \<in> set (context_lets model q n ctx) \<Longrightarrow> \<Gamma> (Sig x) = Some (ty_width t)" for x k t e
    using assms unfolding plic_tenv_def by blast
  show "\<Gamma> (Sig (cand_name ctx i)) = Some 1" if "1 \<le> i" "i \<le> n"
    using L [OF context_let_mem(1) [OF that, unfolded cand_let_def]] by simp
  have F: "\<Gamma> (Sig x) = Some (ty_width t)" if "LetI x k t e \<in> set (first_lets model q n ctx)" for x k t e
    using L [OF context_let_mem(2) [OF that]] .
  have C: "\<Gamma> (Sig x) = Some (ty_width t)" if "2 \<le> i" "i \<le> n" "LetI x k t e \<in> set (cascade_lets model q n ctx i)" for x k t e
    using L [OF context_let_mem(3) [OF that]] .
  show "\<Gamma> (Sig (w_name ctx i ''_id'')) = Some (id_w n)" if "1 \<le> i" "i \<le> n"
  proof (cases "i = 1")
    case True
    then show ?thesis using F [of "w_name ctx 1 ''_id''" 3 "TUInt (id_w n)"] by (simp add: first_lets_def)
  next
    case False
    with that have "2 \<le> i" by simp
    from C [OF this that(2), of "w_name ctx i ''_id''" 3 "TUInt (id_w n)"] show ?thesis by (simp add: cascade_lets_def)
  qed
  show "\<Gamma> (Sig (w_name ctx i ''_prio'')) = Some prio_w" if "1 \<le> i" "i \<le> n"
  proof (cases "i = 1")
    case True
    then show ?thesis using F [of "w_name ctx 1 ''_prio''" 1 "TUInt prio_w"] by (simp add: first_lets_def)
  next
    case False
    with that have "2 \<le> i" by simp
    from C [OF this that(2), of "w_name ctx i ''_prio''" 1 "TUInt prio_w"] show ?thesis by (simp add: cascade_lets_def)
  qed
  show "\<Gamma> (Sig (w_name ctx i ''_take'')) = Some 1" if "2 \<le> i" "i \<le> n"
    using C [OF that, of "w_name ctx i ''_take''" 1 TBool] by (simp add: cascade_lets_def)
  have M: "\<Gamma> (Sig x) = Some (n + 1)" if "LetI x k (TUInt (n + 1)) e \<in> set (mask_lets model q n ctx)" for x k e
    using L [OF context_let_mem(4) [OF that]] by simp
  show "\<Gamma> (Sig (ctx_sig ctx ''_set_bit'')) = Some (n + 1)" "\<Gamma> (Sig (ctx_sig ctx ''_set_mask'')) = Some (n + 1)"
    "\<Gamma> (Sig (ctx_sig ctx ''_clr_bit'')) = Some (n + 1)" "\<Gamma> (Sig (ctx_sig ctx ''_clr_mask'')) = Some (n + 1)"
    by (rule M, simp add: mask_lets_def)+
qed

lemma plic_literals:
  "synth \<Gamma> (zero_id n) = Some (id_w n)" "v < 2 ^ (n + 1) \<Longrightarrow> synth \<Gamma> (mask_expr n v) = Some (n + 1)"
  "i \<le> n \<Longrightarrow> synth \<Gamma> (HexLit (id_w n) (nat_hex i)) = Some (id_w n)"
  "1 \<le> n \<Longrightarrow> synth \<Gamma> (HexLit (id_w n) ''1'') = Some (id_w n)"
  using id_w_bound [of i n] id_w_bound [of 1 n] by (simp_all add: zero_id_def mask_expr_def lit_one)

lemma bit_expr_width:
  assumes "plic_tenv \<Gamma> model q n ctx"
  shows "synth \<Gamma> (bit_expr model q n ctx) = Some (n + 1)"
proof -
  have "fits \<Gamma> (HexLit (id_w n) (nat_hex i)) (id_w n)" "synth \<Gamma> (mask_expr n (push_bit i 1)) = Some (n + 1)" if "i \<le> n" for i
    using synth_fits [OF plic_literals(3) [OF that]] plic_literals(2) [OF push_bit_less [OF that]] by blast+
  moreover have "synth \<Gamma> (mask_expr n 0) = Some (n + 1)" by (rule plic_literals(2)) simp
  ultimately show ?thesis
    using assms by (auto simp: plic_tenv_def bit_expr_def list_all_iff simp del: upt_Suc fits.simps push_bit_of_1)
qed

lemma context_lets_typed:
  assumes env: "plic_tenv \<Gamma> model q n ctx" and n: "1 \<le> n" and mem: "i \<in> set (context_lets model q n ctx)"
  shows "item_typed ps \<Gamma> regs i"
proof -
  note T = plic_tenv_lets [OF env] and bits = bit_expr_width [OF env]
  note lits = plic_literals [where \<Gamma> = \<Gamma> and n = n]
  have zero: "synth \<Gamma> (mask_expr n 0) = Some (n + 1)" by (rule lits(2)) simp
  have prios: "1 \<le> k \<Longrightarrow> k \<le> n \<Longrightarrow> \<Gamma> (Mem ''hwif_out'' (prio_hwif model q k)) = Some prio_w" for k
    using env by (simp add: plic_tenv_def)
  from mem consider k where "1 \<le> k" "k \<le> n" "i = cand_let model q ctx k"
    | "i \<in> set (first_lets model q n ctx)"
    | k where "2 \<le> k" "k \<le> n" "i \<in> set (cascade_lets model q n ctx k)"
    | "i \<in> set (mask_lets model q n ctx)"
    by (auto simp: context_lets_def simp del: upt_Suc)
  then show ?thesis
  proof cases
    case 1
    have "lit_ok 2 (Suc 0) ''0''" by code_simp
    with 1 show ?thesis using env by (auto simp: plic_tenv_def cand_let_def cand_expr_def)
  next
    case 2
    then show ?thesis using env n T(1) [of 1] lits(1,4) by (auto simp: first_lets_def plic_tenv_def synth_fits)
  next
    case 3
    then show ?thesis
      using T(1,4) [of k] T(2,3) [of "k - 1"] prios lits(1) lits(3) [of k]
      by (auto simp: cascade_lets_def synth_fits simp del: synth.simps(2))
  next
    case 4
    then show ?thesis using env zero bits T(5-8) by (auto simp: mask_lets_def plic_tenv_def synth_fits)
  qed
qed


text \<open>The declarations, found through the items that make them.\<close>

lemma plic_module_eq:
  "plic_module model nm = Inr m \<Longrightarrow> plic_fields_of model = Inr q \<Longrightarrow>
   m = \<lparr>am_use = Some (pm_package_name model), am_name = nm, am_items = plic_items model q (sources model) (n_contexts model)\<rparr>"
  by (simp add: plic_module_def sources_def)

lemma plic_counts:
  assumes "plic_fields_of model = Inr q"
  shows "1 \<le> sources model" and "length (pm_claims model) = n_contexts model"
  using assms by (auto simp: plic_fields_of_def plic_check_def sources_def split: if_splits)

lemma plic_port_decls:
  assumes b: "plic_block p model q outs ins"
  defines "D \<equiv> \<lambda>x t. port_decls (ap_items p) x t"
  shows "D ''source_in'' ('' in '' @ render_ty (TUInt w)) = [(Sig ''source_in'', w, Input)]"
    and "D ''hwif_out'' (''  in  '' @ pm_hwif_out_struct model) = map (\<lambda>(m, w). (Mem ''hwif_out'' m, w, Input)) outs"
    and "D ''hwif_in'' (''   out '' @ pm_hwif_in_struct model) = map (\<lambda>(m, w). (Mem ''hwif_in'' m, w, Output)) ins"
    and "D ''intr_out'' (''  out '' @ render_ty (TUInt w)) = [(Sig ''intr_out'', w, Output)]"
    and "D x ''  in Bool'' = [(Sig x, 1, Input)]"
  using b struct_port_in [of p "pm_hwif_out_struct model" outs] struct_port_out [of p "pm_hwif_in_struct model" ins]
    uint_ports [of "ap_items p"]
  by (simp_all add: D_def plic_block_def Let_def port_decls_blank bool_ports)

lemma plic_decls_mem:
  assumes b: "plic_block p model q outs ins" and m: "plic_module model nm = Inr m" "plic_fields_of model = Inr q"
  shows "(Sig ''source_in'', sources model + 1, Input) \<in> set (module_decls p m)"
    and "(Sig ''intr_out'', n_contexts model, Output) \<in> set (module_decls p m)"
    and "(x, w) \<in> set outs \<Longrightarrow> (Mem ''hwif_out'' x, w, Input) \<in> set (module_decls p m)"
    and "(x, w) \<in> set ins \<Longrightarrow> (Mem ''hwif_in'' x, w, Output) \<in> set (module_decls p m)"
    and "ctx < n_contexts model \<Longrightarrow> (Sig (claim_read_pulse model ctx), 1, Input) \<in> set (module_decls p m)"
    and "ctx < n_contexts model \<Longrightarrow> (Sig (claim_write_pulse model ctx), 1, Input) \<in> set (module_decls p m)"
    and "ctx < n_contexts model \<Longrightarrow> (Sig (ctx_sig ctx ''_claimed_r''), sources model + 1, Register) \<in> set (module_decls p m)"
    and "ctx < n_contexts model \<Longrightarrow> (Sig (ctx_sig ctx ''_wr_pulse_d''), 1, Register) \<in> set (module_decls p m)"
    and "ctx < n_contexts model \<Longrightarrow> LetI y k t e \<in> set (context_lets model q (sources model) ctx) \<Longrightarrow>
      (Sig y, ty_width t, Local) \<in> set (module_decls p m)"
proof -
  note eq = plic_module_eq [OF m]
  let ?n = "sources model" and ?c = "n_contexts model"
  have scope: "in_scope p m = ap_items p" using b by (simp add: in_scope_def eq plic_block_def Let_def)
  have D: "i \<in> set (plic_items model q ?n ?c) \<Longrightarrow> t \<in> set (item_decls (ap_items p) i) \<Longrightarrow> t \<in> set (module_decls p m)" for i t
    using decls_of_item [of i m t p] unfolding scope by (simp add: eq)
  note P = plic_port_decls [OF b]
  show "(Sig ''source_in'', sources model + 1, Input) \<in> set (module_decls p m)"
    by (rule D [of "PortI ''source_in'' ('' in '' @ render_ty (TUInt (?n + 1)))"])
      (simp add: plic_items_def, simp only: item_decls.simps P list.set insertI1)
  show "(Sig ''intr_out'', n_contexts model, Output) \<in> set (module_decls p m)"
    by (rule D [of "PortI ''intr_out'' (''  out '' @ render_ty (TUInt ?c))"])
      (simp add: plic_items_def, simp only: item_decls.simps P list.set insertI1)
  show "(x, w) \<in> set outs \<Longrightarrow> (Mem ''hwif_out'' x, w, Input) \<in> set (module_decls p m)"
    by (rule D [of "PortI ''hwif_out'' (''  in  '' @ pm_hwif_out_struct model)"])
      (simp add: plic_items_def, simp only: item_decls.simps P set_map struct_decl)
  show "(x, w) \<in> set ins \<Longrightarrow> (Mem ''hwif_in'' x, w, Output) \<in> set (module_decls p m)"
    by (rule D [of "PortI ''hwif_in'' (''   out '' @ pm_hwif_in_struct model)"])
      (simp add: plic_items_def, simp only: item_decls.simps P set_map struct_decl)
  show "(Sig (claim_read_pulse model ctx), 1, Input) \<in> set (module_decls p m)" if "ctx < ?c"
    by (rule D [of "PortI (claim_read_pulse model ctx) ''  in Bool''"])
      (use that in \<open>auto simp: plic_items_def P(5) [simplified]\<close>)
  show "(Sig (claim_write_pulse model ctx), 1, Input) \<in> set (module_decls p m)" if "ctx < ?c"
    by (rule D [of "PortI (claim_write_pulse model ctx) '' in Bool''"])
      (use that in \<open>auto simp: plic_items_def\<close>)
  show "(Sig (ctx_sig ctx ''_claimed_r''), ?n + 1, Register) \<in> set (module_decls p m)" if "ctx < ?c"
    by (rule D [of "RegI (ctx_sig ctx ''_claimed_r'') (TUInt (?n + 1)) (mask_expr ?n 0)"])
      (use that in \<open>auto simp: plic_items_def\<close>)
  show "(Sig (ctx_sig ctx ''_wr_pulse_d''), 1, Register) \<in> set (module_decls p m)" if "ctx < ?c"
    by (rule D [of "RegI (ctx_sig ctx ''_wr_pulse_d'') TBool FalseE"])
      (use that in \<open>auto simp: plic_items_def\<close>)
  show "(Sig y, ty_width t, Local) \<in> set (module_decls p m)"
    if "ctx < ?c" "LetI y k t e \<in> set (context_lets model q ?n ctx)"
    by (rule D [of "LetI y k t e"]) (use that in \<open>auto simp: plic_items_def context_items_def\<close>)
qed


lemma plic_port_item_decls:
  assumes b: "plic_block p model q outs ins" and i: "i \<in> set (plic_port_items model n n_ctx)"
  shows "item_decls (ap_items p) i \<in> {[], map (\<lambda>(m, w). (Mem ''hwif_out'' m, w, Input)) outs,
      map (\<lambda>(m, w). (Mem ''hwif_in'' m, w, Output)) ins, [(Sig ''intr_out'', n_ctx, Output)]}
    \<or> (\<exists>x w. item_decls (ap_items p) i = [(Sig x, w, Input)])"
proof -
  define Q where "Q i \<longleftrightarrow> item_decls (ap_items p) i \<in> {[], map (\<lambda>(m, w). (Mem ''hwif_out'' m, w, Input)) outs,
      map (\<lambda>(m, w). (Mem ''hwif_in'' m, w, Output)) ins, [(Sig ''intr_out'', n_ctx, Output)]}
    \<or> (\<exists>x w. item_decls (ap_items p) i = [(Sig x, w, Input)])" for i
  note P = plic_port_decls [OF b]
  have pulses: "list_all Q (concat (map (\<lambda>ctx. [PortI (f ctx) ''  in Bool'', PortI (g ctx) '' in Bool'']) cs))"
    for f g and cs :: "nat list"
  proof (induction cs)
    case (Cons c cs)
    have "Q (PortI (f c) ''  in Bool'')" "Q (PortI (g c) '' in Bool'')"
      unfolding Q_def item_decls.simps P builtin_ports by blast+
    with Cons show ?case by simp
  qed simp
  have "list_all Q [PortI ''clk'' '' in Clock<SysDomain>'', PortI ''rst'' '' in Reset<Async, Low>'',
      PortI ''source_in'' ('' in '' @ render_ty (TUInt (n + 1))),
      PortI ''hwif_out'' (''  in  '' @ pm_hwif_out_struct model),
      PortI ''hwif_in'' (''   out '' @ pm_hwif_in_struct model),
      PortI ''intr_out'' (''  out '' @ render_ty (TUInt n_ctx))]"
    by (simp only: list.pred_inject simp_thms Q_def item_decls.simps P builtin_ports) blast
  with pulses i show ?thesis
    unfolding plic_port_items_def Q_def [symmetric] by (simp only: list_all_iff set_append ball_Un) blast
qed

lemma plic_decls_distinct:
  assumes b: "plic_block p model q outs ins" and m: "plic_module model nm = Inr m" "plic_fields_of model = Inr q"
  shows "distinct (map fst (module_decls p m))" and "distinct (module_names m)"
proof -
  note eq = plic_module_eq [OF m]
  have scope: "in_scope p m = ap_items p" using b by (simp add: in_scope_def eq plic_block_def Let_def)
  have inst: "distinct (map rn_inst_name (pm_claims model))" and keys: "distinct (map fst outs)" "distinct (map fst ins)"
    using b by (simp_all add: plic_block_def has_struct_def Let_def)
  show names: "distinct (module_names m)"
    unfolding module_names_def eq using plic_names_distinct [OF plic_counts(2) [OF m(2)] inst] by simp
  have "distinct (map fst (item_decls (ap_items p) i))" if "i \<in> set (plic_items model q (sources model) (n_contexts model))" for i
    using that
  proof (cases rule: plic_item_cases)
    case port
    from plic_port_item_decls [OF b this] show ?thesis
      using keys struct_decls_distinct by (elim disjE insertE emptyE exE) simp_all
  next
    case (lets ctx)
    then show ?thesis by (auto dest: context_lets_shape)
  qed auto
  with names show "distinct (map fst (module_decls p m))"
    unfolding module_decls_def module_names_def scope by (intro decls_distinct_by_name) (simp_all add: eq)
qed

lemma plic_output_decls:
  assumes b: "plic_block p model q outs ins" and m: "plic_module model nm = Inr m" "plic_fields_of model = Inr q"
  shows "set (refs_of Output (module_decls p m)) = insert (Sig ''intr_out'') (Mem ''hwif_in'' ` fst ` set ins)"
proof
  note eq = plic_module_eq [OF m]
  have scope: "in_scope p m = ap_items p" using b by (simp add: in_scope_def eq plic_block_def Let_def)
  show "insert (Sig ''intr_out'') (Mem ''hwif_in'' ` fst ` set ins) \<subseteq> set (refs_of Output (module_decls p m))"
    using plic_decls_mem(2,4) [OF b m] by (force simp: refs_of_def)
  show "set (refs_of Output (module_decls p m)) \<subseteq> insert (Sig ''intr_out'') (Mem ''hwif_in'' ` fst ` set ins)"
  proof
    fix r assume "r \<in> set (refs_of Output (module_decls p m))"
    then obtain w where "(r, w, Output) \<in> set (module_decls p m)" by (auto simp: refs_of_def)
    then obtain i where i: "i \<in> set (plic_items model q (sources model) (n_contexts model))"
      and o': "(r, w, Output) \<in> set (item_decls (ap_items p) i)"
      unfolding module_decls_def scope by (auto simp: eq)
    from i show "r \<in> insert (Sig ''intr_out'') (Mem ''hwif_in'' ` fst ` set ins)"
    proof (cases rule: plic_item_cases)
      case port
      from plic_port_item_decls [OF b this] show ?thesis
        using o' by (elim disjE insertE emptyE exE) force+
    next
      case (lets ctx)
      then show ?thesis using o' by (auto dest: context_lets_shape)
    qed (use o' in auto)
  qed
qed

lemma fired_width:
  assumes "1 \<le> n" and "\<forall>ctx < n_ctx. \<Gamma> (Sig (w_name ctx n ''_id'')) = Some (id_w n)" and "n_ctx \<noteq> 0"
  shows "fits \<Gamma> (if n_ctx = 1 then fired_expr n 0 else Concat (map (\<lambda>ctx. Paren (fired_expr n ctx)) (rev [0..<n_ctx]))) n_ctx"
proof -
  have one: "synth \<Gamma> (fired_expr n ctx) = Some 1" if "ctx < n_ctx" for ctx
    using assms(2) that synth_fits [OF plic_literals(1) [where \<Gamma> = \<Gamma> and n = n]] by (simp add: fired_expr_def)
  have "map (\<lambda>e. the (synth \<Gamma> e)) (map (\<lambda>ctx. Paren (fired_expr n ctx)) (rev [0..<n_ctx])) = map (\<lambda>_. 1) (rev [0..<n_ctx])"
    using one by simp
  then have "sum_list (map (\<lambda>e. the (synth \<Gamma> e)) (map (\<lambda>ctx. Paren (fired_expr n ctx)) (rev [0..<n_ctx]))) = n_ctx"
    by (simp only: map_replicate_const sum_list_replicate) simp
  then show ?thesis
    using one assms(3) synth_fits [OF one [of 0]] by auto
qed

lemma plic_well_typed:
  assumes b: "plic_block p model q outs ins" and m: "plic_module model nm = Inr m" "plic_fields_of model = Inr q"
  shows "well_typed p m"
proof -
  let ?n = "sources model" and ?c = "n_contexts model" and ?\<Gamma> = "module_env p m"
  note eq = plic_module_eq [OF m] and M = plic_decls_mem [OF b m] and dist = plic_decls_distinct [OF b m]
  have G: "(r, w, k) \<in> set (module_decls p m) \<Longrightarrow> ?\<Gamma> r = Some w" for r w k
    by (rule module_env_decl [OF dist(1)])
  have n: "1 \<le> ?n" and c0: "?c \<noteq> 0" using plic_counts [OF m(2)] plic_module_items(2) [OF m] by simp_all
  have blk: "\<forall>i \<in> {1..?n}. (prio_hwif model q i, prio_w) \<in> set outs"
    "ctx < ?c \<Longrightarrow> (threshold_hwif model q ctx, prio_w) \<in> set outs" "ctx < ?c \<Longrightarrow> (claim_hwif model q ctx, id_w ?n) \<in> set outs"
    "ctx < ?c \<Longrightarrow> \<exists>w > ?n. (enable_hwif model q ctx, w) \<in> set outs"
    "(pending_hwif model q, ?n + 1) \<in> set ins" "ctx < ?c \<Longrightarrow> (claim_hwif model q ctx, id_w ?n) \<in> set ins"
    "fst ` set ins = insert (pending_hwif model q) (claim_hwif model q ` {0..<?c})"
    "distinct (pending_hwif model q # map (claim_hwif model q) [0..<?c])" for ctx
    using b by (simp_all add: plic_block_def Let_def image_comp comp_def)
  have T: "plic_tenv ?\<Gamma> model q ?n ctx" if "ctx < ?c" for ctx
    unfolding plic_tenv_def
    using G [OF M(1)] G [OF M(3)] blk(1) blk(2,3,4) [OF that] G [OF M(5) [OF that]] G [OF M(6) [OF that]] G [OF M(7) [OF that]]
      G [OF M(8) [OF that]] G [OF M(9) [OF that]]
    by blast
  have ids: "\<forall>ctx < ?c. ?\<Gamma> (Sig (w_name ctx ?n ''_id'')) = Some (id_w ?n)"
    using plic_tenv_lets(2) [OF T n order_refl] by blast
  have drives: "map fst (module_drives m) = map (Mem ''hwif_in'') (pending_hwif model q # map (claim_hwif model q) [0..<?c]) @ [Sig ''intr_out'']"
    unfolding module_drives_def eq by (simp add: plic_item_drives plic_drives_def)
  have comb: "item_typed ps ?\<Gamma> regs (CombI (plic_drives model q ?n ?c))" for ps regs
    using G [OF M(1)] G [OF M(2)] G [OF M(4) [OF blk(5)]] G [OF M(4) [OF blk(6)]] ids fired_width [OF n ids c0]
    by (auto simp: plic_drives_def)
  have regs: "Sig (ctx_sig ctx ''_claimed_r'') \<in> set (refs_of Register (module_decls p m))"
    "Sig (ctx_sig ctx ''_wr_pulse_d'') \<in> set (refs_of Register (module_decls p m))" if "ctx < ?c" for ctx
    using M(7,8) [OF that] by (force simp: refs_of_def)+
  have seq: "item_typed ps ?\<Gamma> (set (refs_of Register (module_decls p m))) (SeqI (concat (map (context_stmts model) [0..<?c])))" for ps
    using regs T plic_tenv_lets(6,8) [OF T] by (auto simp: context_stmts_def plic_tenv_def)
  have zero: "fits ?\<Gamma> (mask_expr ?n 0) (Suc ?n)" using synth_fits [OF plic_literals(2) [of 0 ?n]] by simp
  have items: "list_all (item_typed ps ?\<Gamma> (set (refs_of Register (module_decls p m)))) (am_items m)" for ps
    unfolding list_all_iff
  proof
    fix i assume "i \<in> set (am_items m)"
    then have "i \<in> set (plic_items model q ?n ?c)" by (simp add: eq)
    then show "item_typed ps ?\<Gamma> (set (refs_of Register (module_decls p m))) i"
    proof (cases rule: plic_item_cases)
      case (lets ctx)
      from context_lets_typed [OF T [OF lets(1)] n lets(2)] show ?thesis .
    next
      case drive
      then show ?thesis using comb by blast
    next
      case edge
      then show ?thesis using seq by blast
    next
      case port
      then show ?thesis by (auto simp: plic_port_items_def)
    qed (use zero in auto)
  qed
  have lets: "lets_ok (am_items m)" using plic_lets_ok by (simp add: eq)
  have "distinct (map fst (module_drives m))"
    unfolding drives distinct_append distinct_map_inj using blk(8) by auto
  moreover have "set (map fst (module_drives m)) = set (refs_of Output (module_decls p m))"
    unfolding drives plic_output_decls [OF b m] blk(7) by auto
  ultimately show ?thesis
    unfolding well_typed_def Let_def using dist lets items by blast
qed

text \<open>Signals of the declared widths are what the statements about the devices ask for.\<close>

lemma plic_env_from_decls:
  assumes b: "plic_block p model q outs ins" and m: "plic_module model nm = Inr m" "plic_fields_of model = Inr q"
    and env: "signals_sized (module_decls p m) \<rho>"
  shows "plic_env model q (sources model) (n_contexts model) \<rho>"
proof -
  note M = plic_decls_mem [OF b m]
  have S: "(r, w, k) \<in> set (module_decls p m) \<Longrightarrow> k \<noteq> Local \<Longrightarrow> sized w (\<rho> r)" for r w k
    using env by (auto simp: signals_sized_def)
  have "\<exists>w > sources model. sized w (\<rho> (Mem ''hwif_out'' (enable_hwif model q ctx)))" if "ctx < n_contexts model" for ctx
  proof -
    from b that obtain w where "w > sources model" "(enable_hwif model q ctx, w) \<in> set outs"
      unfolding plic_block_def Let_def by blast
    with S [OF M(3)] show ?thesis by blast
  qed
  then have "sources model < bw (\<rho> (Mem ''hwif_out'' (enable_hwif model q ctx)))" if "ctx < n_contexts model" for ctx
    using that by (auto simp: sized_def)
  moreover have "sized prio_w (\<rho> (Mem ''hwif_out'' (prio_hwif model q i)))" if "i \<in> {1..sources model}" for i
    using b that S [OF M(3)] by (simp add: plic_block_def Let_def)
  ultimately show ?thesis
    unfolding plic_env_def using plic_counts(1) [OF m(2)] S [OF M(1)] S [OF M(6)] S [OF M(7)] S [OF M(8)] by simp
qed

lemma clint_env_from_decls:
  assumes m: "clint_module model nm = Inr m" "clint_names_of model = Inr n" and b: "clint_block p model n outs ins"
    and env: "signals_sized (module_decls p m) \<rho>"
  shows "clint_env n \<rho>"
proof -
  have S: "(r, w, k) \<in> set (clint_decls outs ins) \<Longrightarrow> k \<noteq> Local \<Longrightarrow> sized w (\<rho> r)" for r w k
    using env unfolding clint_module_decls [OF m b] signals_sized_def by blast
  have "sized w (\<rho> (Mem ''hwif_out'' x))" if "(x, w) \<in> set outs" for x w
    by (rule S [where k = Input]) (simp_all add: clint_decls_def struct_decl that)
  moreover have "sized 1 (\<rho> (Sig ''mtime_tick''))"
    by (rule S [where k = Input]) (simp_all add: clint_decls_def)
  ultimately show ?thesis using b by (simp add: clint_block_def clint_env_def)
qed


section \<open>Concrete packages\<close>

text \<open>The structs of the small devices, cut down from \<^verbatim>\<open>tests/expected/plic_multictx\<close> and \<^verbatim>\<open>clint_basic\<close>.\<close>

definition demo_plic_ins :: "(string \<times> nat) list" where
  "demo_plic_ins = [(''pending_value'', 4), (''claim_0_value'', 2), (''claim_1_value'', 2)]"

definition demo_plic_outs :: "(string \<times> nat) list" where
  "demo_plic_outs =
     [(''priority_0_value'', 3), (''priority_1_value'', 3), (''priority_2_value'', 3), (''priority_3_value'', 3),
      (''enable_0_value'', 4), (''enable_1_value'', 4), (''threshold_0_value'', 3), (''claim_0_value'', 2),
      (''threshold_1_value'', 3), (''claim_1_value'', 2)]"

definition demo_plic_package :: apackage where
  "demo_plic_package = \<lparr>ap_name = ''PlicPkg'', ap_items =
     [StructP ''PlicHwifIn'' demo_plic_ins, StructP ''PlicHwifOut'' demo_plic_outs]\<rparr>"

lemma demo_plic_block: "plic_block demo_plic_package demo_plic demo_q demo_plic_outs demo_plic_ins"
proof -
  have names: "pm_package_name demo_plic = ''PlicPkg''" "pm_hwif_out_struct demo_plic = ''PlicHwifOut''"
    "pm_hwif_in_struct demo_plic = ''PlicHwifIn''" "map rn_inst_name (pm_claims demo_plic) = [''claim_0'', ''claim_1'']"
    by code_simp+
  have w: "id_w 3 = 2" by code_simp
  have structs: "has_struct demo_plic_package ''PlicHwifOut'' demo_plic_outs" "has_struct demo_plic_package ''PlicHwifIn'' demo_plic_ins"
    by code_simp+
  have two: "[0..<2] = [0, Suc 0]" by (simp add: numeral_2_eq_2)
  show ?thesis
    unfolding plic_block_def Let_def demo_plic_names all_contexts all_sources names
    using structs by (auto simp: demo_plic_names w two demo_plic_package_def demo_plic_outs_def demo_plic_ins_def prio_w_def)
qed

definition demo_clint_package :: apackage where
  "demo_clint_package = \<lparr>ap_name = ''ClintBasicPkg'', ap_items =
     [StructP ''ClintBasicHwifIn'' [(''mtime_lo_v'', 32), (''mtime_hi_v'', 32)],
      StructP ''ClintBasicHwifOut'' [(''msip_value'', 1), (''mtimecmp_lo_v'', 32), (''mtimecmp_hi_v'', 32),
        (''mtime_lo_v'', 32), (''mtime_hi_v'', 32)]]\<rparr>"

lemma demo_clint_block: "clint_block demo_clint_package demo_clint demo_clint_names
    [(''msip_value'', 1), (''mtimecmp_lo_v'', 32), (''mtimecmp_hi_v'', 32), (''mtime_lo_v'', 32), (''mtime_hi_v'', 32)]
    [(''mtime_lo_v'', 32), (''mtime_hi_v'', 32)]"
  by code_simp

text \<open>
  Contexts declared as a register array pass the checks of the emitter, but all their claim registers have
  one instance name: the module declares its pulse ports twice.
\<close>

definition plic_array :: rdl_top where
  "plic_array = \<lparr>tn_inst_name = ''plic'', tn_children =
     map (\<lambda>i. RegNode (demo_plic_reg ''priority'' (Some i) ''priority'' (4 * i) 2)) [0, 1]
     @ [RegNode (demo_plic_reg ''pending'' None ''pending'' 16 1)]
     @ concat (map (\<lambda>i. [RegNode (demo_plic_reg ''enable'' (Some i) ''enable'' (32 + 4 * i) 1),
          RegNode (demo_plic_reg ''threshold'' (Some i) ''threshold'' (64 + 8 * i) 2),
          RegNode (demo_plic_reg ''claim'' (Some i) ''claim'' (68 + 8 * i) 0)]) [0, 1])\<rparr>"

lemma claim_array_clash:
  "case scan_plic tn_children plic_array ''Plic'' ''PlicPkg'' of Inl _ \<Rightarrow> False
   | Inr model \<Rightarrow> (case plic_module model ''PlicLogic'' of Inl _ \<Rightarrow> False | Inr m \<Rightarrow> \<not> distinct (module_names m))"
  by code_simp

section \<open>Properties\<close>

text \<open>
  The timer logic is well typed against a register block with the members it reads and drives, and
  drives each of them exactly once with a value that fits.
\<close>

theorem clint_typed:
  assumes "arch_hdl ev nxt" and "clint_module model nm = Inr m" and "clint_names_of model = Inr n"
    and "clint_block p model n outs ins"
  shows "well_typed p m
    \<and> (\<forall>\<rho>. signals_sized (module_decls p m) \<rho> \<longrightarrow>
        clint_env n \<rho> \<and> (\<forall>(r, w, k) \<in> set (module_decls p m). k = Output \<longrightarrow> (\<exists>v. module_out ev m \<rho> r = Some v \<and> bn v < 2 ^ w)))"
proof -
  note wt = clint_well_typed [OF assms(2-4)]
  show ?thesis
    using wt arch_hdl.well_typed_out [OF assms(1) wt] clint_env_from_decls [OF assms(2-4)]
    by (intro conjI allI impI ballI) blast+
qed

theorem clint_typed_witness: "well_typed demo_clint_package demo_clint_module"
  using clint_typed [OF arch.arch_hdl_axioms demo_clint_module demo_clint_names demo_clint_block] by blast

text \<open>
  C33: The interrupt logic is well typed against a register block with the members it reads and drives
  and claim registers of different names: every signal is declared once, every output is driven exactly
  once. So from signals of the declared widths no value is truncated, the registers keep their widths,
  and the premise of the statements about arbitration and claims holds.
\<close>

theorem plic_typed:
  assumes "arch_hdl ev nxt" and "plic_module model nm = Inr m" and "plic_fields_of model = Inr q"
    and "plic_block p model q outs ins"
  shows "well_typed p m
    \<and> (\<forall>\<rho>. signals_sized (module_decls p m) \<rho> \<longrightarrow>
        plic_env model q (sources model) (n_contexts model) \<rho>
        \<and> (\<forall>(r, w, k) \<in> set (module_decls p m).
            (k = Output \<longrightarrow> (\<exists>v. module_out ev m \<rho> r = Some v \<and> bn v < 2 ^ w))
            \<and> (k = Register \<longrightarrow> sized w (module_next ev nxt m \<rho> r)))
        \<and> (\<forall>(r, e) \<in> set (concat (map assigns (module_stmts m))).
            bn (ev (bind_lets ev \<rho> (am_items m)) e) < 2 ^ bw (\<rho> r)))"
proof -
  note wt = plic_well_typed [OF assms(4,2,3)]
  note out = arch_hdl.well_typed_out [OF assms(1) wt] and next_state = arch_hdl.well_typed_next [OF assms(1) wt]
    and assign = arch_hdl.well_typed_assign [OF assms(1) wt] and env = plic_env_from_decls [OF assms(4,2,3)]
  show ?thesis using wt out next_state assign env by (intro conjI allI impI ballI) blast+
qed

theorem plic_typed_witness:
  "well_typed demo_plic_package demo_plic_module
   \<and> (\<exists>v. module_out arch_eval demo_plic_module (zero_env (module_decls demo_plic_package demo_plic_module)) (Sig ''intr_out'') = Some v
       \<and> bn v < 2 ^ 2)"
proof -
  let ?ds = "module_decls demo_plic_package demo_plic_module"
  note T = plic_typed [OF arch.arch_hdl_axioms demo_plic_module demo_plic_names(1) demo_plic_block]
  note b = demo_plic_block demo_plic_module demo_plic_names(1)
  have "signals_sized ?ds (zero_env ?ds)" by (rule zero_env_sized [OF plic_decls_distinct(1) [OF b]])
  moreover have "(Sig ''intr_out'', 2, Output) \<in> set ?ds" using plic_decls_mem(2) [OF b] by (simp add: demo_plic_names)
  ultimately show ?thesis using T by fastforce
qed

end
