(* ===== verification/Exporter.thy ===== *)
theory Exporter
  imports System PlicProps "HOL-Library.AList"
begin

text \<open>
  The exporters (\<^verbatim>\<open>exporter.py\<close>, \<^verbatim>\<open>clint_exporter.py\<close>, \<^verbatim>\<open>plic_exporter.py\<close>): which files are written under which names, with which text, and what is left on
  disk when something raises. The file system is a map from paths to texts, passed through; a write
  never fails. The register-block exporter is third-party and a parameter.
\<close>

section \<open>Files\<close>

text \<open>The file system: the text of every file that exists. Directory creation is not visible in it.\<close>

type_synonym fs = "string \<rightharpoonup> string"

type_synonym 'a io = "fs \<Rightarrow> fs \<times> 'a res"

text \<open>\<^verbatim>\<open>os.path.join\<close> of a directory and a file name.\<close>

definition path_join :: "string \<Rightarrow> string \<Rightarrow> string" where
  "path_join d name =
     (if startswith ''/'' name then name else if d = [] \<or> endswith ''/'' d then d @ name else d @ ''/'' @ name)"

text \<open>A dict literal: a repeated key keeps its place and takes the later value.\<close>

definition dict_of :: "(string \<times> 'a) list \<Rightarrow> (string \<times> 'a) list" where
  "dict_of items = foldl (\<lambda>d (k, v). AList.update k v d) [] items"

definition write_all :: "string \<Rightarrow> (string \<times> string) list \<Rightarrow> fs \<Rightarrow> fs" where
  "write_all output_dir items fs = foldl (\<lambda>fs (name, src). fs(path_join output_dir name \<mapsto> src)) fs items"

datatype rdl_input = Root rdl_top | Addrmap rdl_top

fun top_of :: "rdl_input \<Rightarrow> rdl_top" where
  "top_of (Root tp) = tp"
| "top_of (Addrmap tp) = tp"

section \<open>The CSR exporter\<close>

definition sibling_name :: "string \<Rightarrow> string \<Rightarrow> string \<Rightarrow> string" where
  "sibling_name base from_suffix to_suffix =
     (if endswith from_suffix base
      then (if from_suffix = [] then [] else take (length base - length from_suffix) base) @ to_suffix
      else base @ to_suffix)"

definition access_name :: "csr_design \<Rightarrow> string" where
  "access_name design = sibling_name (d_module_name design) ''CsrFile'' ''CsrAccess''"

definition trap_coord_name :: "csr_design \<Rightarrow> string" where
  "trap_coord_name design = sibling_name (d_module_name design) ''CsrFile'' ''CsrTrapCoord''"

text \<open>The dict \<^verbatim>\<open>paths\<close>, file name to text.\<close>

definition csr_sources :: "csr_design \<Rightarrow> (string \<times> string) list res" where
  "csr_sources design =
     res_bind (emit_csr_file design) (\<lambda>csr_src. Inr (dict_of
       [(d_package_name design @ ''.arch'', emit_package design),
        (d_module_name design @ ''.arch'', csr_src),
        (access_name design @ ''.arch'', emit_access_controller design (access_name design)),
        (trap_coord_name design @ ''.arch'', emit_trap_coordinator design (trap_coord_name design))]))"

definition csr_export ::
  "deref \<Rightarrow> rdl_input \<Rightarrow> string \<Rightarrow> string option \<Rightarrow> string option \<Rightarrow> nat \<Rightarrow> (string \<times> string) list io" where
  "csr_export dr node output_dir module_name package_name xlen fs =
     (case res_bind (scan dr (top_of node) module_name package_name xlen) (\<lambda>design.
           res_bind (validate design) (\<lambda>_. csr_sources design)) of
        Inl e \<Rightarrow> (fs, Inl e)
      | Inr paths \<Rightarrow> (write_all output_dir paths fs,
          Inr (dict_of (map (\<lambda>(name, src). (name, path_join output_dir name)) paths))))"

section \<open>The device exporters\<close>

text \<open>
  \<^verbatim>\<open>rdl2arch\<close> is third-party: \<open>ax_export\<close> is its register-block exporter (top, directory, bus
  interface class, module and package name, reset style), \<open>ax_async_low\<close> the reset style
  \<^verbatim>\<open>ResetStyle.ASYNC_LOW\<close>.
\<close>

record ('c, 'r) rdl2arch =
  ax_export :: "rdl_top \<Rightarrow> string \<Rightarrow> 'c \<Rightarrow> string \<Rightarrow> string \<Rightarrow> 'r \<Rightarrow> (string \<times> string) list io"
  ax_async_low :: 'r

text \<open>The body the two exporters share; \<open>emit\<close> is the scan and the emitter of the device.\<close>

definition device_export ::
  "(rdl_top \<Rightarrow> string \<Rightarrow> string \<Rightarrow> string \<Rightarrow> string res) \<Rightarrow> ('c, 'r) rdl2arch \<Rightarrow> rdl_input \<Rightarrow> string \<Rightarrow> 'c \<Rightarrow>
   string option \<Rightarrow> string option \<Rightarrow> (string \<times> string) list io" where
  "device_export emit ax node output_dir cpuif_cls module_name package_name fs =
     (let tp = top_of node; md = str_or module_name (camel (tn_inst_name tp));
          pkg = str_or package_name (md @ ''Pkg''); logic_name = md @ ''Logic'' in
      case ax_export ax tp output_dir cpuif_cls md pkg (ax_async_low ax) fs of
        (fs', Inl e) \<Rightarrow> (fs', Inl e)
      | (fs', Inr rb_files) \<Rightarrow>
          (case emit tp md pkg logic_name of
             Inl e \<Rightarrow> (fs', Inl e)
           | Inr logic_src \<Rightarrow>
               let logic_path = path_join output_dir (logic_name @ ''.arch'') in
               (fs'(logic_path \<mapsto> logic_src), Inr (AList.update (logic_name @ ''.arch'') logic_path rb_files))))"

definition clint_export ::
  "('c, 'r) rdl2arch \<Rightarrow> rdl_input \<Rightarrow> string \<Rightarrow> 'c \<Rightarrow> string option \<Rightarrow> string option \<Rightarrow> (string \<times> string) list io" where
  "clint_export = device_export (\<lambda>tp md pkg logic_name. emit_clint_logic (scan_clint tp md pkg) logic_name)"

definition plic_export ::
  "(rdl_top \<Rightarrow> rdl_node list) \<Rightarrow>
   ('c, 'r) rdl2arch \<Rightarrow> rdl_input \<Rightarrow> string \<Rightarrow> 'c \<Rightarrow> string option \<Rightarrow> string option \<Rightarrow> (string \<times> string) list io" where
  "plic_export unrolled = device_export (\<lambda>tp md pkg logic_name.
     res_bind (scan_plic unrolled tp md pkg) (\<lambda>model. emit_plic_logic model logic_name))"

section \<open>Names and files\<close>

lemma dict_of_distinct: "distinct (map fst items) \<Longrightarrow> dict_of items = items"
proof -
  have "distinct (map fst (acc @ items)) \<Longrightarrow> foldl (\<lambda>d (k, v). AList.update k v d) acc items = acc @ items" for acc
  proof (induction items arbitrary: acc)
    case (Cons x items)
    obtain k v where x: "x = (k, v)" by (cases x)
    with Cons.prems have "k \<notin> fst ` set acc" by auto
    then have "AList.update k v acc = acc @ [(k, v)]" by (induction acc) auto
    with Cons.IH [of "acc @ [(k, v)]"] Cons.prems x show ?case by simp
  qed simp
  from this [of "[]"] show "distinct (map fst items) \<Longrightarrow> dict_of items = items" by (simp add: dict_of_def)
qed

lemma write_all_frame: "p \<notin> path_join dir ` fst ` set items \<Longrightarrow> write_all dir items fs p = fs p"
proof (induction items arbitrary: fs)
  case (Cons x items)
  then show ?case by (cases x) (auto simp: write_all_def)
qed (simp add: write_all_def)

lemma write_all_content:
  "distinct (map (\<lambda>x. path_join dir (fst x)) items) \<Longrightarrow> (name, src) \<in> set items \<Longrightarrow>
   write_all dir items fs (path_join dir name) = Some src"
proof (induction items arbitrary: fs)
  case (Cons x items)
  obtain n s where x: "x = (n, s)" by (cases x)
  have unf: "write_all dir (x # items) fs = write_all dir items (fs(path_join dir n \<mapsto> s))"
    by (simp add: write_all_def x)
  show ?case
  proof (cases "(name, src) \<in> set items")
    case True
    with Cons unf show ?thesis by simp
  next
    case False
    with Cons.prems x have here: "name = n" "src = s" by auto
    have "path_join dir name \<notin> path_join dir ` fst ` set items"
      using Cons.prems(1) by (auto simp: x here image_image)
    with unf here show ?thesis by (simp add: write_all_frame)
  qed
qed simp

lemma path_join_inj:
  "\<not> startswith ''/'' a \<Longrightarrow> \<not> startswith ''/'' b \<Longrightarrow> path_join dir a = path_join dir b \<longleftrightarrow> a = b"
  by (simp add: path_join_def)

lemma sibling_forms:
  "d_module_name d = p @ ''CsrFile'' \<Longrightarrow> access_name d = p @ ''CsrAccess'' \<and> trap_coord_name d = p @ ''CsrTrapCoord''"
  "\<not> endswith ''CsrFile'' (d_module_name d) \<Longrightarrow>
   access_name d = d_module_name d @ ''CsrAccess'' \<and> trap_coord_name d = d_module_name d @ ''CsrTrapCoord''"
  by (simp_all add: access_name_def trap_coord_name_def sibling_name_def endswith_iff)

lemma sibling_distinct:
  "distinct [d_module_name d, access_name d, trap_coord_name d]"
  "startswith ''/'' (access_name d) \<longleftrightarrow> startswith ''/'' (d_module_name d)"
  "startswith ''/'' (trap_coord_name d) \<longleftrightarrow> startswith ''/'' (d_module_name d)"
proof -
  have sl: "startswith ''/'' (x @ y) \<longleftrightarrow> (if x = [] then startswith ''/'' y else startswith ''/'' x)" for x y
    by (cases x) (simp_all add: startswith_def)
  consider p where "d_module_name d = p @ ''CsrFile''" | "\<not> endswith ''CsrFile'' (d_module_name d)"
    by (auto simp: endswith_iff)
  then show "distinct [d_module_name d, access_name d, trap_coord_name d]"
    by cases (auto simp: sibling_forms)
  show "startswith ''/'' (access_name d) \<longleftrightarrow> startswith ''/'' (d_module_name d)"
    "startswith ''/'' (trap_coord_name d) \<longleftrightarrow> startswith ''/'' (d_module_name d)"
    by (cases "endswith ''CsrFile'' (d_module_name d)"; auto simp: sibling_forms endswith_iff sl; simp add: startswith_def)+
qed

section \<open>Properties\<close>

lemma csr_sources_distinct:
  assumes "d_package_name d \<notin> {d_module_name d, access_name d, trap_coord_name d}" and "emit_csr_file d = Inr csr_src"
  shows "csr_sources d = Inr
     [(d_package_name d @ ''.arch'', emit_package d), (d_module_name d @ ''.arch'', csr_src),
      (access_name d @ ''.arch'', emit_access_controller d (access_name d)),
      (trap_coord_name d @ ''.arch'', emit_trap_coordinator d (trap_coord_name d))]"
  using assms sibling_distinct(1) [of d] by (simp add: csr_sources_def dict_of_distinct)

text \<open>The default package name never clashes with a module name.\<close>

lemma default_package_name:
  assumes "scan dr tp mn pn xlen = Inr d" and "\<not> truthy pn"
  shows "d_package_name d \<notin> {d_module_name d, access_name d, trap_coord_name d}"
proof -
  have p: "d_package_name d = d_module_name d @ ''Pkg''"
    using assms by (auto simp: scan_def str_or_def Let_def)
  consider q where "d_module_name d = q @ ''CsrFile''" | "\<not> endswith ''CsrFile'' (d_module_name d)"
    by (auto simp: endswith_iff)
  then show ?thesis by cases (auto simp: p sibling_forms)
qed

text \<open>What the exporter writes when it returns.\<close>

lemma csr_export_files:
  assumes "scan dr (top_of node) mn pn xlen = Inr d" and "validate d = Inr ()"
    and "\<not> truthy pn \<or> d_package_name d \<notin> {d_module_name d, access_name d, trap_coord_name d}"
    and "\<not> startswith ''/'' (d_module_name d)" and "\<not> startswith ''/'' (d_package_name d)"
  shows "\<exists>csr_src fs'. emit_csr_file d = Inr csr_src
    \<and> csr_export dr node dir mn pn xlen fs = (fs', Inr
        [(d_package_name d @ ''.arch'', path_join dir (d_package_name d @ ''.arch'')),
         (d_module_name d @ ''.arch'', path_join dir (d_module_name d @ ''.arch'')),
         (access_name d @ ''.arch'', path_join dir (access_name d @ ''.arch'')),
         (trap_coord_name d @ ''.arch'', path_join dir (trap_coord_name d @ ''.arch''))])
    \<and> fs' (path_join dir (d_package_name d @ ''.arch'')) = Some (emit_package d)
    \<and> fs' (path_join dir (d_module_name d @ ''.arch'')) = Some csr_src
    \<and> fs' (path_join dir (access_name d @ ''.arch'')) = Some (emit_access_controller d (access_name d))
    \<and> fs' (path_join dir (trap_coord_name d @ ''.arch'')) = Some (emit_trap_coordinator d (trap_coord_name d))
    \<and> (\<forall>p. p \<notin> path_join dir ` {d_package_name d @ ''.arch'', d_module_name d @ ''.arch'',
           access_name d @ ''.arch'', trap_coord_name d @ ''.arch''} \<longrightarrow> fs' p = fs p)"
proof -
  obtain csr_src where src: "emit_csr_file d = Inr csr_src" using csr_file_returns [OF assms(1,2)] by blast
  have pkg: "d_package_name d \<notin> {d_module_name d, access_name d, trap_coord_name d}"
    using assms(3) default_package_name [OF assms(1)] by blast
  note sources = csr_sources_distinct [OF pkg src]
  let ?items = "[(d_package_name d @ ''.arch'', emit_package d), (d_module_name d @ ''.arch'', csr_src),
      (access_name d @ ''.arch'', emit_access_controller d (access_name d)),
      (trap_coord_name d @ ''.arch'', emit_trap_coordinator d (trap_coord_name d))]"
  let ?fs = "write_all dir ?items fs"
  have sl: "startswith ''/'' (x @ ''.arch'') \<longleftrightarrow> startswith ''/'' x" for x by (cases x) (simp_all add: startswith_def)
  have "distinct (map (\<lambda>x. path_join dir (fst x)) ?items)"
    using assms(4,5) pkg sibling_distinct [of d] by (simp add: path_join_inj sl)
  note content = write_all_content [OF this, where fs = fs]
  have "csr_export dr node dir mn pn xlen fs = (?fs, Inr
        [(d_package_name d @ ''.arch'', path_join dir (d_package_name d @ ''.arch'')),
         (d_module_name d @ ''.arch'', path_join dir (d_module_name d @ ''.arch'')),
         (access_name d @ ''.arch'', path_join dir (access_name d @ ''.arch'')),
         (trap_coord_name d @ ''.arch'', path_join dir (trap_coord_name d @ ''.arch''))])"
    using pkg sibling_distinct(1) [of d] by (simp add: csr_export_def assms(1,2) sources dict_of_distinct)
  moreover have "\<forall>p. p \<notin> path_join dir ` {d_package_name d @ ''.arch'', d_module_name d @ ''.arch'',
           access_name d @ ''.arch'', trap_coord_name d @ ''.arch''} \<longrightarrow> ?fs p = fs p"
    using write_all_frame [of _ dir ?items fs] by simp
  ultimately show ?thesis using src content by (intro exI [of _ csr_src] exI [of _ ?fs] conjI) auto
qed

lemma demo_names_out:
  "d_module_name demo_design = ''MTrapCsrFile''" "d_package_name demo_design = ''MTrapCsrFilePkg''"
  "access_name demo_design = ''MTrapCsrAccess''" "trap_coord_name demo_design = ''MTrapCsrTrapCoord''"
proof -
  show md: "d_module_name demo_design = ''MTrapCsrFile''" unfolding scan_InrD(3) [OF demo_scan] by code_simp
  show "d_package_name demo_design = ''MTrapCsrFilePkg''" unfolding scan_InrD(4) [OF demo_scan] md by code_simp
  show "access_name demo_design = ''MTrapCsrAccess''" "trap_coord_name demo_design = ''MTrapCsrTrapCoord''"
    unfolding access_name_def trap_coord_name_def md by code_simp+
qed

lemma demo_paths:
  "path_join ''out'' ''MTrapCsrFilePkg.arch'' = ''out/MTrapCsrFilePkg.arch''"
  "path_join ''out'' ''MTrapCsrFile.arch'' = ''out/MTrapCsrFile.arch''"
  "path_join ''out'' ''MTrapCsrAccess.arch'' = ''out/MTrapCsrAccess.arch''"
  "path_join ''out'' ''MTrapCsrTrapCoord.arch'' = ''out/MTrapCsrTrapCoord.arch''"
  by code_simp+

lemma demo_export_scan: "scan demo_deref (top_of (Root demo_top)) None None 32 = Inr demo_design"
  by (simp add: demo_scan)

lemma demo_export_names:
  "\<not> truthy None \<or> d_package_name demo_design \<notin> {d_module_name demo_design, access_name demo_design, trap_coord_name demo_design}"
  "\<not> startswith ''/'' (d_module_name demo_design)" "\<not> startswith ''/'' (d_package_name demo_design)"
  by (simp_all add: demo_names_out startswith_def)



text \<open>
  C38: The CSR exporter is all or nothing: when it raises, no file has been written, and the
  exception is that of the scan or of the design checks; no accepted design fails later.
\<close>

theorem csr_export_atomic:
  assumes "csr_export dr node dir mn pn xlen fs = (fs', Inl e)"
  shows "fs' = fs \<and> (scan dr (top_of node) mn pn xlen = Inl e
    \<or> (\<exists>d. scan dr (top_of node) mn pn xlen = Inr d \<and> validate d = Inl e))"
proof (cases "scan dr (top_of node) mn pn xlen")
  case (Inl x)
  with assms show ?thesis by (simp add: csr_export_def)
next
  case (Inr d)
  show ?thesis
  proof (cases "validate d")
    case (Inl x)
    with assms Inr show ?thesis by (simp add: csr_export_def)
  next
    case valid: (Inr u)
    then obtain csr_src where "emit_csr_file d = Inr csr_src" using csr_file_returns [OF Inr] by auto
    with assms Inr valid show ?thesis by (simp add: csr_export_def csr_sources_def)
  qed
qed

definition demo_bad_top :: rdl_top where
  "demo_bad_top = \<lparr>tn_inst_name = ''bad'', tn_children = [RegNode (demo_mip\<lparr>rn_is_array := True\<rparr>)]\<rparr>"

theorem csr_export_atomic_witness:
  "\<exists>e. csr_export demo_deref (Addrmap demo_bad_top) ''out'' None None 32 Map.empty = (Map.empty, Inl e)"
proof -
  have "isl (res_bind (scan demo_deref demo_bad_top None None 32) validate)" by code_simp
  then obtain fs' e where e: "csr_export demo_deref (Addrmap demo_bad_top) ''out'' None None 32 Map.empty = (fs', Inl e)"
    by (cases "scan demo_deref demo_bad_top None None 32")
      (auto simp: csr_export_def isl_def split: sum.splits)
  from csr_export_atomic [OF e] e show ?thesis by blast
qed

text \<open>The logic file fits the register block exported with the same module and package names.\<close>

definition logic_file_ok :: "fs \<Rightarrow> string \<Rightarrow> string \<Rightarrow> string \<Rightarrow> bool" where
  "logic_file_ok fs dir md pkg \<longleftrightarrow>
     (\<exists>m k j. fs (path_join dir (md @ ''Logic.arch'')) = Some (render_module m)
        \<and> am_use m = Some pkg \<and> am_name m = md @ ''Logic''
        \<and> PortI ''hwif_out'' (blanks k @ ''in  '' @ md @ ''HwifOut'') \<in> set (am_items m)
        \<and> PortI ''hwif_in'' (blanks j @ ''out '' @ md @ ''HwifIn'') \<in> set (am_items m))"

lemma scan_clint_names:
  "cm_package_name (scan_clint tp md pkg) = pkg" "cm_hwif_in_struct (scan_clint tp md pkg) = md @ ''HwifIn''"
  "cm_hwif_out_struct (scan_clint tp md pkg) = md @ ''HwifOut''"
proof -
  have b: "cm_package_name (clint_bucket m c) = cm_package_name m"
    "cm_hwif_in_struct (clint_bucket m c) = cm_hwif_in_struct m"
    "cm_hwif_out_struct (clint_bucket m c) = cm_hwif_out_struct m" for m c
    by (cases c; simp split: option.splits)+
  have "cm_package_name (foldl clint_bucket m ns) = cm_package_name m"
    "cm_hwif_in_struct (foldl clint_bucket m ns) = cm_hwif_in_struct m"
    "cm_hwif_out_struct (foldl clint_bucket m ns) = cm_hwif_out_struct m" for m ns
    by (induction ns arbitrary: m) (simp_all add: b)
  then show "cm_package_name (scan_clint tp md pkg) = pkg" "cm_hwif_in_struct (scan_clint tp md pkg) = md @ ''HwifIn''"
    "cm_hwif_out_struct (scan_clint tp md pkg) = md @ ''HwifOut''"
    by (simp_all add: scan_clint_def)
qed

lemma scan_plic_names:
  assumes "scan_plic unrolled tp md pkg = Inr model"
  shows "pm_package_name model = pkg" "pm_hwif_in_struct model = md @ ''HwifIn''"
    "pm_hwif_out_struct model = md @ ''HwifOut''"
proof -
  have b: "pm_package_name (plic_bucket m c) = pm_package_name m"
    "pm_hwif_in_struct (plic_bucket m c) = pm_hwif_in_struct m"
    "pm_hwif_out_struct (plic_bucket m c) = pm_hwif_out_struct m" for m c
    by (cases c; simp split: option.splits)+
  have "pm_package_name (foldl plic_bucket m ns) = pm_package_name m"
    "pm_hwif_in_struct (foldl plic_bucket m ns) = pm_hwif_in_struct m"
    "pm_hwif_out_struct (foldl plic_bucket m ns) = pm_hwif_out_struct m" for m ns
    by (induction ns arbitrary: m) (simp_all add: b)
  then show "pm_package_name model = pkg" "pm_hwif_in_struct model = md @ ''HwifIn''"
    "pm_hwif_out_struct model = md @ ''HwifOut''"
    using assms by (auto simp: scan_plic_def Let_def)
qed

lemma device_export_cases:
  assumes "ax_export ax (top_of node) dir c md pkg (ax_async_low ax) fs = (fs1, Inr rb)"
    and "device_export emit ax node dir c mn pn fs = (fs', r)"
    and "md = str_or mn (camel (tn_inst_name (top_of node)))" and "pkg = str_or pn (md @ ''Pkg'')"
  shows "(case emit (top_of node) md pkg (md @ ''Logic'') of
      Inl e \<Rightarrow> fs' = fs1 \<and> r = Inl e
    | Inr src \<Rightarrow> fs' = fs1(path_join dir (md @ ''Logic.arch'') \<mapsto> src)
        \<and> (\<exists>out. r = Inr out \<and> map_of out = (map_of rb)(md @ ''Logic.arch'' \<mapsto> path_join dir (md @ ''Logic.arch''))))"
  using assms(1,2) unfolding assms(3,4)
  by (auto simp: device_export_def Let_def update_conv' split: sum.splits)



text \<open>A register-block exporter that writes its two files without looking at the tree.\<close>

definition demo_rdl2arch :: "(unit, unit) rdl2arch" where
  "demo_rdl2arch = \<lparr>ax_export = (\<lambda>tp dir c md pkg style fs.
     let items = [(pkg @ ''.arch'', ''package''), (md @ ''.arch'', ''registers'')] in
     (write_all dir items fs, Inr (map (\<lambda>(name, src). (name, path_join dir name)) items))), ax_async_low = ()\<rparr>"


text \<open>
  Nothing stops a caller from naming the package like the CSR file: then one of the two files is
  silently lost.
\<close>

lemma package_overwritten:
  assumes "d_package_name d = d_module_name d" and "emit_csr_file d = Inr csr_src"
  shows "csr_sources d = Inr
     [(d_module_name d @ ''.arch'', csr_src),
      (access_name d @ ''.arch'', emit_access_controller d (access_name d)),
      (trap_coord_name d @ ''.arch'', emit_trap_coordinator d (trap_coord_name d))]"
  using assms sibling_distinct(1) [of d] by (simp add: csr_sources_def dict_of_def)

end
