(* ===== verification/Top.thy ===== *)
theory Top
  imports Exporter Simulation
begin

text \<open>
  The three generated modules wired as in \<^verbatim>\<open>tests/sim/integrated_top.py\<close>: the access controller's verdict
  is the CSR file's \<^verbatim>\<open>granted\<close>, the trap coordinator drives its hardware inputs, the two low bits of the
  instruction's opcode are its command. \<open>priv_step\<close> and \<open>priv_out\<close> are what the privileged architecture
  asks of the whole; the locale \<open>wired\<close> holds the proof that the modules follow it.
\<close>

section \<open>The wiring\<close>

text \<open>
  The ports of the integrated module, as signals: \<^verbatim>\<open>csr_cmd_valid\<close>, \<^verbatim>\<open>csr_cmd_addr\<close>, \<^verbatim>\<open>csr_cmd_wdata\<close>,
  \<^verbatim>\<open>csr_opcode\<close>, \<^verbatim>\<open>cur_priv\<close>, \<^verbatim>\<open>trap_enter\<close>, \<^verbatim>\<open>xret_enter\<close>, the save, restore and mirror ports, the
  counter enables; \<^verbatim>\<open>hwif_live_w\<close> is the live hardware input.
\<close>

definition access_wires :: "env \<Rightarrow> env" where
  "access_wires \<sigma> r =
     (if r = Sig ''csr_addr'' then \<sigma> (Sig ''csr_cmd_addr'')
      else if r = Sig ''valid'' then \<sigma> (Sig ''csr_cmd_valid'') else \<sigma> r)"

definition trap_wires :: "env \<Rightarrow> env" where
  "trap_wires \<sigma> r =
     (case r of Sig s \<Rightarrow> \<sigma> r
      | Mem b x \<Rightarrow> if b = ''hwif_in_live'' then \<sigma> (Mem ''hwif_live_w'' x) else \<sigma> r)"

text \<open>The registers the CSR file holds itself, beside its fields: one for each trap signal.\<close>

definition pulse_regs :: "csr_design \<Rightarrow> string list" where
  "pulse_regs d = map (\<lambda>s. s @ ''_r'') (trap_signals d)"

text \<open>The inputs of the CSR file: its own registers \<open>s\<close>, the ports, and the outputs of the other two modules.\<close>

definition csr_wires :: "(env \<Rightarrow> aexpr \<Rightarrow> bv) \<Rightarrow> csr_design \<Rightarrow> env \<Rightarrow> env \<Rightarrow> env" where
  "csr_wires ev d s \<sigma> r =
     (case r of
        Sig x \<Rightarrow>
          if x = ''granted''
          then the (module_out ev (access_module d (access_name d)) (access_wires \<sigma>) (Sig ''granted''))
          else if x \<in> set (pulse_regs d) then s r else \<sigma> r
      | Mem b x \<Rightarrow>
          if b = ''csr'' then
            (if x = ''cmd_valid'' then \<sigma> (Sig ''csr_cmd_valid'')
             else if x = ''cmd_addr'' then \<sigma> (Sig ''csr_cmd_addr'')
             else if x = ''cmd_wdata'' then \<sigma> (Sig ''csr_cmd_wdata'')
             else if x = ''cmd_op'' then ev \<sigma> (SliceE (sig ''csr_opcode'') 1 0) else s r)
          else if b = ''hwif_in'' then
            (case module_out ev (trap_module d (trap_coord_name d)) (trap_wires \<sigma>) (Mem ''hwif_in_drive'' x) of
               Some v \<Rightarrow> v | None \<Rightarrow> \<sigma> r)
          else s r)"

text \<open>One clock edge, and what the pipeline sees in the cycle: grant, illegal-instruction trap, read data.\<close>

definition top_next ::
  "(env \<Rightarrow> aexpr \<Rightarrow> bv) \<Rightarrow> (env \<Rightarrow> astmt list \<Rightarrow> env) \<Rightarrow> csr_design \<Rightarrow> amodule \<Rightarrow> env \<Rightarrow> env \<Rightarrow> env" where
  "top_next ev nxt d m s \<sigma> = module_next ev nxt m (csr_wires ev d s \<sigma>)"

definition top_out ::
  "(env \<Rightarrow> aexpr \<Rightarrow> bv) \<Rightarrow> csr_design \<Rightarrow> amodule \<Rightarrow> env \<Rightarrow> env \<Rightarrow> nat option \<times> nat option \<times> nat option" where
  "top_out ev d m s \<sigma> =
     (let A = module_out ev (access_module d (access_name d)) (access_wires \<sigma>) in
      (map_option bn (A (Sig ''granted'')), map_option bn (A (Sig ''illegal'')),
       map_option bn (module_out ev m (csr_wires ev d s \<sigma>) (Mem ''csr'' ''rsp_rdata''))))"

text \<open>The inputs have their declared widths.\<close>

definition top_ports :: "csr_design \<Rightarrow> env \<Rightarrow> bool" where
  "top_ports d \<sigma> \<longleftrightarrow>
     sized 1 (\<sigma> (Sig ''csr_cmd_valid'')) \<and> sized 12 (\<sigma> (Sig ''csr_cmd_addr''))
     \<and> sized (d_xlen d) (\<sigma> (Sig ''csr_cmd_wdata'')) \<and> sized 3 (\<sigma> (Sig ''csr_opcode''))
     \<and> sized 2 (\<sigma> (Sig ''cur_priv''))
     \<and> (\<forall>reg \<in> set (d_regs d). \<forall>f \<in> set (r_fields reg).
          (f_save_on_trap f \<longrightarrow> sized (f_width f) (\<sigma> (Sig (save_port_name reg f))))
          \<and> (f_restore_on_ret f \<longrightarrow> sized (f_width f) (\<sigma> (Sig (restore_port_name reg f))))
          \<and> (f_hw_mirror f \<longrightarrow> sized (f_width f) (\<sigma> (Sig (mirror_port_name reg f))))
          \<and> (f_hw_writable f \<longrightarrow> sized (f_width f) (\<sigma> (Mem ''hwif_live_w'' (member_name reg f)))))"

text \<open>A counter enable is a port of its own: neither the verdict nor a pulse register.\<close>

definition enables_ok :: "csr_design \<Rightarrow> bool" where
  "enables_ok d \<longleftrightarrow> (\<forall>reg \<in> set (d_regs d). \<forall>f \<in> set (r_fields reg).
     truthy (f_hw_increment_when f) \<longrightarrow>
       the (f_hw_increment_when f) \<notin> insert ''granted'' (set (pulse_regs d)))"


section \<open>The specification\<close>

text \<open>
  The machine a RISC-V pipeline expects: the value of every field, by register and field name; a
  cycle's inputs as numbers. No wires, widths or expressions.
\<close>

type_synonym priv_state = "string \<Rightarrow> string \<Rightarrow> nat"

record priv_in =
  k_valid :: bool
  k_addr :: nat
  k_op :: nat
  k_wdata :: nat
  k_priv :: nat
  k_trap :: bool
  k_xret :: bool
  k_save :: "csr_reg \<Rightarrow> csr_field \<Rightarrow> nat"
  k_restore :: "csr_reg \<Rightarrow> csr_field \<Rightarrow> nat"
  k_mirror :: "csr_reg \<Rightarrow> csr_field \<Rightarrow> nat"
  k_live :: "csr_reg \<Rightarrow> csr_field \<Rightarrow> nat"
  k_enable :: "string \<Rightarrow> bool"

definition decode :: "env \<Rightarrow> priv_in" where
  "decode \<sigma> =
     \<lparr>k_valid = isset (\<sigma> (Sig ''csr_cmd_valid'')), k_addr = bn (\<sigma> (Sig ''csr_cmd_addr'')),
      k_op = bn (\<sigma> (Sig ''csr_opcode'')), k_wdata = bn (\<sigma> (Sig ''csr_cmd_wdata'')),
      k_priv = bn (\<sigma> (Sig ''cur_priv'')), k_trap = isset (\<sigma> (Sig ''trap_enter'')),
      k_xret = isset (\<sigma> (Sig ''xret_enter'')),
      k_save = (\<lambda>reg f. bn (\<sigma> (Sig (save_port_name reg f)))),
      k_restore = (\<lambda>reg f. bn (\<sigma> (Sig (restore_port_name reg f)))),
      k_mirror = (\<lambda>reg f. bn (\<sigma> (Sig (mirror_port_name reg f)))),
      k_live = (\<lambda>reg f. bn (\<sigma> (Mem ''hwif_live_w'' (member_name reg f)))),
      k_enable = (\<lambda>en. isset (\<sigma> (Sig en)))\<rparr>"

definition accepted :: "csr_design \<Rightarrow> priv_in \<Rightarrow> bool" where
  "accepted d k \<longleftrightarrow> k_valid k \<and> access_ok d (k_addr k) (k_op k) (k_priv k)"

definition priv_write :: "csr_design \<Rightarrow> priv_in \<Rightarrow> csr_reg \<Rightarrow> csr_field \<Rightarrow> bool" where
  "priv_write d k reg f \<longleftrightarrow>
     accepted d k \<and> is_write_op (k_op k) \<and> k_addr k = r_address reg \<and> sw_writes f"

definition priv_count :: "csr_design \<Rightarrow> priv_in \<Rightarrow> priv_state \<Rightarrow> csr_field \<Rightarrow> bool" where
  "priv_count d k a f =
     (if truthy (f_hw_increment_when f) then k_enable k (the (f_hw_increment_when f))
      else if truthy (f_hw_increment_high_of f) then
        (case find_reg d (the (f_hw_increment_high_of f)) of
           None \<Rightarrow> False
         | Some low_reg \<Rightarrow>
             (case low_counter_fields low_reg of
                [] \<Rightarrow> False
              | low # _ \<Rightarrow> k_enable k (the (f_hw_increment_when low))
                  \<and> a (r_state_name low_reg) (f_name low) = 2 ^ (4 * (f_width low div 4)) - 1))
      else False)"

definition priv_field :: "csr_design \<Rightarrow> priv_in \<Rightarrow> priv_state \<Rightarrow> csr_reg \<Rightarrow> csr_field \<Rightarrow> nat" where
  "priv_field d k a reg f =
     (let old = a (r_state_name reg) (f_name f) in
      if priv_write d k reg f then sw_value f (k_op k mod 4) old (k_wdata k)
      else if priv_count d k a f then (old + 1) mod 2 ^ f_width f
      else if f_hw_writable f
      then trap_drive f (k_trap k) (k_xret k) (k_save k reg f) (k_restore k reg f) (k_mirror k reg f) (k_live k reg f)
      else old)"

definition find_field :: "csr_design \<Rightarrow> string \<Rightarrow> string \<Rightarrow> (csr_reg \<times> csr_field) option" where
  "find_field d st fn =
     find (\<lambda>(reg, f). r_state_name reg = st \<and> f_name f = fn)
       (concat (map (\<lambda>reg. map (\<lambda>f. (reg, f)) (r_fields reg)) (d_regs d)))"

definition priv_step :: "csr_design \<Rightarrow> priv_state \<Rightarrow> priv_in \<Rightarrow> priv_state" where
  "priv_step d a k st fn = (case find_field d st fn of None \<Rightarrow> a st fn | Some (reg, f) \<Rightarrow> priv_field d k a reg f)"

definition priv_read :: "csr_design \<Rightarrow> priv_state \<Rightarrow> nat \<Rightarrow> nat" where
  "priv_read d a addr =
     (case find (\<lambda>reg. r_address reg = addr) (d_regs d) of
        None \<Rightarrow> 0
      | Some reg \<Rightarrow> (\<Sum>f \<leftarrow> r_fields reg.
          (if f_wpri f \<or> \<not> f_sw_readable f then 0 else a (r_state_name reg) (f_name f)) * 2 ^ f_lsb f))"

definition priv_out :: "csr_design \<Rightarrow> priv_state \<Rightarrow> priv_in \<Rightarrow> nat option \<times> nat option \<times> nat option" where
  "priv_out d a k =
     (Some (of_bool (accepted d k)), Some (of_bool (k_valid k \<and> \<not> accepted d k)),
      Some (if k_valid k then priv_read d a (k_addr k) else 0))"

section \<open>The modules follow the specification\<close>

text \<open>The registers hold the values of the specification's state.\<close>

definition holds_state :: "csr_design \<Rightarrow> env \<Rightarrow> priv_state \<Rightarrow> bool" where
  "holds_state d s a \<longleftrightarrow> (\<forall>reg \<in> set (d_regs d). \<forall>f \<in> set (r_fields reg).
     s (fref reg f) = BV (f_width f) (a (r_state_name reg) (f_name f))
     \<and> a (r_state_name reg) (f_name f) < 2 ^ f_width f)"

lemma find_field_unique:
  assumes "wf_design d" and "reg \<in> set (d_regs d)" and "f \<in> set (r_fields reg)"
  shows "find_field d (r_state_name reg) (f_name f) = Some (reg, f)"
proof -
  let ?xs = "concat (map (\<lambda>reg. map (\<lambda>f. (reg, f)) (r_fields reg)) (d_regs d))"
  have m: "(reg, f) \<in> set ?xs" using assms by auto
  show ?thesis
  proof (cases "find_field d (r_state_name reg) (f_name f)")
    case None
    then show ?thesis using m by (auto simp: find_field_def find_None_iff)
  next
    case (Some y)
    obtain reg' f' where y: "y = (reg', f')" by (cases y)
    from Some have "reg' \<in> set (d_regs d)" "f' \<in> set (r_fields reg')" "fref reg f = fref reg' f'"
      using find_Some_set [OF Some [unfolded find_field_def]] by (auto simp: y)
    from fref_inj [OF assms this] Some y show ?thesis by simp
  qed
qed

lemma priv_step_field:
  "wf_design d \<Longrightarrow> reg \<in> set (d_regs d) \<Longrightarrow> f \<in> set (r_fields reg) \<Longrightarrow>
    priv_step d a k (r_state_name reg) (f_name f) = priv_field d k a reg f"
  by (simp add: priv_step_def find_field_unique)

locale wired = arch_hdl ev nxt for ev nxt +
  fixes d :: csr_design and m :: amodule
  assumes wf: "wf_design d" and names: "names_ok d" and enables: "enables_ok d" and module: "csr_module d = Inr m"
begin

lemma granted_wire:
  assumes "top_ports d \<sigma>"
  shows "module_out ev (access_module d nm) (access_wires \<sigma>) (Sig ''granted'') = Some (bit1 (accepted d (decode \<sigma>)))"
    and "module_out ev (access_module d nm) (access_wires \<sigma>) (Sig ''illegal'')
      = Some (bit1 (k_valid (decode \<sigma>) \<and> \<not> accepted d (decode \<sigma>)))"
proof -
  have "access_ports (access_wires \<sigma>)" using assms by (simp add: access_ports_def access_wires_def top_ports_def)
  moreover have "addresses_fit d" using wf by (simp add: wf_design_def)
  ultimately show "module_out ev (access_module d nm) (access_wires \<sigma>) (Sig ''granted'') = Some (bit1 (accepted d (decode \<sigma>)))"
    and "module_out ev (access_module d nm) (access_wires \<sigma>) (Sig ''illegal'')
      = Some (bit1 (k_valid (decode \<sigma>) \<and> \<not> accepted d (decode \<sigma>)))"
    using access_outputs [of d "access_wires \<sigma>" nm]
    by (auto simp: accepted_def decode_def access_wires_def intro!: arg_cong [where f = bit1])
qed

lemma hwif_wire:
  assumes "reg \<in> set (d_regs d)" and "f \<in> set (r_fields reg)" and "f_hw_writable f"
  shows "csr_wires ev d s \<sigma> (Mem ''hwif_in'' (member_name reg f)) =
    trap_drive f (k_trap (decode \<sigma>)) (k_xret (decode \<sigma>)) (\<sigma> (Sig (save_port_name reg f)))
      (\<sigma> (Sig (restore_port_name reg f))) (\<sigma> (Sig (mirror_port_name reg f))) (\<sigma> (Mem ''hwif_live_w'' (member_name reg f)))"
  using trap_routes [OF names assms, of "trap_coord_name d" "trap_wires \<sigma>"]
  by (simp add: csr_wires_def decode_def trap_wires_def)

lemma hwif_sized:
  assumes "top_ports d \<sigma>" and "reg \<in> set (d_regs d)" and "f \<in> set (r_fields reg)" and "f_hw_writable f"
  shows "sized (f_width f) (csr_wires ev d s \<sigma> (Mem ''hwif_in'' (member_name reg f)))"
  using assms by (auto simp: hwif_wire trap_drive_def top_ports_def)

lemma field_wire:
  assumes "reg \<in> set (d_regs d)"
  shows "csr_wires ev d s \<sigma> (fref reg f) = s (fref reg f)"
  using wf_designD(4,5) [OF wf assms] by (simp add: csr_wires_def)

lemma command_wires:
  assumes "top_ports d \<sigma>"
  shows "csr_wires ev d s \<sigma> (Mem ''csr'' ''cmd_valid'') = \<sigma> (Sig ''csr_cmd_valid'')"
    "csr_wires ev d s \<sigma> (Mem ''csr'' ''cmd_addr'') = \<sigma> (Sig ''csr_cmd_addr'')"
    "csr_wires ev d s \<sigma> (Mem ''csr'' ''cmd_wdata'') = \<sigma> (Sig ''csr_cmd_wdata'')"
    "csr_wires ev d s \<sigma> (Mem ''csr'' ''cmd_op'') = BV 2 (k_op (decode \<sigma>) mod 4)"
    "csr_wires ev d s \<sigma> (Sig ''granted'') = bit1 (accepted d (decode \<sigma>))"
proof -
  have "bw (\<sigma> (Sig ''csr_opcode'')) = 3" using assms by (simp add: top_ports_def sized_def)
  then show "csr_wires ev d s \<sigma> (Mem ''csr'' ''cmd_op'') = BV 2 (k_op (decode \<sigma>) mod 4)"
    by (simp add: csr_wires_def ev_slice ev_ref decode_def take_bit_eq_mod numeral_2_eq_2)
qed (simp_all add: csr_wires_def granted_wire [OF assms])

lemma wired_env:
  assumes "holds_state d s a" and "top_ports d \<sigma>"
  shows "csr_env d (csr_wires ev d s \<sigma>)"
  using assms hwif_sized [OF assms(2)]
  by (simp add: csr_env_def command_wires field_wire holds_state_def member_name_def top_ports_def)

lemma wired_hits:
  assumes "top_ports d \<sigma>"
  shows "sw_hits (csr_wires ev d s \<sigma>) reg \<longleftrightarrow>
    accepted d (decode \<sigma>) \<and> is_write_op (k_op (decode \<sigma>)) \<and> k_addr (decode \<sigma>) = r_address reg"
  by (auto simp: sw_hits_def cmd_fires_def command_wires [OF assms] is_write_op_def accepted_def)
     (simp_all add: decode_def)


lemma wired_bumps:
  assumes st: "holds_state d s a" and reg: "reg \<in> set (d_regs d)" and f: "f \<in> set (r_fields reg)"
  shows "bumps d (csr_wires ev d s \<sigma>) f \<longleftrightarrow> priv_count d (decode \<sigma>) a f"
proof -
  have en: "csr_wires ev d s \<sigma> (Sig (the (f_hw_increment_when g))) = \<sigma> (Sig (the (f_hw_increment_when g)))"
    if "r \<in> set (d_regs d)" "g \<in> set (r_fields r)" "truthy (f_hw_increment_when g)" for r g
    using enables that by (auto simp: enables_ok_def csr_wires_def)
  show ?thesis
  proof (cases "truthy (f_hw_increment_when f) \<or> \<not> truthy (f_hw_increment_high_of f)")
    case True
    then show ?thesis using en [OF reg f] by (auto simp: bumps_def priv_count_def decode_def)
  next
    case False
    then obtain low_reg low where low: "find_reg d (the (f_hw_increment_high_of f)) = Some low_reg"
      "low_counter_fields low_reg = [low]"
      using wf_fieldD(1) [OF wf reg f] by (auto simp: valid_field_def valid_high_of_def)
    from low(1) have lr: "low_reg \<in> set (d_regs d)" unfolding find_reg_def by (blast dest: find_Some_set)
    from low(2) have lf: "low \<in> set (r_fields low_reg)" "truthy (f_hw_increment_when low)"
      unfolding low_counter_fields_def by (auto simp: filter_eq_Cons_iff)
    from st lr lf(1) have "s (fref low_reg low) = BV (f_width low) (a (r_state_name low_reg) (f_name low))"
      by (simp add: holds_state_def)
    then show ?thesis using False low en [OF lr lf] field_wire [OF lr, of s \<sigma> low]
      by (simp add: bumps_def priv_count_def decode_def)
  qed
qed

lemma wired_next:
  assumes st: "holds_state d s a" and ports: "top_ports d \<sigma>"
    and reg: "reg \<in> set (d_regs d)" and f: "f \<in> set (r_fields reg)"
  shows "csr_next d (csr_wires ev d s \<sigma>) reg f = priv_field d (decode \<sigma>) a reg f"
proof -
  have old: "csr_wires ev d s \<sigma> (fref reg f) = BV (f_width f) (a (r_state_name reg) (f_name f))"
    using st reg f by (simp add: field_wire holds_state_def)
  have hw: "bn (csr_wires ev d s \<sigma> (Mem ''hwif_in'' (member_name reg f))) =
      trap_drive f (k_trap (decode \<sigma>)) (k_xret (decode \<sigma>)) (k_save (decode \<sigma>) reg f) (k_restore (decode \<sigma>) reg f)
        (k_mirror (decode \<sigma>) reg f) (k_live (decode \<sigma>) reg f)" if "f_hw_writable f"
    by (simp add: hwif_wire [OF reg f that] trap_drive_def) (simp add: decode_def)
  have wd: "bn (csr_wires ev d s \<sigma> (Mem ''csr'' ''cmd_wdata'')) = k_wdata (decode \<sigma>)"
    by (simp add: command_wires [OF ports] decode_def)
  show ?thesis
    using hw [unfolded member_name_def] wd
    by (simp add: csr_next_def priv_field_def Let_def priv_write_def wired_hits [OF ports]
        wired_bumps [OF st reg f] old command_wires(4) [OF ports] conj_ac)
qed

lemma wired_step:
  assumes st: "holds_state d s a" and ports: "top_ports d \<sigma>"
  shows "holds_state d (top_next ev nxt d m s \<sigma>) (priv_step d a (decode \<sigma>))"
  unfolding holds_state_def
proof (intro ballI conjI)
  fix reg f assume reg: "reg \<in> set (d_regs d)" and f: "f \<in> set (r_fields reg)"
  note env = wired_env [OF assms]
  show "top_next ev nxt d m s \<sigma> (fref reg f) = BV (f_width f) (priv_step d a (decode \<sigma>) (r_state_name reg) (f_name f))"
    unfolding priv_step_field [OF wf reg f] top_next_def field_step [OF wf env module reg f] wired_next [OF assms reg f] ..
  show "priv_step d a (decode \<sigma>) (r_state_name reg) (f_name f) < 2 ^ f_width f"
    using csr_next_less [OF wf env reg f]
    unfolding priv_step_field [OF wf reg f] wired_next [OF assms reg f] .
qed

lemma wired_read:
  assumes st: "holds_state d s a"
  shows "csr_rdata d (csr_wires ev d s \<sigma>) addr = priv_read d a addr"
proof (cases "find (\<lambda>reg. r_address reg = addr) (d_regs d)")
  case None
  then show ?thesis by (simp add: csr_rdata_def priv_read_def)
next
  case (Some reg)
  then have reg: "reg \<in> set (d_regs d)" by (blast dest: find_Some_set)
  have "map (\<lambda>f. visible (csr_wires ev d s \<sigma>) reg f * 2 ^ f_lsb f) (r_fields reg)
    = map (\<lambda>f. (if f_wpri f \<or> \<not> f_sw_readable f then 0 else a (r_state_name reg) (f_name f)) * 2 ^ f_lsb f) (r_fields reg)"
    using st reg by (simp add: visible_def field_wire holds_state_def)
  then show ?thesis unfolding csr_rdata_def priv_read_def Some read_value_def option.case by (rule arg_cong)
qed

lemma wired_out:
  assumes st: "holds_state d s a" and ports: "top_ports d \<sigma>"
  shows "top_out ev d m s \<sigma> = priv_out d a (decode \<sigma>)"
proof -
  have k: "isset (csr_wires ev d s \<sigma> (Mem ''csr'' ''cmd_valid'')) = k_valid (decode \<sigma>)"
    "bn (csr_wires ev d s \<sigma> (Mem ''csr'' ''cmd_addr'')) = k_addr (decode \<sigma>)"
    by (simp_all add: command_wires [OF ports] decode_def)
  show ?thesis
    unfolding top_out_def priv_out_def Let_def rsp_rdata_out [OF wf wired_env [OF assms] module] k wired_read [OF st]
    by (simp add: granted_wire [OF ports] bit1_def)
qed

end

sublocale wired \<subseteq> spec: simulation "top_next ev nxt d m" "top_out ev d m" "priv_step d" "priv_out d"
  "holds_state d" "top_ports d" decode
  by unfold_locales (auto intro: wired_step wired_out)

context wired
begin

lemmas spec_runs = spec.runs

end

interpretation demo_top: wired arch_eval arch_next demo_design demo_csr_module
  by (intro wired.intro wired_axioms.intro arch.arch_hdl_axioms demo_wf demo_names_ok demo_module)
    (unfold enables_ok_def, code_simp)


section \<open>Reset\<close>

definition priv_reset :: "csr_design \<Rightarrow> priv_state" where
  "priv_reset d st fn = (case find_field d st fn of None \<Rightarrow> 0 | Some (reg, f) \<Rightarrow> f_reset f)"

definition resets_fit :: "csr_design \<Rightarrow> bool" where
  "resets_fit d \<longleftrightarrow> (\<forall>reg \<in> set (d_regs d). \<forall>f \<in> set (r_fields reg). f_reset f < 2 ^ f_width f)"

lemma reset_holds: "wf_design d \<Longrightarrow> resets_fit d \<Longrightarrow> reset_state d s \<Longrightarrow> holds_state d s (priv_reset d)"
  by (simp add: holds_state_def reset_state_def resets_fit_def priv_reset_def find_field_unique)

section \<open>A run of the demonstration design\<close>

definition tagged :: "(csr_field \<Rightarrow> bool) \<Rightarrow> (csr_reg \<Rightarrow> csr_field \<Rightarrow> 'n) \<Rightarrow> csr_design \<Rightarrow> ('n \<times> nat) list" where
  "tagged P n d = concat (map (\<lambda>reg. map (\<lambda>f. (n reg f, f_width f)) (filter P (r_fields reg))) (d_regs d))"

lemma tagged_all: "(\<forall>reg \<in> set (d_regs d). \<forall>f \<in> set (r_fields reg). P f \<longrightarrow> Q (n reg f) (f_width f))
    \<longleftrightarrow> (\<forall>(x, w) \<in> set (tagged P n d). Q x w)"
  by (auto simp: tagged_def)

lemma demo_tagged:
  "tagged f_save_on_trap save_port_name demo_design = [(''save_mstatus_mpie'', 1), (''save_mstatus_mpp'', 2)]"
  "tagged f_restore_on_ret restore_port_name demo_design = [(''restore_mstatus_mie'', 1), (''restore_mstatus_mpie'', 1)]"
  "tagged f_hw_mirror mirror_port_name demo_design = [(''mirror_mip_msip'', 1)]"
  "tagged f_hw_writable member_name demo_design =
    [(''mstatus_mie'', 1), (''mstatus_mpie'', 1), (''mstatus_mpp'', 2), (''mip_msip'', 1)]"
  by code_simp+

text \<open>A CSR instruction at the given privilege, without a trap; the save ports carry zero.\<close>

definition demo_top_in :: "nat \<Rightarrow> nat \<Rightarrow> nat \<Rightarrow> nat \<Rightarrow> env" where
  "demo_top_in priv opc addr wdata r =
     (case r of
        Sig s \<Rightarrow>
          if s = ''csr_cmd_valid'' then BV 1 1 else if s = ''csr_cmd_addr'' then BV 12 addr
          else if s = ''csr_cmd_wdata'' then BV 32 wdata else if s = ''csr_opcode'' then BV 3 opc
          else if s = ''cur_priv'' then BV 2 priv else if s = ''save_mstatus_mpp'' then BV 2 0 else BV 1 0
      | Mem b x \<Rightarrow> if x = ''mstatus_mpp'' then BV 2 0 else BV 1 0)"

lemma demo_top_ports:
  assumes "priv < 4" "opc < 8" "addr < 2 ^ 12" "wdata < 2 ^ 32"
  shows "top_ports demo_design (demo_top_in priv opc addr wdata)"
proof -
  let ?s = "demo_top_in priv opc addr wdata"
  have eq: "top_ports d \<sigma> \<longleftrightarrow>
     sized 1 (\<sigma> (Sig ''csr_cmd_valid'')) \<and> sized 12 (\<sigma> (Sig ''csr_cmd_addr''))
     \<and> sized (d_xlen d) (\<sigma> (Sig ''csr_cmd_wdata'')) \<and> sized 3 (\<sigma> (Sig ''csr_opcode''))
     \<and> sized 2 (\<sigma> (Sig ''cur_priv''))
     \<and> (\<forall>(x, w) \<in> set (tagged f_save_on_trap save_port_name d). sized w (\<sigma> (Sig x)))
     \<and> (\<forall>(x, w) \<in> set (tagged f_restore_on_ret restore_port_name d). sized w (\<sigma> (Sig x)))
     \<and> (\<forall>(x, w) \<in> set (tagged f_hw_mirror mirror_port_name d). sized w (\<sigma> (Sig x)))
     \<and> (\<forall>(x, w) \<in> set (tagged f_hw_writable member_name d). sized w (\<sigma> (Mem ''hwif_live_w'' x)))" for d \<sigma>
    unfolding tagged_all [symmetric] top_ports_def by blast
  show ?thesis unfolding eq demo_tagged demo_xlen using assms by (simp add: demo_top_in_def)
qed

lemma demo_resets: "resets_fit demo_design"
  using demo_resets_fit by (auto simp: resets_fit_def)

lemma demo_mtvec_found: "find (\<lambda>reg. r_address reg = 0x305) (d_regs demo_design) = Some (demo_reg 1)"
proof -
  have "distinct (map (\<lambda>v. fst (snd (snd v))) (map reg_view (d_regs demo_design)))" unfolding demo_view by simp
  then have "distinct (map r_address (d_regs demo_design))" by (simp add: reg_view_def comp_def)
  from find_unique [OF this demo_nth(1) [of 1]] show ?thesis by (simp add: demo_mtvec)
qed


lemma demo_base_bits:
  "f_width (demo_fld (Suc 0) (Suc 0)) = 30" "f_lsb (demo_fld (Suc 0) (Suc 0)) = 2"
  "f_warl (demo_fld (Suc 0) (Suc 0)) = None" "f_sw_readable (demo_fld (Suc 0) (Suc 0))"
  "\<not> f_wpri (demo_fld (Suc 0) (Suc 0))" "\<not> f_hw_writable (demo_fld (Suc 0) (Suc 0))"
  "\<not> counter_tag (demo_fld (Suc 0) (Suc 0))" "f_reset (demo_fld (Suc 0) (Suc 0)) = 0"
  using demo_fld_view [of "Suc 0" 1] demo_mtvec
  by (simp_all add: demo_reg_view [of "Suc 0"] demo_view field_view_def)

lemmas demo_mtvec_facts = demo_mtvec demo_mode demo_base demo_base_bits

lemma demo_mtvec_fields: "r_fields (demo_reg (Suc 0)) = [demo_fld (Suc 0) 0, demo_fld (Suc 0) (Suc 0)]"
  using demo_mtvec(4) by (auto simp: demo_fld_def length_Suc_conv numeral_2_eq_2)

lemma demo_mtvec_member:
  "demo_reg (Suc 0) \<in> set (d_regs demo_design)" "demo_fld (Suc 0) 0 \<in> set (r_fields (demo_reg (Suc 0)))"
  "demo_fld (Suc 0) (Suc 0) \<in> set (r_fields (demo_reg (Suc 0)))"
  using demo_nth(1) [of "Suc 0"] by (simp_all add: demo_mtvec_fields)

lemma demo_mtvec_read: "priv_read demo_design a 773 = a ''mtvec_r'' ''mode'' + 4 * a ''mtvec_r'' ''base''"
  using demo_mtvec_found by (simp add: priv_read_def demo_mtvec_fields demo_mtvec_facts)

lemma demo_mtvec_step:
  "priv_step demo_design a k ''mtvec_r'' ''mode'' = priv_field demo_design k a (demo_reg (Suc 0)) (demo_fld (Suc 0) 0)"
  "priv_step demo_design a k ''mtvec_r'' ''base'' = priv_field demo_design k a (demo_reg (Suc 0)) (demo_fld (Suc 0) (Suc 0))"
  using priv_step_field [OF demo_wf demo_mtvec_member(1,2), of a k]
    priv_step_field [OF demo_wf demo_mtvec_member(1,3), of a k] by (simp_all add: demo_mtvec_facts)

lemma untagged_no_count: "\<not> counter_tag f \<Longrightarrow> \<not> priv_count d k a f"
  by (simp add: counter_tag_def priv_count_def)

lemma demo_mtvec_reset:
  "priv_reset demo_design ''mtvec_r'' ''mode'' = 0" "priv_reset demo_design ''mtvec_r'' ''base'' = 0"
  using find_field_unique [OF demo_wf demo_mtvec_member(1,2)] find_field_unique [OF demo_wf demo_mtvec_member(1,3)]
  by (simp_all add: priv_reset_def demo_mtvec_facts)

lemma demo_mtvec_priv: "access_ok demo_design 773 opc priv \<longleftrightarrow> 3 \<le> priv"
proof -
  have "min_priv demo_design 0x305 = 3" by code_simp
  then show ?thesis by (simp add: access_ok_def read_only_addr_def)
qed

lemma demo_decode:
  "k_valid (decode (demo_top_in priv opc addr wdata))" "k_addr (decode (demo_top_in priv opc addr wdata)) = addr"
  "k_op (decode (demo_top_in priv opc addr wdata)) = opc" "k_wdata (decode (demo_top_in priv opc addr wdata)) = wdata"
  "k_priv (decode (demo_top_in priv opc addr wdata)) = priv"
  by (simp_all add: decode_def demo_top_in_def isset_def)

text \<open>Machine mode writes 15 to \<^verbatim>\<open>mtvec\<close>; user mode is refused; machine mode reads the value back.\<close>

definition demo_inputs :: "env list" where
  "demo_inputs = [demo_top_in 3 1 773 15, demo_top_in 0 1 773 0, demo_top_in 3 2 773 0]"

lemma demo_inputs_ports: "\<forall>\<sigma> \<in> set demo_inputs. top_ports demo_design \<sigma>"
  by (simp add: demo_inputs_def demo_top_ports)

lemma demo_priv_run:
  "outputs (priv_step demo_design) (priv_out demo_design) (priv_reset demo_design) (map decode demo_inputs) =
   [(Some 1, Some 0, Some 0), (Some 0, Some 1, Some 15), (Some 1, Some 0, Some 15)]"
  by (simp add: demo_inputs_def priv_out_def accepted_def demo_decode demo_mtvec_priv demo_mtvec_read demo_mtvec_step
      demo_mtvec_reset priv_field_def Let_def priv_write_def is_write_op_def demo_mtvec_facts sw_value_def op_value_def
      field_slice_def legalize_def untagged_no_count take_bit_eq_mod drop_bit_eq_div)

section \<open>Properties\<close>



end
