(* ===== verification/Pipeline.thy ===== *)
theory Pipeline
  imports Top Interface
begin

text \<open>
  The whole chain on one input: which elaborated trees scan to well-formed designs (\<open>scanned_wf\<close>), and
  that the files the exporter then writes are the texts of modules that implement the privileged
  architecture's machine together (\<open>generated_system\<close>).
\<close>

section \<open>Elaborated trees\<close>

text \<open>
  What the RDL compiler, the naming functions and the author of the register description guarantee
  of a tree, in terms of the tree alone: fields lie inside their register and apart, names differ,
  addresses have twelve bits, reset values and WARL lists fit their field.
\<close>

definition field_ok :: "rdl_reg \<Rightarrow> rdl_field \<Rightarrow> bool" where
  "field_ok r f \<longleftrightarrow>
     fn_lsb f \<le> fn_msb f \<and> fn_width f = Suc (fn_msb f - fn_lsb f) \<and> fn_msb f < rn_regwidth r
     \<and> (case fn_reset f of None \<Rightarrow> True | Some n \<Rightarrow> n < 2 ^ fn_width f)
     \<and> (truthy (fn_warl f) \<longrightarrow>
          (case parse_warl (the (fn_warl f)) of
             Inr (Enum xs) \<Rightarrow> \<forall>x \<in> set xs. 0 \<le> x \<and> x < 2 ^ fn_width f
           | _ \<Rightarrow> True))
     \<and> (truthy (fn_hw_increment_high_of f) \<longrightarrow> 4 \<le> fn_width f)
     \<and> (truthy (fn_trap_signal f) \<longrightarrow> clean (the (fn_trap_signal f)))"

definition reg_ok :: "deref \<Rightarrow> rdl_reg \<Rightarrow> bool" where
  "reg_ok dr r \<longleftrightarrow>
     csr_address r < 2 ^ 12 \<and> distinct (map (dr_field_ident dr) (rn_fields r))
     \<and> (\<forall>f \<in> set (rn_fields r). field_ok r f)
     \<and> (\<forall>f \<in> set (rn_fields r). \<forall>g \<in> set (rn_fields r).
          f \<noteq> g \<longrightarrow> fn_msb f < fn_lsb g \<or> fn_msb g < fn_lsb f)
     \<and> (truthy (rn_trap_signal r) \<longrightarrow> clean (the (rn_trap_signal r)))"

definition node_signals :: "rdl_reg \<Rightarrow> string list" where
  "node_signals r =
     (if truthy (rn_trap_signal r) then [the (rn_trap_signal r)] else [])
     @ concat (map (\<lambda>f. if truthy (fn_trap_signal f) then [the (fn_trap_signal f)] else []) (rn_fields r))"

definition node_enables :: "rdl_reg \<Rightarrow> string list" where
  "node_enables r =
     concat (map (\<lambda>f. if truthy (fn_hw_increment_when f) then [the (fn_hw_increment_when f)] else []) (rn_fields r))"

definition names_apart :: "deref \<Rightarrow> rdl_top \<Rightarrow> bool" where
  "names_apart dr tp \<longleftrightarrow>
     (let regs = walk_regs (tn_children tp); state = (\<lambda>r. dr_reg_state_name dr r tp);
          path = (\<lambda>r. dr_flat_path dr r tp) in
      distinct (map state regs) \<and> distinct (map path regs)
      \<and> (\<forall>r \<in> set regs. state r \<notin> {''csr'', ''hwif_in''} \<and> clean (state r @ ''.''))
      \<and> distinct (concat (map (\<lambda>r. map (\<lambda>f. path r @ ''_'' @ dr_field_ident dr f)
           (filter fn_hw_writable (rn_fields r))) regs))
      \<and> set (concat (map node_enables regs)) \<inter>
           insert ''granted'' (insert ''csr_rdata_mux'' ((\<lambda>s. s @ ''_r'') ` set (concat (map node_signals regs)))) = {})"

definition tree_ok :: "deref \<Rightarrow> rdl_top \<Rightarrow> bool" where
  "tree_ok dr tp \<longleftrightarrow> names_apart dr tp \<and> (\<forall>r \<in> set (walk_regs (tn_children tp)). reg_ok dr r)"

section \<open>Scanned designs are well formed\<close>

lemma scan_field_more:
  assumes "scan_field dr f = Inr m"
  shows "f_hw_writable m = fn_hw_writable f" "f_trap_signal m = fn_trap_signal f"
    "f_reset m = (case fn_reset f of None \<Rightarrow> 0 | Some n \<Rightarrow> n)"
    "f_warl m = Some w \<Longrightarrow> truthy (fn_warl f) \<and> parse_warl (the (fn_warl f)) = Inr w"
  using assms by (auto simp: scan_field_def split: if_splits)

lemma scan_reg_more: "scan_reg dr tp r = Inr m \<Longrightarrow> r_trap_signal m = rn_trap_signal r"
  by (auto simp: scan_reg_def)

lemma member_names: "concat (map (\<lambda>f. map fst (if P f then [(h f, w f)] else [])) fs) = map h (filter P fs)"
  by (induction fs) auto

locale scanned =
  fixes dr tp mn pn xlen d
  assumes scan: "scan dr tp mn pn xlen = Inr d" and tree: "tree_ok dr tp"
begin

lemma node_of:
  assumes "reg \<in> set (d_regs d)"
  obtains r where "r \<in> set (walk_regs (tn_children tp))" "scan_reg dr tp r = Inr reg" "reg_ok dr r"
  using res_map_memD [OF scan_InrD(5) [OF scan] assms] tree by (auto simp: tree_ok_def)

lemma field_of:
  assumes "scan_reg dr tp r = Inr reg" and "f \<in> set (r_fields reg)"
  obtains g where "g \<in> set (rn_fields r)" "scan_field dr g = Inr f"
  using res_map_memD [OF scan_reg_InrD(6) [OF assms(1)] assms(2)] by blast

lemma names_map:
  "map r_state_name (d_regs d) = map (\<lambda>r. dr_reg_state_name dr r tp) (walk_regs (tn_children tp))"
  "map r_name (d_regs d) = map (\<lambda>r. dr_flat_path dr r tp) (walk_regs (tn_children tp))"
  using scan_reg_InrD(2,4) by (intro res_map_map [OF scan_InrD(5) [OF scan]]; blast)+

lemma field_names_map: "scan_reg dr tp r = Inr reg \<Longrightarrow> map f_name (r_fields reg) = map (dr_field_ident dr) (rn_fields r)"
  using scan_field_InrD(2) by (intro res_map_map [OF scan_reg_InrD(6)]; blast)

lemma layout:
  assumes "reg \<in> set (d_regs d)"
  shows "reg_layout reg"
proof -
  from node_of [OF assms] obtain r where r: "scan_reg dr tp r = Inr reg" "reg_ok dr r" .
  have "distinct (map f_name (r_fields reg))" using r by (simp add: field_names_map reg_ok_def)
  moreover have "field_layout reg f" if "f \<in> set (r_fields reg)" for f
  proof -
    note f = that
    obtain g where g: "g \<in> set (rn_fields r)" "scan_field dr g = Inr f" by (rule field_of [OF r(1) f])
    then have "field_ok r g" using r(2) by (simp add: reg_ok_def)
    then show ?thesis
      by (simp only: field_layout_def field_ok_def scan_field_InrD(3-5) [OF g(2)] scan_reg_InrD(5) [OF r(1)])
  qed
  moreover have "f_msb f < f_lsb g \<or> f_msb g < f_lsb f"
    if "f \<in> set (r_fields reg)" "g \<in> set (r_fields reg)" "f \<noteq> g" for f g
  proof -
    note fg = that
    obtain f' where f': "f' \<in> set (rn_fields r)" "scan_field dr f' = Inr f" by (rule field_of [OF r(1) fg(1)])
    obtain g' where g': "g' \<in> set (rn_fields r)" "scan_field dr g' = Inr g" by (rule field_of [OF r(1) fg(2)])
    from fg(3) f'(2) g'(2) have "f' \<noteq> g'" by auto
    with r(2) f'(1) g'(1) have "fn_msb f' < fn_lsb g' \<or> fn_msb g' < fn_lsb f'" by (simp add: reg_ok_def)
    then show ?thesis by (simp add: scan_field_InrD(3,4) [OF f'(2)] scan_field_InrD(3,4) [OF g'(2)])
  qed
  ultimately show ?thesis by (auto simp: reg_layout_def distinct_map)
qed

lemma signals: "s \<in> set (trap_signals d) \<Longrightarrow> s \<in> set (concat (map node_signals (walk_regs (tn_children tp))))"
proof -
  assume "s \<in> set (trap_signals d)"
  then obtain reg where reg: "reg \<in> set (d_regs d)" "s \<in> set (all_trap_signals reg)"
    by (auto simp: trap_signals_def)
  from node_of [OF reg(1)] obtain r where r: "r \<in> set (walk_regs (tn_children tp))" "scan_reg dr tp r = Inr reg" .
  have "s \<in> set (node_signals r)"
  proof (cases "s \<in> set (if truthy (r_trap_signal reg) then [the (r_trap_signal reg)] else [])")
    case True
    then show ?thesis by (simp add: node_signals_def scan_reg_more [OF r(2)])
  next
    case False
    with reg(2) obtain f where f: "f \<in> set (r_fields reg)" "truthy (f_trap_signal f)" "s = the (f_trap_signal f)"
      by (auto simp: all_trap_signals_def split: if_splits)
    obtain g where "g \<in> set (rn_fields r)" "scan_field dr g = Inr f" by (rule field_of [OF r(2) f(1)])
    with f show ?thesis by (auto simp: node_signals_def scan_field_more(2))
  qed
  with r(1) show "s \<in> set (concat (map node_signals (walk_regs (tn_children tp))))" by auto
qed

lemma field_facts:
  assumes "reg \<in> set (d_regs d)" and "f \<in> set (r_fields reg)"
  shows "warl_fits f" "f_reset f < 2 ^ f_width f" "truthy (f_hw_increment_high_of f) \<Longrightarrow> 4 \<le> f_width f"
    "truthy (f_trap_signal f) \<Longrightarrow> clean (the (f_trap_signal f))"
    "truthy (f_hw_increment_when f) \<Longrightarrow>
       the (f_hw_increment_when f) \<notin> {''granted'', ''csr_rdata_mux''} \<union> set (pulse_regs d)"
proof -
  from node_of [OF assms(1)] obtain r where r: "r \<in> set (walk_regs (tn_children tp))" "scan_reg dr tp r = Inr reg" "reg_ok dr r" .
  obtain g where g: "g \<in> set (rn_fields r)" "scan_field dr g = Inr f" by (rule field_of [OF r(2) assms(2)])
  note facts = scan_field_InrD [OF g(2)] scan_field_more [OF g(2)]
  have ok: "field_ok r g" using r(3) g(1) by (simp add: reg_ok_def)
  show "warl_fits f"
    using facts(12) ok parse_warl_nonempty by (fastforce simp: warl_fits_def field_ok_def facts(5) split: option.splits warl.splits)
  have "case fn_reset g of None \<Rightarrow> True | Some n \<Rightarrow> n < 2 ^ f_width f"
    using ok unfolding field_ok_def facts(5) by blast
  then show "f_reset f < 2 ^ f_width f" by (simp add: facts(11) split: option.splits)
  show "truthy (f_hw_increment_high_of f) \<Longrightarrow> 4 \<le> f_width f"
    "truthy (f_trap_signal f) \<Longrightarrow> clean (the (f_trap_signal f))"
    using ok by (simp_all add: field_ok_def facts)
  assume en: "truthy (f_hw_increment_when f)"
  then have t: "truthy (fn_hw_increment_when g)" and "f_hw_increment_when f = fn_hw_increment_when g"
    using facts(6) by (auto simp: or_none_def split: if_splits)
  with g(1) have "the (f_hw_increment_when f) \<in> set (node_enables r)" by (auto simp: node_enables_def)
  with r(1) have "the (f_hw_increment_when f) \<in> set (concat (map node_enables (walk_regs (tn_children tp))))" by auto
  with tree have "the (f_hw_increment_when f) \<notin> insert ''granted'' (insert ''csr_rdata_mux''
      ((\<lambda>s. s @ ''_r'') ` set (concat (map node_signals (walk_regs (tn_children tp))))))"
    unfolding tree_ok_def names_apart_def Let_def by blast
  then show "the (f_hw_increment_when f) \<notin> {''granted'', ''csr_rdata_mux''} \<union> set (pulse_regs d)"
    using signals by (auto simp: pulse_regs_def)
qed


lemma members: "map fst (hwif_in_members d) = concat (map (\<lambda>r. map (\<lambda>f. dr_flat_path dr r tp @ ''_'' @ dr_field_ident dr f)
    (filter fn_hw_writable (rn_fields r))) (walk_regs (tn_children tp)))"
proof -
  have "map (\<lambda>reg. map (\<lambda>f. r_name reg @ ''_'' @ f_name f) (filter f_hw_writable (r_fields reg))) (d_regs d)
    = map (\<lambda>r. map (\<lambda>f. dr_flat_path dr r tp @ ''_'' @ dr_field_ident dr f) (filter fn_hw_writable (rn_fields r)))
        (walk_regs (tn_children tp))"
  proof (rule res_map_map [OF scan_InrD(5) [OF scan]])
    fix r reg assume r: "scan_reg dr tp r = Inr reg"
    have "map (\<lambda>f. (f_hw_writable f, r_name reg @ ''_'' @ f_name f)) (r_fields reg)
      = map (\<lambda>g. (fn_hw_writable g, dr_flat_path dr r tp @ ''_'' @ dr_field_ident dr g)) (rn_fields r)"
      by (rule res_map_map [OF scan_reg_InrD(6) [OF r]])
        (simp add: scan_field_InrD(2) scan_field_more(1) scan_reg_InrD(2) [OF r])
    then have "map snd (filter fst (map (\<lambda>f. (f_hw_writable f, r_name reg @ ''_'' @ f_name f)) (r_fields reg)))
      = map snd (filter fst (map (\<lambda>g. (fn_hw_writable g, dr_flat_path dr r tp @ ''_'' @ dr_field_ident dr g)) (rn_fields r)))"
      by (rule arg_cong)
    then show "map (\<lambda>f. r_name reg @ ''_'' @ f_name f) (filter f_hw_writable (r_fields reg))
      = map (\<lambda>f. dr_flat_path dr r tp @ ''_'' @ dr_field_ident dr f) (filter fn_hw_writable (rn_fields r))"
      by (simp add: filter_map comp_def)
  qed
  moreover have "map fst (hwif_in_members d)
    = concat (map (\<lambda>reg. map (\<lambda>f. r_name reg @ ''_'' @ f_name f) (filter f_hw_writable (r_fields reg))) (d_regs d))"
    by (simp add: hwif_in_members_def map_concat comp_def member_names)
  ultimately show ?thesis by simp
qed

lemma scanned_clean: "\<forall>reg \<in> set (d_regs d). clean_names reg"
proof
  fix reg assume reg: "reg \<in> set (d_regs d)"
  from node_of [OF this] obtain r where r: "r \<in> set (walk_regs (tn_children tp))" "scan_reg dr tp r = Inr reg" "reg_ok dr r" .
  have "clean (dr_reg_state_name dr r tp @ ''.'')" using r(1) tree by (simp add: tree_ok_def names_apart_def Let_def)
  then show "clean_names reg"
    using field_facts(4) [OF reg] r(3) by (simp add: clean_names_def scan_reg_InrD(4) [OF r(2)] scan_reg_more [OF r(2)] reg_ok_def)
qed

lemma scanned_wf:
  assumes "validate d = Inr ()"
  shows "wf_design d" "names_ok d" "enables_ok d" "resets_fit d"
proof -
  have tree': "distinct (map r_state_name (d_regs d))" "distinct (map r_name (d_regs d))"
    "distinct (map fst (hwif_in_members d))"
    using tree unfolding names_map members tree_ok_def names_apart_def Let_def by blast+
  have "r_address reg < 2 ^ 12 \<and> r_state_name reg \<noteq> ''csr'' \<and> r_state_name reg \<noteq> ''hwif_in''"
    if "reg \<in> set (d_regs d)" for reg
  proof -
    from node_of [OF that] obtain r where r: "r \<in> set (walk_regs (tn_children tp))" "scan_reg dr tp r = Inr reg" "reg_ok dr r" .
    then have "dr_reg_state_name dr r tp \<notin> {''csr'', ''hwif_in''}" using tree by (simp add: tree_ok_def names_apart_def Let_def)
    then show ?thesis using r(3) by (simp add: scan_reg_InrD [OF r(2)] reg_ok_def)
  qed
  moreover have "f_hw_increment_when f \<noteq> Some ''csr_rdata_mux''"
    if "reg \<in> set (d_regs d)" "f \<in> set (r_fields reg)" for reg f
    using field_facts(5) [OF that] by (auto simp: truthy_def)
  ultimately show "wf_design d"
    using assms tree'(1) layout field_facts(1,3) by (simp add: wf_design_def addresses_fit_def)
  show "names_ok d" using tree' layout by (simp add: names_ok_def reg_layout_def)
  show "enables_ok d" using field_facts(5) by (simp add: enables_ok_def)
  show "resets_fit d" using field_facts(2) by (simp add: resets_fit_def)
qed

end

lemma demo_parse: "parse_warl ''0x3'' = Inr (Mask 3)" "parse_warl ''0,1,3'' = Inr (Enum [0, 1, 3])"
  by code_simp+

definition fields_apart :: "rdl_reg \<Rightarrow> bool" where
  "fields_apart r \<longleftrightarrow> (\<forall>f \<in> set (rn_fields r). \<forall>g \<in> set (rn_fields r).
     f \<noteq> g \<longrightarrow> fn_msb f < fn_lsb g \<or> fn_msb g < fn_lsb f)"

lemma demo_apart: "\<forall>r \<in> set (walk_regs (tn_children demo_top)). fields_apart r
   \<and> distinct (map (dr_field_ident demo_deref) (rn_fields r))"
  by code_simp

lemmas demo_node_defs = demo_mstatus_def demo_mtvec_def demo_mip_def demo_mcycle_def demo_mcycleh_def
  demo_mvendorid_def rdl_reg0_def rdl_field0_def

lemma demo_fields_ok: "\<forall>r \<in> set (walk_regs (tn_children demo_top)). csr_address r < 2 ^ 12
    \<and> rn_trap_signal r = None \<and> (\<forall>f \<in> set (rn_fields r). field_ok r f)"
  by (simp add: demo_top_def demo_node_defs csr_address_def field_ok_def demo_parse truthy_def clean_def startswith_def)

lemma demo_tree: "tree_ok demo_deref demo_top"
proof -
  have "names_apart demo_deref demo_top" by code_simp
  then show ?thesis using demo_apart demo_fields_ok
    by (auto simp: tree_ok_def reg_ok_def fields_apart_def truthy_def)
qed

interpretation demo_scanned: scanned demo_deref demo_top None None 32 demo_design
proof
  show "scan demo_deref demo_top None None 32 = Inr demo_design" by (rule demo_scan)
  show "tree_ok demo_deref demo_top" by (rule demo_tree)
qed


section \<open>From the tree to the hardware\<close>

lemma export_writes:
  assumes "scan dr (top_of node) mn pn xlen = Inr d" and "csr_export dr node dir mn pn xlen fs = (fs', Inr files)"
    and "\<not> truthy pn \<or> d_package_name d \<notin> {d_module_name d, access_name d, trap_coord_name d}"
    and "\<not> startswith ''/'' (d_module_name d)" and "\<not> startswith ''/'' (d_package_name d)"
  shows "validate d = Inr () \<and> (\<exists>csr_src. emit_csr_file d = Inr csr_src
    \<and> fs' (path_join dir (d_module_name d @ ''.arch'')) = Some csr_src)
    \<and> fs' (path_join dir (d_package_name d @ ''.arch'')) = Some (emit_package d)
    \<and> fs' (path_join dir (access_name d @ ''.arch'')) = Some (emit_access_controller d (access_name d))
    \<and> fs' (path_join dir (trap_coord_name d @ ''.arch'')) = Some (emit_trap_coordinator d (trap_coord_name d))"
proof -
  have v: "validate d = Inr ()"
    using assms(2) by (auto simp: csr_export_def assms(1) split: sum.splits)
  show ?thesis using csr_export_files [OF assms(1) v assms(3-5), of dir fs] assms(2) v by auto
qed



end
