(* ===== verification/Udps.thy ===== *)
theory Udps
  imports Warl
begin

text \<open>
  The declarations of the SystemRDL properties (\<^verbatim>\<open>udps/\<close>) as the command line registers them with the
  RDL compiler: the name, the components a property may stand on, the type of its values, the value an
  assignment without one stands for, and the validator. The lemmas show that a name finds its own
  declaration, whatever rdl2arch adds to the list under other names, and that a text the registered
  check of \<^verbatim>\<open>riscv_csr_addr\<close> or of a role lets through is one the scanners expect.
\<close>

section \<open>Declarations\<close>

datatype rdl_component = Addrmap_comp | Regfile_comp | Reg_comp | Field_comp

datatype udp_type = Int_type | Str_type | Bool_type

datatype udp_value = IntV int | StrV string | BoolV bool

text \<open>
  A subclass of \<^verbatim>\<open>UDPDefinition\<close>. A class without \<^verbatim>\<open>default_assignment\<close> leaves it \<^verbatim>\<open>None\<close>, and one without
  \<^verbatim>\<open>validate\<close> reports nothing; the compiler calls \<^verbatim>\<open>validate\<close> only with a value of the declared type.
\<close>

record udp_def =
  u_name :: string
  u_components :: "rdl_component list"
  u_type :: udp_type
  u_default :: "udp_value option"
  u_validate :: "udp_value \<Rightarrow> string list"

fun int_check :: "(int \<Rightarrow> string list) \<Rightarrow> udp_value \<Rightarrow> string list" where
  "int_check f (IntV i) = f i"
| "int_check f _ = []"

fun str_check :: "(string \<Rightarrow> string list) \<Rightarrow> udp_value \<Rightarrow> string list" where
  "str_check f (StrV s) = f s"
| "str_check f _ = []"

definition RiscvCsrAddr :: udp_def where
  "RiscvCsrAddr = \<lparr>u_name = ''riscv_csr_addr'', u_components = [Reg_comp], u_type = Int_type,
     u_default = None, u_validate = int_check csr_addr_validate\<rparr>"

definition RiscvPriv :: udp_def where
  "RiscvPriv = \<lparr>u_name = ''riscv_priv'', u_components = [Addrmap_comp, Regfile_comp, Reg_comp, Field_comp],
     u_type = Str_type, u_default = Some (StrV ''m''), u_validate = str_check priv_validate\<rparr>"

definition RiscvWpri :: udp_def where
  "RiscvWpri = \<lparr>u_name = ''riscv_wpri'', u_components = [Field_comp], u_type = Bool_type,
     u_default = Some (BoolV False), u_validate = (\<lambda>_. [])\<rparr>"

definition RiscvWarl :: udp_def where
  "RiscvWarl = \<lparr>u_name = ''riscv_warl'', u_components = [Field_comp], u_type = Str_type,
     u_default = None, u_validate = str_check warl_validate\<rparr>"

definition RiscvTrapSignal :: udp_def where
  "RiscvTrapSignal = \<lparr>u_name = ''riscv_trap_signal'', u_components = [Reg_comp, Field_comp], u_type = Str_type,
     u_default = None, u_validate = str_check trap_signal_validate\<rparr>"

definition RiscvSaveOnTrap :: udp_def where
  "RiscvSaveOnTrap = \<lparr>u_name = ''riscv_save_on_trap'', u_components = [Field_comp], u_type = Bool_type,
     u_default = Some (BoolV False), u_validate = (\<lambda>_. [])\<rparr>"

definition RiscvRestoreOnRet :: udp_def where
  "RiscvRestoreOnRet = \<lparr>u_name = ''riscv_restore_on_ret'', u_components = [Field_comp], u_type = Bool_type,
     u_default = Some (BoolV False), u_validate = (\<lambda>_. [])\<rparr>"

definition RiscvHwMirror :: udp_def where
  "RiscvHwMirror = \<lparr>u_name = ''riscv_hw_mirror'', u_components = [Field_comp], u_type = Bool_type,
     u_default = Some (BoolV False), u_validate = (\<lambda>_. [])\<rparr>"

definition RiscvHwIncrementWhen :: udp_def where
  "RiscvHwIncrementWhen = \<lparr>u_name = ''riscv_hw_increment_when'', u_components = [Field_comp],
     u_type = Str_type, u_default = None, u_validate = (\<lambda>_. [])\<rparr>"

definition RiscvHwIncrementHighOf :: udp_def where
  "RiscvHwIncrementHighOf = \<lparr>u_name = ''riscv_hw_increment_high_of'', u_components = [Field_comp],
     u_type = Str_type, u_default = None, u_validate = (\<lambda>_. [])\<rparr>"

definition RiscvIntrClintRole :: udp_def where
  "RiscvIntrClintRole = \<lparr>u_name = ''riscv_intr_clint_role'', u_components = [Reg_comp], u_type = Str_type,
     u_default = None, u_validate = str_check clint_role_validate\<rparr>"

definition RiscvIntrPlicRole :: udp_def where
  "RiscvIntrPlicRole = \<lparr>u_name = ''riscv_intr_plic_role'', u_components = [Reg_comp], u_type = Str_type,
     u_default = None, u_validate = str_check plic_role_validate\<rparr>"

definition riscv_udps :: "udp_def list" where
  "riscv_udps = [RiscvCsrAddr, RiscvPriv, RiscvWpri, RiscvWarl, RiscvTrapSignal, RiscvSaveOnTrap,
     RiscvRestoreOnRet, RiscvHwMirror, RiscvHwIncrementWhen, RiscvHwIncrementHighOf,
     RiscvIntrClintRole, RiscvIntrPlicRole]"

text \<open>\<^verbatim>\<open>ALL_UDPS\<close>: the declarations of rdl2arch are an argument.\<close>

definition all_udps :: "udp_def list \<Rightarrow> udp_def list" where
  "all_udps rdl2arch_udps = riscv_udps @ rdl2arch_udps"

lemmas udp_defs =
  RiscvCsrAddr_def RiscvPriv_def RiscvWpri_def RiscvWarl_def RiscvTrapSignal_def RiscvSaveOnTrap_def
  RiscvRestoreOnRet_def RiscvHwMirror_def RiscvHwIncrementWhen_def RiscvHwIncrementHighOf_def
  RiscvIntrClintRole_def RiscvIntrPlicRole_def

section \<open>Registration\<close>

lemma riscv_udp_names:
  "map u_name riscv_udps = [''riscv_csr_addr'', ''riscv_priv'', ''riscv_wpri'', ''riscv_warl'',
    ''riscv_trap_signal'', ''riscv_save_on_trap'', ''riscv_restore_on_ret'', ''riscv_hw_mirror'',
    ''riscv_hw_increment_when'', ''riscv_hw_increment_high_of'', ''riscv_intr_clint_role'',
    ''riscv_intr_plic_role'']"
  by (simp add: riscv_udps_def udp_defs)

lemma riscv_udps_distinct: "distinct (map u_name riscv_udps)"
  unfolding riscv_udp_names by simp

lemma udp_unique:
  assumes "distinct (map u_name (all_udps up))" and "u \<in> set (all_udps up)" and "v \<in> set (all_udps up)"
    and "u_name u = u_name v"
  shows "u = v"
  using assms by (auto simp: distinct_map dest: inj_onD)

lemma udp_found:
  assumes "distinct (map u_name (all_udps up))" and "u \<in> set riscv_udps"
  shows "find (\<lambda>v. u_name v = u_name u) (all_udps up) = Some u"
proof (cases "find (\<lambda>v. u_name v = u_name u) (all_udps up)")
  case None
  then show ?thesis using assms(2) by (auto simp: find_None_iff all_udps_def)
next
  case (Some v)
  then have "v \<in> set (all_udps up)" "u_name v = u_name u" by (auto simp: find_Some_iff)
  moreover have "u \<in> set (all_udps up)" using assms(2) by (simp add: all_udps_def)
  ultimately show ?thesis using Some udp_unique [OF assms(1)] by metis
qed

section \<open>What the registered validators let through\<close>

lemma csr_addr_accepted: "u_validate RiscvCsrAddr (IntV a) = [] \<longleftrightarrow> 0 \<le> a \<and> a < 2 ^ 12"
  by (auto simp: RiscvCsrAddr_def csr_addr_validate_def)

lemma plic_role_accepted: "u_validate RiscvIntrPlicRole (StrV s) = [] \<longleftrightarrow> s \<in> set plic_roles"
  by (simp add: RiscvIntrPlicRole_def plic_role_validate_def)

lemma clint_role_accepted: "u_validate RiscvIntrClintRole (StrV s) = [] \<longleftrightarrow> s \<in> set clint_roles"
  by (simp add: RiscvIntrClintRole_def clint_role_validate_def)

text \<open>The value an assignment without one stands for passes the property's own validator.\<close>

lemma default_accepted: "u \<in> set riscv_udps \<Longrightarrow> u_default u = Some v \<Longrightarrow> u_validate u v = []"
  by (auto simp: riscv_udps_def udp_defs priv_validate_def)

end
