(* ===== verification/Cli.thy ===== *)
theory Cli
  imports Exporter Udps
begin

text \<open>
  The command line (\<^verbatim>\<open>__main__.py\<close>): the parser it declares, with what \<^verbatim>\<open>argparse\<close> (of Python 3.11) makes
  of an argument list - abbreviated options, values behind an equals sign or in the same argument,
  the separator, negative numbers - and the program behind it: registration of the properties,
  compilation, export, exit code.
\<close>

section \<open>The parser\<close>

text \<open>The declared arguments, by option string, in the order of declaration; \<^verbatim>\<open>argparse\<close> adds the help option.\<close>

datatype cli_action = Help | Output_dir | Module_name | Package_name | Xlen

definition cli_options :: "(string \<times> cli_action) list" where
  "cli_options =
     [(''-h'', Help), (''--help'', Help), (''-o'', Output_dir), (''--output-dir'', Output_dir),
      (''--module-name'', Module_name), (''--package-name'', Package_name), (''--xlen'', Xlen)]"

text \<open>How \<^verbatim>\<open>argparse\<close> classifies an argument: a value, the separator \<^verbatim>\<open>--\<close>, an option with its declaration,
  the option string it was recognised as, and what stands behind it in the same argument, or an
  abbreviation of several options.\<close>

datatype cli_token =
    Value
  | Separator
  | Option "cli_action option" string "(bool \<times> string) option"
  | Ambiguous

text \<open>\<^verbatim>\<open>str.partition('=')\<close>: the part behind the sign, \<open>None\<close> without one.\<close>

fun partition_eq :: "string \<Rightarrow> string \<times> string option" where
  "partition_eq [] = ([], None)"
| "partition_eq (c # s) =
     (if c = CHR ''='' then ([], Some s) else (case partition_eq s of (a, b) \<Rightarrow> (c # a, b)))"

text \<open>\<^verbatim>\<open>^-\d+$|^-\d*\.\d+$\<close>; the anchor \<^verbatim>\<open>$\<close> also matches before a final line feed.\<close>

definition negative_number :: "string \<Rightarrow> bool" where
  "negative_number s0 =
     (let s = (if endswith newline s0 then butlast s0 else s0) in
      startswith ''-'' s \<and>
      (let t = tl s; u = dropWhile is_digit t in
       t \<noteq> [] \<and> u = [] \<or> (u \<noteq> [] \<and> hd u = CHR ''.'' \<and> tl u \<noteq> [] \<and> list_all is_digit (tl u))))"

text \<open>The flag of the rest of an argument says that an equals sign separates it.\<close>

definition option_tuples :: "string \<Rightarrow> (cli_action \<times> string \<times> (bool \<times> string) option) list" where
  "option_tuples s =
     (if startswith ''--'' s then
        (case partition_eq s of (prefix, rest) \<Rightarrow>
           map (\<lambda>(opt, a). (a, opt, map_option (\<lambda>e. (True, e)) rest))
             (filter (\<lambda>(opt, a). startswith prefix opt) cli_options))
      else
        concat (map (\<lambda>(opt, a).
          if opt = take 2 s then [(a, opt, Some (False, drop 2 s))]
          else if startswith s opt then [(a, opt, None)] else []) cli_options))"

definition classify :: "string \<Rightarrow> cli_token" where
  "classify s =
     (if \<not> startswith ''-'' s then Value
      else case map_of cli_options s of
        Some a \<Rightarrow> Option (Some a) s None
      | None \<Rightarrow>
          if length s = 1 then Value
          else (case partition_eq s of (opt, rest) \<Rightarrow>
            if rest \<noteq> None \<and> map_of cli_options opt \<noteq> None
            then Option (map_of cli_options opt) opt (map_option (\<lambda>e. (True, e)) rest)
            else (case option_tuples s of
                    [] \<Rightarrow> if negative_number s \<or> contains '' '' s then Value else Option None s None
                  | [(a, opt', rest')] \<Rightarrow> Option (Some a) opt' rest'
                  | _ \<Rightarrow> Ambiguous)))"

text \<open>Everything behind the separator is a value.\<close>

fun classify_all :: "string list \<Rightarrow> (string \<times> cli_token) list" where
  "classify_all [] = []"
| "classify_all (s # ss) =
     (if s = ''--'' then (s, Separator) # map (\<lambda>s. (s, Value)) ss else (s, classify s) # classify_all ss)"

section \<open>Consuming the arguments\<close>

record cli_args =
  ca_input :: string
  ca_output_dir :: string
  ca_module_name :: "string option"
  ca_package_name :: "string option"
  ca_xlen :: nat

definition cli_defaults :: cli_args where
  "cli_defaults = \<lparr>ca_input = [], ca_output_dir = ''.'', ca_module_name = None, ca_package_name = None, ca_xlen = 32\<rparr>"

text \<open>\<^verbatim>\<open>int(s)\<close>.\<close>

definition py_int10 :: "string \<Rightarrow> int option" where
  "py_int10 s0 = (let s = strip s0 in
     (case s of
        [] \<Rightarrow> None
      | c # cs \<Rightarrow>
          if c = CHR ''-'' then map_option (\<lambda>n. - int n) (read_digits 10 0 True cs)
          else if c = CHR ''+'' then map_option int (read_digits 10 0 True cs)
          else map_option int (read_digits 10 0 True s)))"

text \<open>
  What the parser ends with: the exit code of the program (0 after the help text, 2 after an error), or
  the arguments. \<open>take_action\<close> stores the value of one option.
\<close>

datatype 'a cli_outcome = Exit nat | Go 'a

fun take_action :: "cli_action \<Rightarrow> string \<Rightarrow> cli_args \<Rightarrow> cli_args cli_outcome" where
  "take_action Help v ns = Exit 0"
| "take_action Output_dir v ns = Go (ns\<lparr>ca_output_dir := v\<rparr>)"
| "take_action Module_name v ns = Go (ns\<lparr>ca_module_name := Some v\<rparr>)"
| "take_action Package_name v ns = Go (ns\<lparr>ca_package_name := Some v\<rparr>)"
| "take_action Xlen v ns =
     (case py_int10 v of
        Some i \<Rightarrow> if i \<in> {32, 64} then Go (ns\<lparr>ca_xlen := nat i\<rparr>) else Exit 2
      | None \<Rightarrow> Exit 2)"

fun take_actions :: "(cli_action \<times> string) list \<Rightarrow> cli_args \<Rightarrow> cli_args cli_outcome" where
  "take_actions [] ns = Go ns"
| "take_actions ((a, v) # acts) ns = (case take_action a v ns of Exit n \<Rightarrow> Exit n | Go ns' \<Rightarrow> take_actions acts ns')"

text \<open>
  One argument may hold several single-letter options: the actions with their values, the unrecognised
  rest, and how many of the following arguments are used. The next argument is given as its token and
  string.
\<close>

function option_chain ::
  "cli_action \<Rightarrow> string \<Rightarrow> (bool \<times> string) option \<Rightarrow> (string \<times> cli_token) list \<Rightarrow>
   ((cli_action \<times> string) list \<times> string list \<times> nat) option" where
  "option_chain a opt None next =
     (if a = Help then Some ([(a, [])], [], 0)
      else (case next of (v, Value) # _ \<Rightarrow> Some ([(a, v)], [], 1) | _ \<Rightarrow> None))"
| "option_chain a opt (Some (eq, e)) next =
     (if a \<noteq> Help then Some ([(a, e)], [], 0)
      else if startswith ''--'' opt \<or> e = [] \<or> eq \<or> hd e = CHR ''-'' then None
      else (case map_of cli_options [CHR ''-'', hd e] of
              None \<Rightarrow> Some ([(a, [])], [CHR ''-'' # e], 0)
            | Some a' \<Rightarrow>
                map_option (\<lambda>(acts, extras, n). ((a, []) # acts, extras, n))
                  (option_chain a' [CHR ''-'', hd e]
                     (if tl e = [] then None
                      else if hd (tl e) = CHR ''='' then Some (True, tl (tl e)) else Some (False, tl e)) next)))"
  by pat_completeness auto
termination
  by (relation "measure (\<lambda>(a, opt, rest, next). case rest of None \<Rightarrow> 0 | Some (eq, e) \<Rightarrow> Suc (length e))")
    (auto simp: neq_Nil_conv)

text \<open>How many arguments the positional takes: one value, and a separator beside it.\<close>

definition positional_count :: "(string \<times> cli_token) list \<Rightarrow> nat" where
  "positional_count ps =
     (let k = length (takeWhile (\<lambda>p. snd p = Separator) ps); r = drop k ps in
      case r of (s, Value) # r' \<Rightarrow> k + 1 + length (takeWhile (\<lambda>p. snd p = Separator) r') | _ \<Rightarrow> 0)"

definition is_option :: "string \<times> cli_token \<Rightarrow> bool" where
  "is_option p = (case snd p of Option a opt r \<Rightarrow> True | _ \<Rightarrow> False)"

record parse_state =
  ps_input :: "string option"
  ps_args :: cli_args
  ps_extras :: "string list"

text \<open>\<^verbatim>\<open>consume_positionals\<close>: the new state and the number of arguments taken.\<close>

definition consume_positionals :: "(string \<times> cli_token) list \<Rightarrow> parse_state \<Rightarrow> parse_state \<times> nat" where
  "consume_positionals ps st =
     (let n = (if ps_input st = None then positional_count ps else 0) in
      (if n = 0 then st else st\<lparr>ps_input := Some (hd (remove1 ''--'' (map fst (take n ps))))\<rparr>, n))"

definition finish :: "parse_state \<Rightarrow> cli_args cli_outcome" where
  "finish st =
     (case ps_input st of
        None \<Rightarrow> Exit 2
      | Some i \<Rightarrow> if ps_extras st = [] then Go ((ps_args st)\<lparr>ca_input := i\<rparr>) else Exit 2)"

function parse_loop :: "(string \<times> cli_token) list \<Rightarrow> parse_state \<Rightarrow> cli_args cli_outcome" where
  "parse_loop ps st =
     (if list_ex is_option ps then
        (case consume_positionals ps st of (st', n) \<Rightarrow>
          if 0 < n then parse_loop (drop n ps) st'
          else
            (let pre = takeWhile (\<lambda>p. \<not> is_option p) ps; st1 = st\<lparr>ps_extras := ps_extras st @ map fst pre\<rparr>;
                 rest = drop (length pre) ps in
             case rest of
               (s, Option (Some a) opt r) # next \<Rightarrow>
                 (case option_chain a opt r next of
                    None \<Rightarrow> Exit 2
                  | Some (acts, extras, k) \<Rightarrow>
                      (case take_actions acts (ps_args st1) of
                         Exit n \<Rightarrow> Exit n
                       | Go ns \<Rightarrow> parse_loop (drop k next) (st1\<lparr>ps_args := ns, ps_extras := ps_extras st1 @ extras\<rparr>)))
             | (s, t) # next \<Rightarrow> parse_loop next (st1\<lparr>ps_extras := ps_extras st1 @ [s]\<rparr>)
             | [] \<Rightarrow> finish st1))
      else
        (case consume_positionals ps st of (st', n) \<Rightarrow>
           finish (st'\<lparr>ps_extras := ps_extras st' @ map fst (drop n ps)\<rparr>)))"
  by pat_completeness auto
termination
proof (relation "measure (\<lambda>(ps, st). length ps)")
qed (auto dest!: sym [of "drop _ _"] arg_cong [where f = length] simp: list_ex_iff length_greater_0_conv [symmetric] simp del: length_greater_0_conv
    intro!: diff_less dest: length_pos_if_in_set)

definition parse_args :: "string list \<Rightarrow> cli_args cli_outcome" where
  "parse_args argv =
     (let ps = classify_all argv in
      if Ambiguous \<in> snd ` set ps then Exit 2
      else parse_loop ps \<lparr>ps_input = None, ps_args = cli_defaults, ps_extras = []\<rparr>)"


declare parse_loop.simps [simp del]

section \<open>The program\<close>

text \<open>
  \<^verbatim>\<open>main\<close> behind the parser. \<open>compile\<close> is the third-party RDL compiler: from the properties registered
  with it, each with its \<^verbatim>\<open>soft\<close> flag and in order of registration, and the input, the top of the
  elaborated tree, or \<open>None\<close> when it reports an error. The result is the lines printed and the exit
  code, or the exception \<^verbatim>\<open>main\<close> lets through.
\<close>

definition cli_run ::
  "deref \<Rightarrow> udp_def list \<Rightarrow> ((udp_def \<times> bool) list \<Rightarrow> string \<Rightarrow> rdl_top option) \<Rightarrow> cli_args
    \<Rightarrow> (string list \<times> nat) io" where
  "cli_run dr rdl2arch_udps compile args fs =
     (case compile (map (\<lambda>udp. (udp, False)) (all_udps rdl2arch_udps)) (ca_input args) of
        None \<Rightarrow> (fs, Inr ([], 1))
      | Some tp \<Rightarrow>
          (case csr_export dr (Addrmap tp) (ca_output_dir args) (ca_module_name args) (ca_package_name args)
                  (ca_xlen args) fs of
             (fs', Inl e) \<Rightarrow> (fs', Inl e)
           | (fs', Inr files) \<Rightarrow> (fs', Inr (map snd files, 0))))"

text \<open>The texts of help and usage errors are not modelled, only their exit codes.\<close>

definition cli_main ::
  "deref \<Rightarrow> udp_def list \<Rightarrow> ((udp_def \<times> bool) list \<Rightarrow> string \<Rightarrow> rdl_top option) \<Rightarrow> string list
    \<Rightarrow> (string list \<times> nat) io" where
  "cli_main dr rdl2arch_udps compile argv fs =
     (case parse_args argv of
        Exit n \<Rightarrow> (fs, Inr ([], n))
      | Go args \<Rightarrow> cli_run dr rdl2arch_udps compile args fs)"

section \<open>Option values come back\<close>

text \<open>Options as a user writes them, and what they set.\<close>

datatype setting = Set_dir string | Set_module string | Set_package string | Set_xlen nat

fun setting_token :: "setting \<Rightarrow> cli_action \<times> string \<times> string" where
  "setting_token (Set_dir v) = (Output_dir, ''-o'', v)"
| "setting_token (Set_module v) = (Module_name, ''--module-name'', v)"
| "setting_token (Set_package v) = (Package_name, ''--package-name'', v)"
| "setting_token (Set_xlen n) = (Xlen, ''--xlen'', nat_dec n)"

definition setting_args :: "setting \<Rightarrow> string list" where
  "setting_args s = (case setting_token s of (a, opt, v) \<Rightarrow> [opt, v])"

fun apply_setting :: "cli_args \<Rightarrow> setting \<Rightarrow> cli_args" where
  "apply_setting ns (Set_dir v) = ns\<lparr>ca_output_dir := v\<rparr>"
| "apply_setting ns (Set_module v) = ns\<lparr>ca_module_name := Some v\<rparr>"
| "apply_setting ns (Set_package v) = ns\<lparr>ca_package_name := Some v\<rparr>"
| "apply_setting ns (Set_xlen n) = ns\<lparr>ca_xlen := n\<rparr>"

fun setting_ok :: "setting \<Rightarrow> bool" where
  "setting_ok (Set_dir v) = (\<not> startswith ''-'' v)"
| "setting_ok (Set_module v) = (\<not> startswith ''-'' v)"
| "setting_ok (Set_package v) = (\<not> startswith ''-'' v)"
| "setting_ok (Set_xlen n) = (n = 32 \<or> n = 64)"

definition setting_tokens :: "setting \<Rightarrow> (string \<times> cli_token) list" where
  "setting_tokens s = (case setting_token s of (a, opt, v) \<Rightarrow> [(opt, Option (Some a) opt None), (v, Value)])"

lemma xlen_texts: "nat_dec 32 = ''32''" "nat_dec 64 = ''64''"
  "py_int10 ''32'' = Some 32" "py_int10 ''64'' = Some 64"
  by code_simp+

lemma classify_options:
  "classify ''-o'' = Option (Some Output_dir) ''-o'' None"
  "classify ''--module-name'' = Option (Some Module_name) ''--module-name'' None"
  "classify ''--package-name'' = Option (Some Package_name) ''--package-name'' None"
  "classify ''--xlen'' = Option (Some Xlen) ''--xlen'' None"
  by code_simp+

lemma classify_plain: "\<not> startswith ''-'' v \<Longrightarrow> classify v = Value \<and> v \<noteq> ''--''"
  by (auto simp: classify_def startswith_def)

lemma setting_classified:
  assumes "setting_ok s"
  shows "classify_all (setting_args s @ ss) = setting_tokens s @ classify_all ss"
  using assms by (cases s)
    (auto simp: setting_args_def setting_tokens_def classify_options classify_plain xlen_texts startswith_def)

lemma settings_classified:
  "list_all setting_ok ps \<Longrightarrow> classify_all (concat (map setting_args ps) @ ss) = concat (map setting_tokens ps) @ classify_all ss"
  by (induction ps) (auto simp: setting_classified)

lemma setting_parsed:
  assumes "setting_ok s"
  shows "parse_loop (setting_tokens s @ ps) st = parse_loop ps (st\<lparr>ps_args := apply_setting (ps_args st) s\<rparr>)"
  using assms
  by (cases s; subst parse_loop.simps)
    (auto simp: setting_tokens_def is_option_def consume_positionals_def positional_count_def xlen_texts Let_def)

lemma settings_parsed:
  "list_all setting_ok ss \<Longrightarrow> parse_loop (concat (map setting_tokens ss) @ ps) st
    = parse_loop ps (st\<lparr>ps_args := foldl apply_setting (ps_args st) ss\<rparr>)"
  by (induction ss arbitrary: st) (auto simp: setting_parsed)

lemma input_parsed:
  assumes "ps_input st = None" and "inp \<noteq> ''--''"
  shows "parse_loop ((inp, Value) # concat (map setting_tokens ss)) st
    = parse_loop (concat (map setting_tokens ss)) (st\<lparr>ps_input := Some inp\<rparr>)"
proof -
  have c: "positional_count ((inp, Value) # concat (map setting_tokens ss)) = 1"
    by (cases ss) (auto simp: positional_count_def setting_tokens_def split: prod.splits)
  have o: "list_ex is_option (concat (map setting_tokens ss)) \<longleftrightarrow> ss \<noteq> []"
    by (cases ss) (auto simp: setting_tokens_def is_option_def split: prod.splits)
  have p: "consume_positionals ((inp, Value) # concat (map setting_tokens ss)) st = (st\<lparr>ps_input := Some inp\<rparr>, 1)"
    using c assms by (simp add: consume_positionals_def)
  show ?thesis
  proof (cases "ss = []")
    case True
    then show ?thesis using p parse_loop.simps [of "[(inp, Value)]" st] parse_loop.simps [of "[]"]
      by (simp add: is_option_def consume_positionals_def)
  next
    case False
    then show ?thesis using p o parse_loop.simps [of "(inp, Value) # concat (map setting_tokens ss)" st] by simp
  qed
qed

text \<open>
  C39: The command line gives back what it is told: options in any order, before or behind the input
  file, set their parameter, a later one overrides an earlier one, and what is not mentioned has its
  default.
\<close>

theorem cli_roundtrip:
  assumes "list_all setting_ok before" and "list_all setting_ok behind" and "\<not> startswith ''-'' inp"
  shows "parse_args (concat (map setting_args before) @ inp # concat (map setting_args behind))
    = Go ((foldl apply_setting cli_defaults (before @ behind))\<lparr>ca_input := inp\<rparr>)"
proof -
  have i: "classify inp = Value" "inp \<noteq> ''--''" using classify_plain [OF assms(3)] by blast+
  have ps: "classify_all (concat (map setting_args before) @ inp # concat (map setting_args behind))
    = concat (map setting_tokens before) @ (inp, Value) # concat (map setting_tokens behind)"
    using settings_classified [OF assms(1)] settings_classified [OF assms(2), of "[]"] i by simp
  have "(x, Ambiguous) \<notin> set (setting_tokens s)" for x s by (simp add: setting_tokens_def split: prod.splits)
  then have "Ambiguous \<notin> snd ` set (concat (map setting_tokens before) @ (inp, Value) # concat (map setting_tokens behind))"
    by auto
  then show ?thesis
    using settings_parsed [OF assms(2), of "[]"] i(2)
    by (simp add: parse_args_def ps settings_parsed [OF assms(1)] input_parsed Let_def)
      (simp add: parse_loop.simps consume_positionals_def finish_def)
qed

theorem cli_roundtrip_witness:
  "parse_args [''-o'', ''out'', ''m_trap.rdl'', ''--xlen'', ''64'', ''-o'', ''gen'']
    = Go \<lparr>ca_input = ''m_trap.rdl'', ca_output_dir = ''gen'', ca_module_name = None, ca_package_name = None, ca_xlen = 64\<rparr>"
  using cli_roundtrip [of "[Set_dir ''out'']" "[Set_xlen 64, Set_dir ''gen'']" "''m_trap.rdl''"]
  by (simp add: setting_args_def xlen_texts cli_defaults_def startswith_def)

section \<open>Exit of the program\<close>

lemma dict_of_values: "snd ` set (dict_of items) \<subseteq> snd ` set items"
proof -
  have "snd ` set (foldl (\<lambda>d (k, v). AList.update k v d) acc items) \<subseteq> snd ` set (acc @ items)" for acc
  proof (induction items arbitrary: acc)
    case (Cons x items)
    obtain k v where x: "x = (k, v)" by (cases x)
    have "snd ` set (AList.update k v acc) \<subseteq> insert v (snd ` set acc)" by (induction acc) auto
    then have "snd ` set (AList.update k v acc @ items) \<subseteq> snd ` set (acc @ x # items)"
      by (auto simp: x image_Un)
    from subset_trans [OF Cons.IH this] show ?case by (simp add: x)
  qed simp
  from this [of "[]"] show ?thesis by (simp add: dict_of_def)
qed

lemma write_all_dom: "dom (write_all dir items fs) = dom fs \<union> path_join dir ` fst ` set items"
  by (induction items arbitrary: fs) (auto simp: write_all_def)

text \<open>Every path printed is a file that exists, and on exit code 1 nothing was written.\<close>

lemma cli_run_result:
  assumes "cli_run dr up compile args fs = (fs', Inr (printed, code))"
  shows "set printed \<subseteq> dom fs' \<and> (code = 1 \<and> fs' = fs \<and> printed = [] \<or> code = 0)"
proof (cases "compile (map (\<lambda>udp. (udp, False)) (all_udps up)) (ca_input args)")
  case None
  then show ?thesis using assms by (auto simp: cli_run_def)
next
  case (Some tp)
  then obtain files where e: "csr_export dr (Addrmap tp) (ca_output_dir args) (ca_module_name args)
      (ca_package_name args) (ca_xlen args) fs = (fs', Inr files)" and p: "printed = map snd files" "code = 0"
    using assms by (auto simp: cli_run_def split: prod.splits sum.splits)
  from e obtain items where i: "fs' = write_all (ca_output_dir args) items fs"
    "files = dict_of (map (\<lambda>(name, src). (name, path_join (ca_output_dir args) name)) items)"
    by (auto simp: csr_export_def split: sum.splits)
  have "set printed \<subseteq> snd ` (\<lambda>(name, src). (name, path_join (ca_output_dir args) name)) ` set items"
    unfolding p i(2) set_map
    by (rule dict_of_values [of "map f items" for f items, unfolded set_map])
  also have "\<dots> = path_join (ca_output_dir args) ` fst ` set items" by (force simp: image_image)
  finally have "set printed \<subseteq> path_join (ca_output_dir args) ` fst ` set items" .
  then show ?thesis by (simp add: i(1) write_all_dom p(2) le_supI2)
qed

lemma cli_result:
  assumes "cli_main dr up compile argv fs = (fs', Inr (printed, code))"
  shows "set printed \<subseteq> dom fs' \<and> (code = 0 \<or> fs' = fs \<and> printed = [])"
proof (cases "parse_args argv")
  case (Exit n)
  then show ?thesis using assms by (simp add: cli_main_def)
next
  case (Go args)
  then have "cli_run dr up compile args fs = (fs', Inr (printed, code))" using assms by (simp add: cli_main_def)
  from cli_run_result [OF this] show ?thesis by blast
qed

end
